(* ===== verification/Prelude.thy ===== *)
theory Prelude
  imports Main "HOL-Library.Word"
begin

text \<open>
  Shared vocabulary of the development: the machine types of the 32-bit ARM target, the byte
  memory the string routines work on, the named collections that carry the component proofs, and
  generic facts on lists, options and words used by more than one component.
\<close>

unbundle bit_operations_syntax

section \<open>Machine types\<close>

type_synonym addr = "32 word"
type_synonym byte = "8 word"
type_synonym u16 = "16 word"
type_synonym u32 = "32 word"
type_synonym memory = "addr \<Rightarrow> byte"

abbreviation NULL :: addr where
  "NULL \<equiv> 0"

section \<open>Collections\<close>

named_theorems inv_defs \<open>definitions of the invariants of the components\<close>
named_theorems inv_pres \<open>an operation keeps the invariant of its component\<close>
named_theorems refine \<open>a concrete operation implements its abstract counterpart\<close>
named_theorems heap_simps \<open>reads of linked structures after a write\<close>

section \<open>Lists\<close>

lemma remove1_middle:
  "x \<notin> set ys \<Longrightarrow> remove1 x (ys @ x # zs) = ys @ zs"
  by (induction ys) auto

lemma filter_neq_remove1:
  "distinct xs \<Longrightarrow> filter (\<lambda>y. y \<noteq> x) xs = remove1 x xs"
  by (simp add: distinct_remove1_removeAll removeAll_filter_not_eq eq_commute [of _ x] cong: filter_cong)

lemma in_set_tlD: "x \<in> set (tl xs) \<Longrightarrow> x \<in> set xs"
  by (cases xs) auto

lemma takeWhile_upto: "s \<notin> set as \<Longrightarrow> takeWhile (\<lambda>x. x \<noteq> s) (as @ s # bs) = as"
  and dropWhile_upto: "s \<notin> set as \<Longrightarrow> dropWhile (\<lambda>x. x \<noteq> s) (as @ s # bs) = s # bs"
  by (induction as) auto

lemma take_drop_update:
  assumes "n + length ys \<le> length xs"
  shows "length (take n xs @ ys @ drop (n + length ys) xs) = length xs"
  using assms by simp

section \<open>Words\<close>

lemma unat_le_max_word32: "unat (w :: 32 word) < 4294967296"
  using unsigned_less [of w] by simp

lemma word_less_unat: "(a :: 32 word) < b \<longleftrightarrow> unat a < unat b"
  by (simp add: word_less_nat_alt)

lemma sint_of_int_small:
  "- (2 ^ 31) \<le> k \<Longrightarrow> k < 2 ^ 31 \<Longrightarrow> sint (of_int k :: 32 word) = k"
  by (simp add: signed_of_int signed_take_bit_int_eq_self)

lemma unat_of_nat_small: "n < 2 ^ 32 \<Longrightarrow> unat (of_nat n :: u32) = n"
  by (simp add: unat_of_nat)

lemma unat_exp: "k < 32 \<Longrightarrow> unat (2 ^ k :: u32) = 2 ^ k"
  using unat_of_nat_small [of "2 ^ k"] power_strict_increasing [of k 32 "2::nat"] by simp

lemma drop_of_nat: "n < 2 ^ 31 \<Longrightarrow> drop_bit k (of_nat n :: u32) = of_nat (n div 2 ^ k)"
proof -
  assume n: "n < 2 ^ 31"
  have "n div 2 ^ k < 2 ^ 31" by (rule le_less_trans [OF div_le_dividend n])
  with n have "unat (of_nat (n div 2 ^ k) :: u32) = n div 2 ^ k" "unat (of_nat n :: u32) = n"
    by (auto intro!: unat_of_nat_small)
  then show ?thesis by (simp add: word_unat_eq_iff unat_drop_bit_eq) (simp add: drop_bit_eq_div)
qed

lemma and_high:
  assumes "i < 2 ^ 31"
  shows "(of_nat i :: u32) AND - (2 ^ n) = of_nat (i div 2 ^ n * 2 ^ n)"
proof -
  have "(of_nat i :: u32) AND NOT (mask n) = push_bit n (drop_bit n (of_nat i))"
    by (rule bit_word_eqI) (auto simp: bit_simps)
  moreover have "drop_bit n (of_nat i :: u32) = of_nat (i div 2 ^ n)"
    by (rule drop_of_nat [OF assms])
  ultimately show ?thesis by (simp add: minus_exp_eq_not_mask push_bit_eq_mult)
qed

end
