(* ===== verification/Lib_List.thy ===== *)
theory Lib_List
  imports Prelude
begin

text \<open>
  The intrusive doubly linked list of \<^verbatim>\<open>src/lib/list.c\<close>. The heap holds the two links of every
  list head; each routine of the file is one function on the heap, with the assignments in the
  order of the source. The relation \<open>ring\<close> says that a head and its nodes form a well-linked
  circular list; the interface locale \<open>ring_list\<close> is what the rest of the kernel relies on
  when it keeps its queues in such lists, and the components above model those queues as HOL lists.
\<close>

section \<open>Heap and routines\<close>

record lheap =
  nxt :: "addr \<Rightarrow> addr"
  prv :: "addr \<Rightarrow> addr"

definition set_next :: "addr \<Rightarrow> addr \<Rightarrow> lheap \<Rightarrow> lheap" where
  "set_next p v h = h\<lparr>nxt := (nxt h)(p := v)\<rparr>"

definition set_prev :: "addr \<Rightarrow> addr \<Rightarrow> lheap \<Rightarrow> lheap" where
  "set_prev p v h = h\<lparr>prv := (prv h)(p := v)\<rparr>"

lemma set_next_sel [heap_simps, simp]:
  "nxt (set_next p v h) = (nxt h)(p := v)" "prv (set_next p v h) = prv h"
  by (simp_all add: set_next_def)

lemma set_prev_sel [heap_simps, simp]:
  "prv (set_prev p v h) = (prv h)(p := v)" "nxt (set_prev p v h) = nxt h"
  by (simp_all add: set_prev_def)

definition INIT_LIST_HEAD :: "addr \<Rightarrow> lheap \<Rightarrow> lheap" where
  "INIT_LIST_HEAD l h = set_prev l l (set_next l l h)"

definition list_add_between :: "addr \<Rightarrow> addr \<Rightarrow> addr \<Rightarrow> lheap \<Rightarrow> lheap" where
  "list_add_between new_lst prev next h =
     set_next prev new_lst (set_prev new_lst prev (set_next new_lst next (set_prev next new_lst h)))"

definition list_add :: "addr \<Rightarrow> addr \<Rightarrow> lheap \<Rightarrow> lheap" where
  "list_add new_lst head h = list_add_between new_lst head (nxt h head) h"

definition list_add_tail :: "addr \<Rightarrow> addr \<Rightarrow> lheap \<Rightarrow> lheap" where
  "list_add_tail new_lst head h = list_add_between new_lst (prv h head) head h"

definition list_del_between :: "addr \<Rightarrow> addr \<Rightarrow> lheap \<Rightarrow> lheap" where
  "list_del_between prev next h = set_next prev next (set_prev next prev h)"

text \<open>
  \<open>check_addr\<close> spins forever on an address outside the RAM window; a call that does not
  return is the value \<open>False\<close>, and the caller's result is then \<open>None\<close>.
\<close>

definition check_addr :: "addr \<Rightarrow> bool" where
  "check_addr a \<longleftrightarrow> a \<noteq> NULL \<and> a AND 0x30000000 \<noteq> 0 \<and> a AND 0xc0000000 = 0"

definition list_del :: "addr \<Rightarrow> lheap \<Rightarrow> lheap option" where
  "list_del entry h =
     (if check_addr entry
      then Some (set_prev entry entry (set_next entry entry
                   (list_del_between (prv h entry) (nxt h entry) h)))
      else None)"

definition list_remove_chain :: "addr \<Rightarrow> addr \<Rightarrow> lheap \<Rightarrow> lheap" where
  "list_remove_chain ch ct h =
     (let h1 = set_next (prv h ch) (nxt h ct) h
      in set_prev (nxt h1 ct) (prv h1 ch) h1)"

definition list_add_chain :: "addr \<Rightarrow> addr \<Rightarrow> addr \<Rightarrow> lheap \<Rightarrow> lheap" where
  "list_add_chain ch ct head h =
     (let h1 = set_prev ch head h;
          h2 = set_next ct (nxt h1 head) h1;
          h3 = set_prev (nxt h2 head) ct h2
      in set_next head ch h3)"

definition list_add_chain_tail :: "addr \<Rightarrow> addr \<Rightarrow> addr \<Rightarrow> lheap \<Rightarrow> lheap" where
  "list_add_chain_tail ch ct head h =
     (let h1 = set_prev ch (prv h head) h;
          h2 = set_next (prv h1 head) ch h1;
          h3 = set_prev head ct h2
      in set_next ct head h3)"

definition list_empty :: "addr \<Rightarrow> lheap \<Rightarrow> bool" where
  "list_empty head h \<longleftrightarrow> nxt h head = head"

text \<open>
  The macro \<open>list_for_each\<close> as the sequence of positions its loop visits; \<open>None\<close> when
  the fuel runs out before the position is the head again.
\<close>

fun list_walk :: "nat \<Rightarrow> lheap \<Rightarrow> addr \<Rightarrow> addr \<Rightarrow> addr list option" where
  "list_walk 0 h head pos = None"
| "list_walk (Suc n) h head pos =
     (if pos = head then Some []
      else map_option (Cons pos) (list_walk n h head (nxt h pos)))"

definition list_for_each :: "nat \<Rightarrow> lheap \<Rightarrow> addr \<Rightarrow> addr list option" where
  "list_for_each fuel h head = list_walk fuel h head (nxt h head)"

section \<open>Well-linked rings\<close>

fun seg :: "lheap \<Rightarrow> addr \<Rightarrow> addr list \<Rightarrow> addr \<Rightarrow> bool" where
  "seg h a [] b = (nxt h a = b \<and> prv h b = a)"
| "seg h a (x # xs) b = (nxt h a = x \<and> prv h x = a \<and> seg h x xs b)"

definition ring :: "lheap \<Rightarrow> addr \<Rightarrow> addr list \<Rightarrow> bool" where
  "ring h head xs \<longleftrightarrow> distinct (head # xs) \<and> seg h head xs head"

lemma seg_append [simp]:
  "seg h a (xs @ x # ys) b \<longleftrightarrow> seg h a xs x \<and> seg h x ys b"
  by (induction xs arbitrary: a) auto

lemma seg_snoc: "seg h a (xs @ [x]) b \<longleftrightarrow> seg h a xs x \<and> nxt h x = b \<and> prv h b = x"
  by simp

text \<open>A segment only depends on the forward links of its left end and nodes, and on the backward
  links of its nodes and right end.\<close>

lemma seg_frame:
  assumes "\<And>p. p \<in> insert a (set xs) \<Longrightarrow> nxt h' p = nxt h p"
    and "\<And>p. p \<in> insert b (set xs) \<Longrightarrow> prv h' p = prv h p"
  shows "seg h' a xs b \<longleftrightarrow> seg h a xs b"
  using assms by (induction xs arbitrary: a) auto

lemma seg_first: "seg h a xs b \<Longrightarrow> nxt h a = (case xs of [] \<Rightarrow> b | x # _ \<Rightarrow> x)"
  by (cases xs) auto

lemma seg_last: "seg h a xs b \<Longrightarrow> prv h b = (if xs = [] then a else last xs)"
  by (induction xs arbitrary: a) auto

lemma ring_frame:
  assumes "\<And>p. p \<in> set (head # xs) \<Longrightarrow> nxt h' p = nxt h p"
    and "\<And>p. p \<in> set (head # xs) \<Longrightarrow> prv h' p = prv h p"
  shows "ring h' head xs \<longleftrightarrow> ring h head xs"
  using assms seg_frame [of head xs h' h head] by (simp add: ring_def)


section \<open>Every routine on a ring\<close>

lemma ring_distinct: "ring h head xs \<Longrightarrow> distinct (head # xs)"
  by (simp add: ring_def)

lemma ring_init [refine]: "ring (INIT_LIST_HEAD l h) l []"
  by (simp add: ring_def INIT_LIST_HEAD_def)

text \<open>Linking a fresh node between two adjacent ones.\<close>

lemma seg_add_between:
  assumes "seg h head (xs @ ys) head" "distinct (head # xs @ ys)" "n \<notin> set (head # xs @ ys)"
    and p: "p = (if xs = [] then head else last xs)"
    and q: "q = (case ys of [] \<Rightarrow> head | y # _ \<Rightarrow> y)"
  shows "seg (list_add_between n p q h) head (xs @ n # ys) head"
proof -
  let ?h = "list_add_between n p q h"
  have "p \<in> insert head (set xs)" using p by simp
  then have pl: "p \<notin> set ys" "p \<noteq> n" using assms(2,3) by auto
  have left: "seg ?h head xs n"
  proof (cases xs rule: rev_cases)
    case Nil
    then show ?thesis using assms by (auto simp: list_add_between_def split: list.splits)
  next
    case (snoc xs' x)
    have "seg h head xs' x" using assms(1) by (simp add: snoc)
    moreover have "seg ?h head xs' x \<longleftrightarrow> seg h head xs' x"
      by (rule seg_frame) (use assms in \<open>auto simp: snoc list_add_between_def split: list.splits\<close>)
    ultimately show ?thesis using assms by (auto simp: snoc list_add_between_def split: list.splits)
  qed
  have right: "seg ?h n ys head"
  proof (cases ys)
    case Nil
    then show ?thesis using assms by (auto simp: list_add_between_def)
  next
    case (Cons y ys')
    have "seg h y ys' head" using assms(1) by (simp add: Cons)
    moreover have "seg ?h y ys' head \<longleftrightarrow> seg h y ys' head"
      by (rule seg_frame) (use assms(2,3) pl q in \<open>auto simp: Cons list_add_between_def\<close>)
    ultimately show ?thesis using assms by (auto simp: Cons list_add_between_def)
  qed
  from left right show ?thesis by simp
qed

lemma ring_list_add [refine]:
  assumes "ring h head xs" "n \<notin> set (head # xs)"
  shows "ring (list_add n head h) head (n # xs)"
  using assms seg_add_between [of h head "[]" xs n head "nxt h head"]
  by (auto simp: ring_def list_add_def dest: seg_first)

lemma ring_list_add_tail [refine]:
  assumes "ring h head xs" "n \<notin> set (head # xs)"
  shows "ring (list_add_tail n head h) head (xs @ [n])"
  using assms seg_add_between [of h head xs "[]" n "prv h head" head]
  by (auto simp: ring_def list_add_tail_def dest: seg_last)

lemma seg_unlink:
  assumes "seg h a (xs @ x # ys) b" "distinct (xs @ x # ys)" "a \<notin> set (x # ys)" "b \<notin> set (xs @ [x])"
    "a \<in> set xs \<Longrightarrow> False" "b \<in> set ys \<Longrightarrow> False"
  shows "seg (list_del_between (prv h x) (nxt h x) h) a (xs @ ys) b"
proof -
  let ?h = "list_del_between (prv h x) (nxt h x) h"
  have px: "prv h x = (if xs = [] then a else last xs)" and nx: "nxt h x = (case ys of [] \<Rightarrow> b | y # _ \<Rightarrow> y)"
    using assms(1) by (auto dest: seg_last seg_first)
  show ?thesis
  proof (cases xs rule: rev_cases)
    case Nil
    show ?thesis
    proof (cases ys)
      case (Cons y ys')
      have "seg ?h y ys' b \<longleftrightarrow> seg h y ys' b"
        by (rule seg_frame) (use assms px nx Nil Cons in \<open>auto simp: list_del_between_def\<close>)
      then show ?thesis using assms px nx Nil Cons by (auto simp: list_del_between_def)
    qed (use px nx Nil in \<open>auto simp: list_del_between_def\<close>)
  next
    case (snoc xs' w)
    have left: "seg ?h a xs' w"
    proof -
      have "seg ?h a xs' w \<longleftrightarrow> seg h a xs' w"
        by (rule seg_frame) (use assms px nx snoc in \<open>auto simp: list_del_between_def split: list.splits\<close>)
      then show ?thesis using assms snoc by simp
    qed
    show ?thesis
    proof (cases ys)
      case (Cons y ys')
      have "seg ?h y ys' b \<longleftrightarrow> seg h y ys' b"
        by (rule seg_frame) (use assms px nx snoc Cons in \<open>auto simp: list_del_between_def\<close>)
      then show ?thesis using assms px nx snoc Cons left by (auto simp: list_del_between_def)
    qed (use px nx snoc left in \<open>auto simp: list_del_between_def\<close>)
  qed
qed


lemma ring_list_del [refine]:
  assumes "ring h head (xs @ x # ys)" "check_addr x"
  shows "\<exists>h'. list_del x h = Some h' \<and> ring h' head (xs @ ys) \<and> ring h' x []"
proof -
  let ?h = "list_del_between (prv h x) (nxt h x) h"
  let ?h' = "set_prev x x (set_next x x ?h)"
  from assms(1) have "seg ?h head (xs @ ys) head"
    by (intro seg_unlink) (auto simp: ring_def)
  moreover have "seg ?h' head (xs @ ys) head \<longleftrightarrow> seg ?h head (xs @ ys) head"
    by (rule seg_frame) (use assms(1) in \<open>auto simp: ring_def\<close>)
  ultimately show ?thesis using assms by (auto simp: list_del_def ring_def)
qed

lemma list_del_hangs: "\<not> check_addr x \<Longrightarrow> list_del x h = None"
  by (simp add: list_del_def)

lemma list_empty_ring [refine]: "ring h head xs \<Longrightarrow> list_empty head h \<longleftrightarrow> xs = []"
  by (auto simp: ring_def list_empty_def dest: seg_first split: list.splits)

lemma list_walk_seg:
  "seg h a xs head \<Longrightarrow> head \<notin> set xs \<Longrightarrow> length xs < n \<Longrightarrow> list_walk n h head (nxt h a) = Some xs"
proof (induction xs arbitrary: a n)
  case Nil
  then show ?case by (cases n) auto
next
  case (Cons x xs)
  then obtain m where "n = Suc m" by (cases n) auto
  with Cons show ?case by auto
qed

lemma list_for_each_ring [refine]:
  "ring h head xs \<Longrightarrow> length xs < fuel \<Longrightarrow> list_for_each fuel h head = Some xs"
  by (simp add: ring_def list_for_each_def list_walk_seg)

text \<open>
  Chains: taking a run of nodes off its ring leaves the rest linked and the run internally linked,
  and splicing a linked run behind the head or at the tail puts it there in order.
\<close>

fun linked :: "lheap \<Rightarrow> addr list \<Rightarrow> bool" where
  "linked h [] = True"
| "linked h [x] = True"
| "linked h (x # y # zs) = (nxt h x = y \<and> prv h y = x \<and> linked h (y # zs))"

lemma linked_append:
  "us \<noteq> [] \<Longrightarrow> vs \<noteq> [] \<Longrightarrow>
   linked h (us @ vs) \<longleftrightarrow>
     linked h us \<and> nxt h (last us) = hd vs \<and> prv h (hd vs) = last us \<and> linked h vs"
proof (induction h us rule: linked.induct)
  case (2 h x)
  then show ?case by (cases vs) auto
qed auto

lemma seg_linked: "seg h a xs b \<longleftrightarrow> linked h (a # xs @ [b])"
  by (induction xs arbitrary: a) auto

lemma linked_frame:
  assumes "\<And>p. p \<in> set (butlast cs) \<Longrightarrow> nxt h' p = nxt h p"
    and "\<And>p. p \<in> set (tl cs) \<Longrightarrow> prv h' p = prv h p"
  shows "linked h' cs \<longleftrightarrow> linked h cs"
  using assms by (induction h' cs rule: linked.induct) auto

lemma last_notin_butlast: "distinct xs \<Longrightarrow> xs \<noteq> [] \<Longrightarrow> last xs \<notin> set (butlast xs)"
  by (metis append_butlast_last_id distinct_append disjoint_iff list.set_intros(1))

lemma hd_notin_tl: "distinct xs \<Longrightarrow> xs \<noteq> [] \<Longrightarrow> hd xs \<notin> set (tl xs)"
  by (cases xs) auto

text \<open>Setting one junction \<open>p, q\<close> keeps every run of links that does not cross it.\<close>

lemma linked_join:
  assumes "linked h cs" "p \<notin> set (butlast cs)" "q \<notin> set (tl cs)"
    and "nxt h' = (nxt h)(p := q)" "prv h' = (prv h)(q := p)"
  shows "linked h' cs"
proof -
  have "linked h' cs \<longleftrightarrow> linked h cs"
    by (rule linked_frame) (use assms in auto)
  with assms(1) show ?thesis by simp
qed

lemma ring_remove_chain [refine]:
  assumes "ring h head (xs @ cs @ ys)" "cs \<noteq> []"
  shows "ring (list_remove_chain (hd cs) (last cs) h) head (xs @ ys)"
    and "linked (list_remove_chain (hd cs) (last cs) h) cs"
proof -
  let ?us = "head # xs" and ?vs = "ys @ [head]"
  let ?h = "list_remove_chain (hd cs) (last cs) h"
  define p q where "p = last ?us" and "q = hd ?vs"
  have d: "distinct (head # xs @ cs @ ys)" and l: "linked h (?us @ cs @ ?vs)"
    using assms(1) by (simp_all add: ring_def seg_linked)
  have parts: "linked h ?us" "linked h cs" "linked h ?vs"
    and ends: "prv h (hd cs) = p" "nxt h (last cs) = q"
    using l assms(2) linked_append [of ?us "cs @ ?vs" h] linked_append [of cs ?vs h]
    by (auto simp: p_def q_def)
  have "p \<in> set ?us" unfolding p_def by (rule last_in_set) simp
  moreover have "q \<in> set ?vs" unfolding q_def by (rule hd_in_set) simp
  ultimately have pq: "p \<notin> set cs" "q \<notin> set cs" "p \<notin> set ys" "q \<notin> set xs"
    using d by auto
  have pu: "p \<notin> set (butlast ?us)" and qv: "q \<notin> set (tl ?vs)"
    using d last_notin_butlast [of ?us] hd_notin_tl [of ?vs] by (auto simp: p_def q_def)
  have "hd cs \<in> set cs" "last cs \<in> set cs" using assms(2) by auto
  then have "hd cs \<noteq> q" "last cs \<noteq> p" using pq by auto
  then have h': "nxt ?h = (nxt h)(p := q)" "prv ?h = (prv h)(q := p)"
    using ends by (auto simp: list_remove_chain_def Let_def)
  have "linked ?h ?us" by (rule linked_join [OF parts(1) pu _ h']) (use pq in simp)
  moreover have "linked ?h ?vs" by (rule linked_join [OF parts(3) _ qv h']) (use pq in simp)
  ultimately have "linked ?h (?us @ ?vs)"
    using linked_append [of ?us ?vs ?h] h' by (simp add: p_def q_def)
  then show "ring ?h head (xs @ ys)" using d by (auto simp: ring_def seg_linked)
  show "linked ?h cs"
    by (rule linked_join [OF parts(2) _ _ h']) (use pq in \<open>auto dest: in_set_butlastD in_set_tlD\<close>)
qed


text \<open>Splicing a linked run between two adjacent nodes of a ring.\<close>

lemma linked_splice:
  assumes "linked h (us @ vs)" "linked h cs" "us \<noteq> []" "vs \<noteq> []" "cs \<noteq> []"
    and d: "distinct (butlast us @ cs @ tl vs)" "last us \<notin> set (butlast us @ cs)"
      "hd vs \<notin> set (cs @ tl vs)" "last us \<notin> set (butlast vs)" "hd vs \<notin> set (tl us)"
      "set cs \<inter> set (us @ vs) = {}"
    and h': "nxt h' = (nxt h)(last us := hd cs, last cs := hd vs)"
      "prv h' = (prv h)(hd cs := last us, hd vs := last cs)"
  shows "linked h' (us @ cs @ vs)"
proof -
  have parts: "linked h us" "linked h vs"
    using assms(1,3,4) by (auto simp: linked_append)
  have c: "hd cs \<in> set cs" "last cs \<in> set cs" using assms(5) by auto
  have bt: "set (butlast us) \<subseteq> set us" "set (tl us) \<subseteq> set us" "set (butlast vs) \<subseteq> set vs"
    "set (tl vs) \<subseteq> set vs" "set (butlast cs) \<subseteq> set cs" "set (tl cs) \<subseteq> set cs"
    by (auto dest: in_set_butlastD in_set_tlD)
  have cd: "distinct cs" using d(1) by simp
  have ends: "last cs \<notin> set (butlast cs)" "hd cs \<notin> set (tl cs)"
    using last_notin_butlast [OF cd] hd_notin_tl [OF cd] assms(5) by auto
  have lu: "last us \<in> set us" and hv: "hd vs \<in> set vs" using assms(3,4) by auto
  have "linked h' us \<longleftrightarrow> linked h us"
    by (rule linked_frame) (use d c bt in \<open>auto simp: h'\<close>)
  moreover have "linked h' vs \<longleftrightarrow> linked h vs"
    by (rule linked_frame) (use d c bt in \<open>auto simp: h'\<close>)
  moreover have "linked h' cs \<longleftrightarrow> linked h cs"
    by (rule linked_frame) (use d c bt ends lu hv in \<open>auto simp: h'\<close>)
  moreover have "nxt h' (last us) = hd cs" "prv h' (hd cs) = last us"
    "nxt h' (last cs) = hd vs" "prv h' (hd vs) = last cs"
    using c lu hv d by (auto simp: h')
  ultimately show ?thesis
    using parts assms(2-5) by (simp add: linked_append)
qed

lemma ring_add_chain [refine]:
  assumes "ring h head xs" "linked h cs" "cs \<noteq> []" "distinct cs" "set cs \<inter> set (head # xs) = {}"
  shows "ring (list_add_chain (hd cs) (last cs) head h) head (cs @ xs)"
proof -
  let ?h = "list_add_chain (hd cs) (last cs) head h"
  have l: "linked h ([head] @ (xs @ [head]))" and d: "distinct (head # xs)"
    using assms(1) by (simp_all add: ring_def seg_linked)
  have n: "nxt h head = hd (xs @ [head])"
    using l by (cases xs) auto
  have c: "hd cs \<in> set cs" "last cs \<in> set cs" using assms(3) by auto
  have ne: "head \<noteq> last cs" "hd cs \<noteq> head" using c assms(5) by auto
  have "linked ?h ([head] @ cs @ (xs @ [head]))"
  proof (rule linked_splice [OF l assms(2) _ _ assms(3)])
    show "prv ?h = (prv h)(hd cs := last [head], hd (xs @ [head]) := last cs)"
      using n ne by (auto simp: list_add_chain_def Let_def)
    show "nxt ?h = (nxt h)(last [head] := hd cs, last cs := hd (xs @ [head]))"
      using n ne by (auto simp: list_add_chain_def Let_def)
  qed (use assms d in \<open>cases xs; auto\<close>)+
  then show ?thesis using assms d by (auto simp: ring_def seg_linked)
qed

lemma ring_add_chain_tail [refine]:
  assumes "ring h head xs" "linked h cs" "cs \<noteq> []" "distinct cs" "set cs \<inter> set (head # xs) = {}"
  shows "ring (list_add_chain_tail (hd cs) (last cs) head h) head (xs @ cs)"
proof -
  let ?h = "list_add_chain_tail (hd cs) (last cs) head h"
  have l: "linked h ((head # xs) @ [head])" and d: "distinct (head # xs)"
    using assms(1) by (simp_all add: ring_def seg_linked)
  have n: "prv h head = last (head # xs)"
    using l linked_append [of "head # xs" "[head]" h] by simp
  have c: "hd cs \<in> set cs" "last cs \<in> set cs" using assms(3) by auto
  have ne: "head \<noteq> last cs" "hd cs \<noteq> head" using c assms(5) by auto
  have "last (head # xs) \<in> set (head # xs)" by (rule last_in_set) simp
  then have lx: "last (head # xs) \<notin> set cs" "last cs \<noteq> last (head # xs)" using assms(5) c by auto
  have "linked ?h ((head # xs) @ cs @ [head])"
  proof (rule linked_splice [OF l assms(2) _ _ assms(3)])
    show "prv ?h = (prv h)(hd cs := last (head # xs), hd [head] := last cs)"
      using n ne by (auto simp: list_add_chain_tail_def Let_def)
    show "nxt ?h = (nxt h)(last (head # xs) := hd cs, last cs := hd [head])"
      using n ne lx by (auto simp: list_add_chain_tail_def Let_def)
    show "last (head # xs) \<notin> set (butlast (head # xs) @ cs)"
      using lx last_notin_butlast [of "head # xs"] d by auto
    show "distinct (butlast (head # xs) @ cs @ tl [head])"
      using d assms(4,5) by (auto simp: distinct_butlast dest: in_set_butlastD)
  qed (use assms d in auto)
  then show ?thesis using assms d by (auto simp: ring_def seg_linked)
qed


text \<open>No routine disturbs a ring that shares no node with the one it works on.\<close>

lemma ring_ends:
  assumes "ring h head xs"
  shows "nxt h head \<in> set (head # xs)" "prv h head \<in> set (head # xs)"
  using assms seg_first [of h head xs head] seg_last [of h head xs head]
  by (auto simp: ring_def split: list.splits if_splits)

lemma ring_neighbours:
  assumes "ring h head (xs @ x # ys)"
  shows "nxt h x \<in> set (head # ys)" "prv h x \<in> set (head # xs)"
  using assms seg_first [of h x ys head] seg_last [of h head xs x]
  by (auto simp: ring_def split: list.splits if_splits)

lemma ring_list_add_other:
  assumes "ring h head xs" "ring h m ys" "n \<notin> set (m # ys)" "set (head # xs) \<inter> set (m # ys) = {}"
  shows "ring (list_add n head h) m ys" "ring (list_add_tail n head h) m ys"
proof -
  have "nxt h head \<notin> set (m # ys)" "prv h head \<notin> set (m # ys)" "head \<notin> set (m # ys)"
    using assms(4) ring_ends [OF assms(1)] by auto
  then have "ring (list_add n head h) m ys \<longleftrightarrow> ring h m ys"
    "ring (list_add_tail n head h) m ys \<longleftrightarrow> ring h m ys"
    using assms(3)
    by (intro ring_frame; auto simp: list_add_def list_add_tail_def list_add_between_def)+
  with assms(2) show "ring (list_add n head h) m ys" "ring (list_add_tail n head h) m ys"
    by simp_all
qed

lemma ring_list_del_other:
  assumes "ring h head (xs @ x # ys)" "ring h m zs" "set (head # xs @ x # ys) \<inter> set (m # zs) = {}"
    "list_del x h = Some h'"
  shows "ring h' m zs"
proof -
  have "nxt h x \<notin> set (m # zs)" "prv h x \<notin> set (m # zs)" "x \<notin> set (m # zs)"
    using assms(3) ring_neighbours [OF assms(1)] by auto
  moreover have "h' = set_prev x x (set_next x x (list_del_between (prv h x) (nxt h x) h))"
    using assms(4) by (simp add: list_del_def split: if_splits)
  ultimately have "ring h' m zs \<longleftrightarrow> ring h m zs"
    by (intro ring_frame) (auto simp: list_del_between_def)
  with assms(2) show ?thesis by simp
qed

section \<open>The interface the kernel's queues rely on\<close>

locale ring_list =
  fixes is_ring :: "'h \<Rightarrow> 'p \<Rightarrow> 'p list \<Rightarrow> bool"
    and add :: "'p \<Rightarrow> 'p \<Rightarrow> 'h \<Rightarrow> 'h"
    and add_tail :: "'p \<Rightarrow> 'p \<Rightarrow> 'h \<Rightarrow> 'h"
    and del :: "'p \<Rightarrow> 'h \<Rightarrow> 'h option"
    and empty :: "'p \<Rightarrow> 'h \<Rightarrow> bool"
    and valid :: "'p \<Rightarrow> bool"
  assumes nodes_distinct: "is_ring h l xs \<Longrightarrow> distinct (l # xs)"
    and add_ring: "is_ring h l xs \<Longrightarrow> n \<notin> set (l # xs) \<Longrightarrow> is_ring (add n l h) l (n # xs)"
    and add_tail_ring:
      "is_ring h l xs \<Longrightarrow> n \<notin> set (l # xs) \<Longrightarrow> is_ring (add_tail n l h) l (xs @ [n])"
    and add_tail_other:
      "is_ring h l xs \<Longrightarrow> is_ring h m ys \<Longrightarrow> n \<notin> set (m # ys) \<Longrightarrow>
       set (l # xs) \<inter> set (m # ys) = {} \<Longrightarrow> is_ring (add_tail n l h) m ys"
    and del_ring:
      "is_ring h l (xs @ x # ys) \<Longrightarrow> valid x \<Longrightarrow>
       \<exists>h'. del x h = Some h' \<and> is_ring h' l (xs @ ys) \<and> is_ring h' x []"
    and del_other:
      "is_ring h l (xs @ x # ys) \<Longrightarrow> is_ring h m zs \<Longrightarrow>
       set (l # xs @ x # ys) \<inter> set (m # zs) = {} \<Longrightarrow> del x h = Some h' \<Longrightarrow> is_ring h' m zs"
    and empty_ring: "is_ring h l xs \<Longrightarrow> empty l h \<longleftrightarrow> xs = []"
begin

lemma enqueue_all:
  "is_ring h l xs \<Longrightarrow> distinct ns \<Longrightarrow> set ns \<inter> set (l # xs) = {} \<Longrightarrow>
   is_ring (fold (\<lambda>n. add_tail n l) ns h) l (xs @ ns)"
proof (induction ns arbitrary: h xs)
  case (Cons n ns)
  then have "is_ring (add_tail n l h) l (xs @ [n])"
    by (intro add_tail_ring) auto
  from Cons.IH [OF this] Cons.prems show ?case by auto
qed simp

lemma move_between:
  assumes "is_ring h l (xs @ x # ys)" "is_ring h m zs" "valid x"
    and "set (l # xs @ x # ys) \<inter> set (m # zs) = {}"
  shows "\<exists>h'. del x h = Some h' \<and> is_ring (add_tail x m h') m (zs @ [x]) \<and>
           is_ring (add_tail x m h') l (xs @ ys)"
proof -
  from del_ring [OF assms(1,3)] obtain h'
    where h': "del x h = Some h'" "is_ring h' l (xs @ ys)" by auto
  have m: "is_ring h' m zs" by (rule del_other [OF assms(1,2,4) h'(1)])
  have "x \<notin> set (l # xs @ ys)" using nodes_distinct [OF assms(1)] by auto
  with add_tail_other [OF m h'(2)] add_tail_ring [OF m, of x] h' assms(4) show ?thesis
    by auto
qed

lemma rotate_to_tail:
  assumes "is_ring h l (xs @ x # ys)" "valid x"
  shows "\<exists>h'. del x h = Some h' \<and> is_ring (add_tail x l h') l (xs @ ys @ [x])"
proof -
  from del_ring [OF assms] obtain h' where h': "del x h = Some h'" "is_ring h' l (xs @ ys)" by auto
  have "x \<notin> set (l # xs @ ys)" using nodes_distinct [OF assms(1)] by auto
  from add_tail_ring [OF h'(2) this] h'(1) show ?thesis by simp
qed

end

interpretation lh: ring_list ring list_add list_add_tail list_del list_empty check_addr
proof (unfold_locales, goal_cases)
  case (1 h l xs) then show ?case by (rule ring_distinct)
next
  case (2 h l xs n) then show ?case by (rule ring_list_add)
next
  case (3 h l xs n) then show ?case by (rule ring_list_add_tail)
next
  case (4 h l xs m ys n) then show ?case by (rule ring_list_add_other(2))
next
  case (5 h l xs x ys) then show ?case by (rule ring_list_del)
next
  case (6 h l xs x ys m zs h') then show ?case by (rule ring_list_del_other)
next
  case (7 h l xs) then show ?case by (rule list_empty_ring)
qed

section \<open>Properties\<close>

text \<open>
  C11. Moving a node between queues. When \<open>list_del\<close> takes a node out of a well-linked ring and
  \<open>list_add_tail\<close> puts it on another ring that shares no node with the first, the call returns,
  the first ring holds its other nodes in their order and the second ends with the moved node.
\<close>

theorem list_move_refines:
  assumes "ring h head (xs @ x # ys)" "ring h head2 zs" "check_addr x"
    and "set (head # xs @ x # ys) \<inter> set (head2 # zs) = {}"
  shows "\<exists>h'. list_del x h = Some h' \<and>
           ring (list_add_tail x head2 h') head2 (zs @ [x]) \<and>
           ring (list_add_tail x head2 h') head (xs @ ys)"
  using assms by (rule lh.move_between)

definition demo_heap :: lheap where
  "demo_heap = list_add_tail 0x30000010 0x30000000 (list_add_tail 0x30000008 0x30000000
     (INIT_LIST_HEAD 0x30000020 (INIT_LIST_HEAD 0x30000000 \<lparr>nxt = \<lambda>_. 0, prv = \<lambda>_. 0\<rparr>)))"

theorem list_move_refines_witness:
  "\<exists>h'. list_del 0x30000008 demo_heap = Some h' \<and>
     ring (list_add_tail 0x30000008 0x30000020 h') 0x30000020 ([] @ [0x30000008]) \<and>
     ring (list_add_tail 0x30000008 0x30000020 h') 0x30000000 ([] @ [0x30000010])"
  by (rule list_move_refines)
    (simp_all add: demo_heap_def ring_def list_add_tail_def list_add_between_def
      INIT_LIST_HEAD_def check_addr_def)

text \<open>
  C18. Splicing. Taking a run of nodes off a ring with \<open>list_remove_chain\<close> and putting it back
  at the head of the same ring with \<open>list_add_chain\<close> gives the ring with the run in front,
  every node once.
\<close>

theorem list_chain_splice:
  assumes "ring h head (xs @ cs @ ys)" "cs \<noteq> []"
  shows "ring (list_add_chain (hd cs) (last cs) head (list_remove_chain (hd cs) (last cs) h))
           head (cs @ xs @ ys)"
proof (rule ring_add_chain)
  show "ring (list_remove_chain (hd cs) (last cs) h) head (xs @ ys)"
    "linked (list_remove_chain (hd cs) (last cs) h) cs"
    using ring_remove_chain [OF assms] by simp_all
  show "distinct cs" "set cs \<inter> set (head # xs @ ys) = {}"
    using ring_distinct [OF assms(1)] by auto
qed (rule assms(2))

theorem list_chain_splice_witness:
  "ring (list_add_chain (hd [0x30000010]) (last [0x30000010]) 0x30000000
      (list_remove_chain (hd [0x30000010]) (last [0x30000010]) demo_heap))
     0x30000000 ([0x30000010] @ [0x30000008] @ [])"
  by (rule list_chain_splice)
    (simp_all add: demo_heap_def ring_def list_add_tail_def list_add_between_def INIT_LIST_HEAD_def)

end
