(* ===== verification/Lib_Mem.thy ===== *)
theory Lib_Mem
  imports Prelude
begin

text \<open>
  The memory and string routines of \<^verbatim>\<open>src/lib/lib.c\<close> on a flat byte memory. Counted loops are
  structural recursions on the count; the loops that only stop at a terminator are
  \<open>partial_function (option)\<close>, so that a missing terminator is the value \<open>None\<close>. Plain
  \<^verbatim>\<open>char\<close> is unsigned on the ARM target.
\<close>

section \<open>Routines\<close>

primrec fill_loop :: "nat \<Rightarrow> addr \<Rightarrow> byte \<Rightarrow> memory \<Rightarrow> memory" where
  "fill_loop 0 tmp num m = m"
| "fill_loop (Suc n) tmp num m = fill_loop n (tmp + 1) num (m(tmp := num))"

definition memset :: "addr \<Rightarrow> byte \<Rightarrow> u32 \<Rightarrow> memory \<Rightarrow> memory" where
  "memset src num len m = (if src = NULL \<or> len = 0 then m else fill_loop (unat len) src num m)"

primrec copy_loop :: "nat \<Rightarrow> addr \<Rightarrow> addr \<Rightarrow> memory \<Rightarrow> memory" where
  "copy_loop 0 d s m = m"
| "copy_loop (Suc n) d s m = copy_loop n (d + 1) (s + 1) (m(d := m s))"

definition memcpy :: "addr \<Rightarrow> addr \<Rightarrow> u32 \<Rightarrow> memory \<Rightarrow> addr \<times> memory" where
  "memcpy dest src len m =
     (if dest = NULL \<or> src = NULL \<or> len = 0 then (dest, m)
      else (dest, copy_loop (unat len) dest src m))"

fun strncmp_loop :: "nat \<Rightarrow> memory \<Rightarrow> addr \<Rightarrow> addr \<Rightarrow> int" where
  "strncmp_loop 0 m s1 s2 = 0"
| "strncmp_loop (Suc n) m s1 s2 =
     (if m s1 \<noteq> 0 \<and> m s2 \<noteq> 0 \<and> m s1 = m s2
      then (if n = 0 then 0 else strncmp_loop n m (s1 + 1) (s2 + 1))
      else uint (m s1) - uint (m s2))"

definition strncmp :: "memory \<Rightarrow> addr \<Rightarrow> addr \<Rightarrow> u32 \<Rightarrow> int" where
  "strncmp m s1 s2 n =
     (if s1 = NULL \<or> s2 = NULL \<or> n = 0 then 0 else strncmp_loop (unat n) m s1 s2)"

partial_function (option) strcmp_loop :: "memory \<Rightarrow> addr \<Rightarrow> addr \<Rightarrow> int option" where
  "strcmp_loop m s1 s2 =
     (if m s1 \<noteq> 0 \<and> m s2 \<noteq> 0 \<and> m s1 = m s2
      then strcmp_loop m (s1 + 1) (s2 + 1)
      else Some (uint (m s1) - uint (m s2)))"

definition strcmp :: "memory \<Rightarrow> addr \<Rightarrow> addr \<Rightarrow> int option" where
  "strcmp m s1 s2 = (if s1 = NULL \<or> s2 = NULL then Some 0 else strcmp_loop m s1 s2)"

partial_function (option) strcpy_loop :: "memory \<Rightarrow> addr \<Rightarrow> addr \<Rightarrow> memory option" where
  "strcpy_loop m dst src =
     (if m src \<noteq> 0 then strcpy_loop (m(dst := m src)) (dst + 1) (src + 1)
      else Some (m(dst := m src)))"

definition strcpy :: "memory \<Rightarrow> addr \<Rightarrow> addr \<Rightarrow> (addr \<times> memory) option" where
  "strcpy m dst src = map_option (Pair dst) (strcpy_loop m dst src)"

text \<open>The loop of \<open>strncpy\<close> returns the memory and the final value of \<open>temp\<close>, which is
  one past the last byte written.\<close>

primrec strncpy_loop :: "nat \<Rightarrow> memory \<Rightarrow> addr \<Rightarrow> addr \<Rightarrow> memory \<times> addr" where
  "strncpy_loop 0 m temp src = (m, temp)"
| "strncpy_loop (Suc n) m temp src =
     (let m' = m(temp := m src)
      in if m src \<noteq> 0 then strncpy_loop n m' (temp + 1) (src + 1) else (m', temp + 1))"

definition strncpy :: "memory \<Rightarrow> addr \<Rightarrow> addr \<Rightarrow> int \<Rightarrow> addr \<times> memory" where
  "strncpy m dest src len =
     (case strncpy_loop (nat len) m dest src of
        (m', temp) \<Rightarrow> (dest, if m' temp \<noteq> 0 then m'(temp := 0) else m'))"

partial_function (option) strlen_loop :: "memory \<Rightarrow> addr \<Rightarrow> addr option" where
  "strlen_loop m eos = (if m eos \<noteq> 0 then strlen_loop m (eos + 1) else Some (eos + 1))"

definition strlen :: "memory \<Rightarrow> addr \<Rightarrow> u32 option" where
  "strlen m str = map_option (\<lambda>eos. eos - str - 1) (strlen_loop m str)"

section \<open>Ranges of memory\<close>

definition bytes_at :: "memory \<Rightarrow> addr \<Rightarrow> nat \<Rightarrow> byte list" where
  "bytes_at m p n = map (\<lambda>i. m (p + of_nat i)) [0..<n]"

definition in_range :: "addr \<Rightarrow> addr \<Rightarrow> nat \<Rightarrow> bool" where
  "in_range a p n \<longleftrightarrow> unat (a - p) < n"

fun cstr :: "memory \<Rightarrow> addr \<Rightarrow> byte list \<Rightarrow> bool" where
  "cstr m p [] = (m p = 0)"
| "cstr m p (c # cs) = (m p = c \<and> c \<noteq> 0 \<and> cstr m (p + 1) cs)"

lemma unat_diff_succ:
  assumes "a \<noteq> (p :: 32 word)"
  shows "unat (a - p) = Suc (unat (a - (p + 1)))"
proof -
  have "a - p \<noteq> 0" using assms by simp
  then have "unat (a - p - 1) = unat (a - p) - 1" "unat (a - p) \<noteq> 0"
    by (simp_all add: unat_minus_one unat_eq_zero)
  then show ?thesis by (simp add: diff_diff_eq add.commute)
qed

lemma in_range_0 [simp]: "\<not> in_range a p 0"
  by (simp add: in_range_def)

lemma in_range_Suc: "in_range a p (Suc n) \<longleftrightarrow> a = p \<or> in_range a (p + 1) n"
proof (cases "a = p")
  case False
  from unat_diff_succ [OF this] show ?thesis using False by (simp add: in_range_def)
qed (simp add: in_range_def)

lemma in_range_self_succ:
  assumes "n < 2 ^ 32"
  shows "\<not> in_range p (p + 1) n"
proof -
  have "p - (p + 1) = - 1" by simp
  then have "unat (p - (p + 1)) = 2 ^ 32 - 1" by (simp add: unsigned_minus_1_eq_mask mask_eq_exp_minus_1)
  with assms show ?thesis by (simp add: in_range_def)
qed

lemma in_range_offset: "i < n \<Longrightarrow> n \<le> 2 ^ 32 \<Longrightarrow> in_range (p + of_nat i) p n"
  by (simp add: in_range_def unat_of_nat)


section \<open>Counted loops\<close>

lemma fill_loop_apply:
  "fill_loop n p c m a = (if in_range a p n then c else m a)"
proof (induction n arbitrary: p m)
  case (Suc n)
  then show ?case by (auto simp: in_range_Suc)
qed simp

lemma memset_apply:
  "memset p c len m a = (if p \<noteq> NULL \<and> in_range a p (unat len) then c else m a)"
  by (auto simp: memset_def fill_loop_apply)

text \<open>The source byte of a copy is still the original one when no byte of the source range lies in
  the part of the destination written before it: either the ranges are disjoint or the destination
  starts below the source.\<close>

lemma copy_loop_apply:
  assumes "n < 2 ^ 32" "\<And>i. i < n \<Longrightarrow> \<not> in_range (s + of_nat i) d n"
  shows "copy_loop n d s m a = (if in_range a d n then m (s + (a - d)) else m a)"
  using assms
proof (induction n arbitrary: d s m)
  case (Suc n)
  have tail: "\<not> in_range (s + 1 + of_nat i) (d + 1) n" "s + 1 + of_nat i \<noteq> d" if "i < n" for i
    using Suc.prems(2) [of "Suc i"] that by (auto simp: in_range_Suc algebra_simps)
  have "copy_loop n (d + 1) (s + 1) (m(d := m s)) a =
      (if in_range a (d + 1) n then (m(d := m s)) (s + 1 + (a - (d + 1))) else (m(d := m s)) a)"
    by (rule Suc.IH) (use Suc.prems(1) tail in auto)
  moreover have "s + (a - d) \<noteq> d" if "in_range a (d + 1) n"
  proof -
    define i where "i = unat (a - (d + 1))"
    have i: "i < n" "a = d + 1 + of_nat i" using that by (simp_all add: i_def in_range_def)
    then have "s + (a - d) = s + 1 + of_nat i" by simp
    with tail(2) [OF i(1)] show ?thesis by (simp only: not_False_eq_True)
  qed
  ultimately show ?case
    using in_range_self_succ [of n d] Suc.prems(1) by (auto simp: in_range_Suc algebra_simps)
qed simp

lemma bytes_at_cong:
  "(\<And>i. i < n \<Longrightarrow> m (p + of_nat i) = m' (p + of_nat i)) \<Longrightarrow> bytes_at m p n = bytes_at m' p n"
  by (simp add: bytes_at_def)

lemma memcpy_bytes:
  assumes "d \<noteq> NULL" "s \<noteq> NULL" "\<And>i. i < unat len \<Longrightarrow> \<not> in_range (s + of_nat i) d (unat len)"
  shows "bytes_at (snd (memcpy d s len m)) d (unat len) = bytes_at m s (unat len)"
    and "\<not> in_range a d (unat len) \<Longrightarrow> snd (memcpy d s len m) a = m a"
proof -
  have len: "unat len < 2 ^ 32" using unsigned_less [of len] by simp
  note copy = copy_loop_apply [OF len assms(3)]
  show "\<not> in_range a d (unat len) \<Longrightarrow> snd (memcpy d s len m) a = m a"
    by (simp add: memcpy_def copy)
  show "bytes_at (snd (memcpy d s len m)) d (unat len) = bytes_at m s (unat len)"
    using len assms(1,2) by (auto simp: bytes_at_def memcpy_def copy in_range_offset less_imp_le)
qed

section \<open>Terminated strings\<close>

lemma cstr_inj: "cstr m p s \<Longrightarrow> cstr m p t \<Longrightarrow> s = t"
proof (induction s arbitrary: p t)
  case Nil
  then show ?case by (cases t) auto
next
  case (Cons c s)
  then show ?case by (cases t) auto
qed

lemma cstr_nonzero: "cstr m p s \<Longrightarrow> 0 \<notin> set s"
  by (induction s arbitrary: p) auto

lemma strlen_loop_cstr: "cstr m p s \<Longrightarrow> strlen_loop m p = Some (p + of_nat (length s) + 1)"
proof (induction s arbitrary: p)
  case Nil
  then show ?case by (subst strlen_loop.simps) simp
next
  case (Cons c s)
  then show ?case by (subst strlen_loop.simps) (simp add: algebra_simps)
qed

lemma strlen_cstr: "cstr m p s \<Longrightarrow> strlen m p = Some (of_nat (length s))"
  by (simp add: strlen_def strlen_loop_cstr)

text \<open>The sign of a comparison, on the strings themselves.\<close>

fun cmp_bytes :: "byte list \<Rightarrow> byte list \<Rightarrow> int" where
  "cmp_bytes [] [] = 0"
| "cmp_bytes [] (y # ys) = - uint y"
| "cmp_bytes (x # xs) [] = uint x"
| "cmp_bytes (x # xs) (y # ys) = (if x = y then cmp_bytes xs ys else uint x - uint y)"

lemma strcmp_loop_cstr:
  "cstr m p s \<Longrightarrow> cstr m q t \<Longrightarrow> strcmp_loop m p q = Some (cmp_bytes s t)"
proof (induction s t arbitrary: p q rule: cmp_bytes.induct)
  case (4 x xs y ys)
  then show ?case by (subst strcmp_loop.simps) auto
qed (subst strcmp_loop.simps, auto)+

lemma strncmp_loop_cstr:
  "cstr m p s \<Longrightarrow> cstr m q t \<Longrightarrow> strncmp_loop n m p q = cmp_bytes (take n s) (take n t)"
proof (induction n arbitrary: p q s t)
  case (Suc n)
  then show ?case by (cases s; cases t; cases n; auto)
qed simp

lemma cmp_bytes_eq_0:
  "0 \<notin> set s \<Longrightarrow> 0 \<notin> set t \<Longrightarrow> cmp_bytes s t = 0 \<longleftrightarrow> s = t"
  by (induction s t rule: cmp_bytes.induct) (auto simp: word_uint_eq_iff)

lemma cmp_bytes_antisym: "cmp_bytes s t = - cmp_bytes t s"
  by (induction s t rule: cmp_bytes.induct) auto


text \<open>Copying a terminated string is the byte copy of the string and its terminator.\<close>

definition no_overlap :: "addr \<Rightarrow> addr \<Rightarrow> nat \<Rightarrow> bool" where
  "no_overlap s d n \<longleftrightarrow> (\<forall>i < n. \<not> in_range (s + of_nat i) d n)"

lemma no_overlapI: "(\<And>i. i < n \<Longrightarrow> \<not> in_range (s + of_nat i) d n) \<Longrightarrow> no_overlap s d n"
  by (simp add: no_overlap_def)

lemma no_overlap_step:
  assumes "no_overlap s d (Suc n)"
  shows "no_overlap (s + 1) (d + 1) n" and "i < n \<Longrightarrow> s + 1 + of_nat i \<noteq> d"
proof -
  have tail: "\<not> in_range (s + 1 + of_nat i) (d + 1) n \<and> s + 1 + of_nat i \<noteq> d" if "i < n" for i
    using assms that unfolding no_overlap_def
    by (auto simp: in_range_Suc algebra_simps dest!: spec [of _ "Suc i"])
  then show "no_overlap (s + 1) (d + 1) n" by (auto intro: no_overlapI)
  show "i < n \<Longrightarrow> s + 1 + of_nat i \<noteq> d" using tail by simp
qed

lemma cstr_frame:
  "(\<And>i. i \<le> length s \<Longrightarrow> m' (p + of_nat i) = m (p + of_nat i)) \<Longrightarrow> cstr m' p s \<longleftrightarrow> cstr m p s"
proof (induction s arbitrary: p)
  case Nil
  from Nil [of 0] show ?case by simp
next
  case (Cons c s)
  have "cstr m' (p + 1) s \<longleftrightarrow> cstr m (p + 1) s"
    by (rule Cons.IH) (use Cons.prems [of "Suc _"] in \<open>simp add: algebra_simps\<close>)
  with Cons.prems [of 0] show ?case by simp
qed

lemma strcpy_loop_copy:
  "cstr m src s \<Longrightarrow> no_overlap src dst (Suc (length s)) \<Longrightarrow>
   strcpy_loop m dst src = Some (copy_loop (Suc (length s)) dst src m)"
proof (induction s arbitrary: m src dst)
  case Nil
  then show ?case by (subst strcpy_loop.simps) simp
next
  case (Cons c s)
  note step = no_overlap_step [OF Cons.prems(2)]
  let ?m = "m(dst := m src)"
  have "cstr ?m (src + 1) s \<longleftrightarrow> cstr m (src + 1) s"
    by (rule cstr_frame) (use step(2) in auto)
  with Cons.prems(1) have "cstr ?m (src + 1) s" by simp
  moreover have "no_overlap (src + 1) (dst + 1) (Suc (length s))" using step(1) by simp
  ultimately have "strcpy_loop ?m (dst + 1) (src + 1) = Some (copy_loop (Suc (length s)) (dst + 1) (src + 1) ?m)"
    by (rule Cons.IH)
  then show ?case using Cons.prems(1) by (subst strcpy_loop.simps) simp
qed

lemma strncpy_loop_whole:
  "cstr m src s \<Longrightarrow> no_overlap src dst (Suc (length s)) \<Longrightarrow> length s < n \<Longrightarrow>
   strncpy_loop n m dst src = (copy_loop (Suc (length s)) dst src m, dst + of_nat (Suc (length s)))"
proof (induction s arbitrary: m src dst n)
  case Nil
  then show ?case by (cases n) (auto simp: fun_upd_def)
next
  case (Cons c s)
  then obtain k where n: "n = Suc k" "length s < k" by (cases n) auto
  note step = no_overlap_step [OF Cons.prems(2)]
  let ?m = "m(dst := m src)"
  have "cstr ?m (src + 1) s \<longleftrightarrow> cstr m (src + 1) s"
    by (rule cstr_frame) (use step(2) in auto)
  with Cons.prems(1) have "cstr ?m (src + 1) s" by simp
  moreover have "no_overlap (src + 1) (dst + 1) (Suc (length s))" using step(1) by simp
  ultimately have "strncpy_loop k ?m (dst + 1) (src + 1) =
      (copy_loop (Suc (length s)) (dst + 1) (src + 1) ?m, dst + 1 + of_nat (Suc (length s)))"
    by (rule Cons.IH) (rule n(2))
  then show ?case using Cons.prems(1) n(1) by (simp add: algebra_simps)
qed

lemma strncpy_loop_cut:
  "(\<And>i. i < n \<Longrightarrow> m (src + of_nat i) \<noteq> 0) \<Longrightarrow> no_overlap src dst n \<Longrightarrow>
   strncpy_loop n m dst src = (copy_loop n dst src m, dst + of_nat n)"
proof (induction n arbitrary: m src dst)
  case (Suc n)
  note step = no_overlap_step [OF Suc.prems(2)]
  let ?m = "m(dst := m src)"
  have nz: "m src \<noteq> 0" "\<And>i. i < n \<Longrightarrow> m (src + 1 + of_nat i) \<noteq> 0"
    using Suc.prems(1) [of 0] Suc.prems(1) [of "Suc _"] by (auto simp: algebra_simps)
  have "strncpy_loop n ?m (dst + 1) (src + 1) = (copy_loop n (dst + 1) (src + 1) ?m, dst + 1 + of_nat n)"
    by (rule Suc.IH) (use step nz in auto)
  then show ?case using nz(1) by (simp add: algebra_simps)
qed simp

lemma cstr_iff: "cstr m p s \<longleftrightarrow> (\<forall>i < length s. m (p + of_nat i) = s ! i \<and> s ! i \<noteq> 0) \<and> m (p + of_nat (length s)) = 0"
proof (induction s arbitrary: p)
  case (Cons c s)
  show ?case by (auto simp: Cons.IH All_less_Suc2 algebra_simps)
qed simp

lemma cstr_nth: "cstr m p s \<Longrightarrow> i < length s \<Longrightarrow> m (p + of_nat i) = s ! i \<and> s ! i \<noteq> 0"
  by (simp add: cstr_iff)

lemma copy_loop_at:
  assumes "n < 2 ^ 32" "no_overlap s d n" "i < n"
  shows "copy_loop n d s m (d + of_nat i) = m (s + of_nat i)"
  using assms copy_loop_apply [of n s d m "d + of_nat i"] by (simp add: no_overlap_def in_range_offset)

lemma copy_loop_other:
  assumes "n < 2 ^ 32" "no_overlap s d n" "\<not> in_range a d n"
  shows "copy_loop n d s m a = m a"
  using assms copy_loop_apply [of n s d m a] by (simp add: no_overlap_def)

lemma strcpy_cstr:
  assumes "cstr m src s" "no_overlap src dst (Suc (length s))" "Suc (length s) < 2 ^ 32"
  shows "\<exists>m'. strcpy m dst src = Some (dst, m') \<and> cstr m' dst s \<and>
     (\<forall>a. \<not> in_range a dst (Suc (length s)) \<longrightarrow> m' a = m a)"
proof -
  let ?m = "copy_loop (Suc (length s)) dst src m"
  have "cstr ?m dst s"
    using copy_loop_at [OF assms(3,2)] assms(1) unfolding cstr_iff by (simp del: copy_loop.simps)
  then show ?thesis
    using strcpy_loop_copy [OF assms(1,2)] copy_loop_other [OF assms(3,2)]
    by (auto simp: strcpy_def simp del: copy_loop.simps)
qed


lemma cstr_after_copy:
  assumes "cstr m src s" "no_overlap src dst (Suc (length s))"
    and "\<And>a. \<not> in_range a dst (Suc (length s)) \<Longrightarrow> m' a = m a"
  shows "cstr m' src s"
proof -
  have "cstr m' src s \<longleftrightarrow> cstr m src s"
    by (rule cstr_frame) (use assms(2,3) in \<open>auto simp: no_overlap_def\<close>)
  with assms(1) show ?thesis by simp
qed

lemma cmp_bytes_refl [simp]: "cmp_bytes s s = 0"
  by (induction s) auto

section \<open>Properties\<close>

text \<open>
  C19. Copying a string. On a terminated source that does not overlap the destination,
  \<open>strcpy\<close> returns, its result has the length of the source for \<open>strlen\<close>, compares equal to the
  source under \<open>strcmp\<close>, and no byte outside the copied range changes.
\<close>

theorem strcpy_round_trip:
  assumes "cstr m src s" "no_overlap src dst (Suc (length s))" "Suc (length s) < 2 ^ 32"
    "src \<noteq> NULL" "dst \<noteq> NULL"
  shows "\<exists>m'. strcpy m dst src = Some (dst, m') \<and>
      strlen m' dst = Some (of_nat (length s)) \<and> strcmp m' dst src = Some 0 \<and>
      (\<forall>a. in_range a dst (Suc (length s)) \<or> m' a = m a)"
proof -
  from strcpy_cstr [OF assms(1-3)] obtain m' where
    m': "strcpy m dst src = Some (dst, m')" "cstr m' dst s"
      "\<And>a. \<not> in_range a dst (Suc (length s)) \<Longrightarrow> m' a = m a" by auto
  have "cstr m' src s" by (rule cstr_after_copy [OF assms(1,2) m'(3)])
  with m' show ?thesis
    by (auto simp: strlen_cstr strcmp_def strcmp_loop_cstr assms(4,5))
qed

definition demo_mem :: memory where
  "demo_mem = (\<lambda>_. 0)(100 := 97, 101 := 98, 200 := 97, 201 := 98, 202 := 99)"

theorem strcpy_round_trip_witness:
  "\<exists>m'. strcpy demo_mem 300 100 = Some (300, m') \<and>
      strlen m' 300 = Some (of_nat (length [97 :: byte, 98])) \<and> strcmp m' 300 100 = Some 0 \<and>
      (\<forall>a. in_range a 300 (Suc (length [97 :: byte, 98])) \<or> m' a = demo_mem a)"
  by (rule strcpy_round_trip)
    (simp_all add: demo_mem_def no_overlap_def in_range_def All_less_Suc)

text \<open>
  C20. \<open>strncmp\<close> decides equality of the first \<open>n\<close> bytes, and \<open>strcmp\<close> equality of whole
  strings; both are antisymmetric in sign because they compute the difference of the first
  differing bytes.
\<close>

theorem strncmp_decides_prefix:
  assumes "cstr m p s" "cstr m q t" "p \<noteq> NULL" "q \<noteq> NULL"
  shows "(strncmp m p q n = 0 \<longleftrightarrow> take (unat n) s = take (unat n) t) \<and>
    (strcmp m p q = Some 0 \<longleftrightarrow> s = t) \<and> strncmp m p q n = - strncmp m q p n"
proof (intro conjI)
  have nz: "0 \<notin> set (take k s)" "0 \<notin> set (take k t)" for k
    using cstr_nonzero [OF assms(1)] cstr_nonzero [OF assms(2)] in_set_takeD by fast+
  have n: "strncmp m p q n = cmp_bytes (take (unat n) s) (take (unat n) t)"
    "strncmp m q p n = cmp_bytes (take (unat n) t) (take (unat n) s)"
    using assms by (simp_all add: strncmp_def strncmp_loop_cstr)
  show "strncmp m p q n = 0 \<longleftrightarrow> take (unat n) s = take (unat n) t"
    by (simp add: n cmp_bytes_eq_0 nz)
  show "strcmp m p q = Some 0 \<longleftrightarrow> s = t"
    using assms cstr_nonzero [OF assms(1)] cstr_nonzero [OF assms(2)]
    by (simp add: strcmp_def strcmp_loop_cstr cmp_bytes_eq_0)
  show "strncmp m p q n = - strncmp m q p n"
    unfolding n by (rule cmp_bytes_antisym)
qed

theorem strncmp_decides_prefix_witness:
  "(strncmp demo_mem 100 200 2 = 0 \<longleftrightarrow>
      take (unat (2 :: u32)) [97, 98 :: byte] = take (unat (2 :: u32)) [97, 98, 99]) \<and>
   (strcmp demo_mem 100 200 = Some 0 \<longleftrightarrow> [97, 98 :: byte] = [97, 98, 99]) \<and>
   strncmp demo_mem 100 200 2 = - strncmp demo_mem 200 100 2"
  by (rule strncmp_decides_prefix) (simp_all add: demo_mem_def)

text \<open>
  C21. \<open>strncpy\<close> always terminates its result: with a source of at least \<open>len\<close> bytes the
  destination holds exactly the first \<open>len\<close> of them, and the terminator is stored at offset
  \<open>len\<close>, one byte past the \<open>len\<close> bytes the caller named.
\<close>

theorem strncpy_terminates_past_len:
  assumes "cstr m src s" "0 \<le> len" "nat len \<le> length s" "no_overlap src dst (nat len)"
    "nat len < 2 ^ 32 - 1"
  shows "cstr (snd (strncpy m dst src len)) dst (take (nat len) s) \<and>
    snd (strncpy m dst src len) (dst + of_nat (nat len)) = 0"
proof -
  let ?m = "snd (strncpy m dst src len)"
  define n where "n = nat len"
  note assms = assms [folded n_def]
  have "strncpy_loop n m dst src = (copy_loop n dst src m, dst + of_nat n)"
    by (rule strncpy_loop_cut) (use assms cstr_nth [OF assms(1)] in auto)
  then have loop: "?m = (let m' = copy_loop n dst src m in if m' (dst + of_nat n) \<noteq> 0 then m'(dst + of_nat n := 0) else m')"
    by (simp add: strncpy_def Let_def n_def)
  have z: "?m (dst + of_nat n) = 0" by (simp add: loop Let_def)
  have "?m (dst + of_nat i) = s ! i" if "i < n" for i
  proof -
    have "(of_nat i :: 32 word) \<noteq> of_nat n"
      using that assms(5) by (simp add: word_unat_eq_iff unat_of_nat take_bit_nat_eq_self)
    then show ?thesis
      using copy_loop_at [OF _ assms(4) that, of m] cstr_nth [OF assms(1), of i] that assms(3,5)
      by (auto simp: loop Let_def)
  qed
  then have "cstr ?m dst (take n s)"
    using z assms(3) cstr_nth [OF assms(1)] by (simp add: cstr_iff)
  with z show ?thesis by (simp only: n_def)
qed

theorem strncpy_terminates_past_len_witness:
  "cstr (snd (strncpy demo_mem 300 200 1)) 300 (take (nat 1) [97, 98, 99]) \<and>
   snd (strncpy demo_mem 300 200 1) (300 + of_nat (nat 1)) = 0"
  by (rule strncpy_terminates_past_len)
    (simp_all add: demo_mem_def no_overlap_def in_range_def)

end
