(* ===== verification/Printk.thy ===== *)
theory Printk
  imports Prelude "HOL-Library.Signed_Division"
begin

text \<open>
  The formatter of \<^verbatim>\<open>src/lib/printk.c\<close>. The format is the byte string before its terminator and
  the argument list is explicit; a read past the terminator, an argument of the wrong kind or a
  table read out of bounds is the value \<open>None\<close>. Output goes to the byte memory at
  \<open>buf + offset\<close>, as in the source.
\<close>

section \<open>Numbers to text\<close>

definition hexstr :: "byte list" where
  "hexstr = [48, 49, 50, 51, 52, 53, 54, 55, 56, 57, 97, 98, 99, 100, 101, 102]"

lemma unat_drop_4: "unat (drop_bit 4 (w :: u32)) = unat w div 16"
  by (simp add: drop_bit_eq_div unat_div)

lemma unat_low_4: "unat ((w :: u32) AND 0xf) = unat w mod 16"
proof -
  have "w AND 0xf = take_bit 4 w" by (simp add: take_bit_eq_mask mask_eq_exp_minus_1)
  then show ?thesis by (simp add: take_bit_eq_mod unat_mod)
qed

lemma drop_bit_4_less: "drop_bit 4 w \<noteq> 0 \<Longrightarrow> unat (drop_bit 4 w) < unat (w :: u32)"
  by (metis unat_drop_4 unat_eq_zero div_less_dividend div_0 gr0I one_less_numeral_iff semiring_norm(76))

text \<open>The first loop of \<open>hex2string\<close>: the contents of \<open>arr\<close>, least significant digit first.\<close>

function hex_digits :: "u32 \<Rightarrow> byte list" where
  "hex_digits hex =
     hexstr ! unat (hex AND 0xf) #
       (let hex' = drop_bit 4 hex in if hex' \<noteq> 0 then hex_digits hex' else [])"
  by auto
termination by (relation "measure unat") (auto simp: drop_bit_4_less)

declare hex_digits.simps [simp del]

primrec put_bytes :: "byte list \<Rightarrow> addr \<Rightarrow> memory \<Rightarrow> memory" where
  "put_bytes [] buf m = m"
| "put_bytes (c # cs) buf m = put_bytes cs (buf + 1) (m(buf := c))"

definition hex2string :: "u32 \<Rightarrow> addr \<Rightarrow> memory \<Rightarrow> nat \<times> memory" where
  "hex2string hex buf m =
     (let arr = hex_digits hex in (length arr, put_bytes (rev arr) buf m))"

text \<open>
  The digit loop of \<open>int2string\<close>. The remainder of a negative number is not positive in C, and a
  negative remainder indexes \<open>hexstr\<close> below its start.
\<close>

function dec_digits :: "int \<Rightarrow> byte list option" where
  "dec_digits num =
     (let tmp = num smod 10; num' = num sdiv 10
      in if tmp < 0 then None
         else if num' \<noteq> 0 then map_option (Cons (hexstr ! nat tmp)) (dec_digits num')
         else Some [hexstr ! nat tmp])"
  by auto
termination
proof (relation "measure (nat \<circ> abs)", simp, goal_cases)
  case (1 num tmp num')
  have "\<bar>num sdiv 10\<bar> < \<bar>num\<bar>" if "num \<noteq> 0"
    using that by (auto simp: signed_divide_int_def abs_mult sgn_if)
  moreover have "num \<noteq> 0" using 1 by (auto simp: signed_divide_int_def)
  ultimately show ?case using 1 by auto
qed

declare dec_digits.simps [simp del]

definition int2string :: "int \<Rightarrow> addr \<Rightarrow> memory \<Rightarrow> (nat \<times> memory) option" where
  "int2string num buf m =
     (let sign = num < 0;
          num' = (if sign then sint (of_int (0 - num) :: u32) else num)
      in map_option
           (\<lambda>ds. let arr = (if sign then ds @ [45] else ds)
                 in (length arr, put_bytes (rev arr) buf m))
           (dec_digits num'))"

definition flt2string :: "addr \<Rightarrow> memory \<Rightarrow> nat \<times> memory" where
  "flt2string buf m = (0, m)"

section \<open>The format loop\<close>

datatype varg = VInt u32 | VStr "byte list" | VFlt

text \<open>\<open>vsprintk\<close> is the \<open>while\<close> loop and \<open>directive\<close> the code from the label
  \<open>try_again\<close> on, entered with \<open>pfmt\<close> on the byte before its argument.\<close>

fun vsprintk :: "byte list \<Rightarrow> varg list \<Rightarrow> addr \<Rightarrow> nat \<Rightarrow> memory \<Rightarrow> (nat \<times> memory) option"
  and directive :: "byte list \<Rightarrow> varg list \<Rightarrow> addr \<Rightarrow> nat \<Rightarrow> memory \<Rightarrow> (nat \<times> memory) option"
where
  "vsprintk [] vp buf off m = Some (off, m)"
| "vsprintk (c # pfmt) vp buf off m =
     (if c = 37 then directive pfmt vp buf off m
      else vsprintk pfmt vp buf (Suc off) (m(buf + of_nat off := c)))"
| "directive [] vp buf off m = None"
| "directive (d # pfmt) vp buf off m =
     (if d = 99 then
        (case vp of VInt w # vp' \<Rightarrow> vsprintk pfmt vp' buf (Suc off) (m(buf + of_nat off := ucast w))
         | _ \<Rightarrow> None)
      else if d = 100 \<or> d = 105 then
        (case vp of VInt w # vp' \<Rightarrow>
           (case int2string (sint w) (buf + of_nat off) m of
              Some (n, m') \<Rightarrow> vsprintk pfmt vp' buf (off + n) m' | None \<Rightarrow> None)
         | _ \<Rightarrow> None)
      else if d = 102 then
        (case vp of VFlt # vp' \<Rightarrow>
           (case flt2string (buf + of_nat off) m of (n, m') \<Rightarrow> vsprintk pfmt vp' buf (off + n) m')
         | _ \<Rightarrow> None)
      else if d = 115 then
        (case vp of VStr s # vp' \<Rightarrow>
           vsprintk pfmt vp' buf (off + length s) (put_bytes s (buf + of_nat off) m)
         | _ \<Rightarrow> None)
      else if d = 120 \<or> d = 88 \<or> d = 112 then
        (case vp of VInt w # vp' \<Rightarrow>
           (case hex2string w (buf + of_nat off) m of (n, m') \<Rightarrow> vsprintk pfmt vp' buf (off + n) m')
         | _ \<Rightarrow> None)
      else if d = 108 then directive pfmt vp buf (off + 1) m
      else if d = 35 then
        directive pfmt vp buf (off + 2)
          (m(buf + of_nat (off + 1) := 48, buf + of_nat (off + 2) := 120))
      else if d = 37 then vsprintk pfmt vp buf (Suc off) (m(buf + of_nat off := 37))
      else vsprintk pfmt vp buf off m)"

definition sprintk :: "addr \<Rightarrow> byte list \<Rightarrow> varg list \<Rightarrow> memory \<Rightarrow> (nat \<times> memory) option" where
  "sprintk buf fmt vp m = vsprintk fmt vp buf 0 m"

section \<open>What the numbers print as\<close>

definition digit_of :: "byte \<Rightarrow> int" where
  "digit_of c = (if c < 58 then uint c - 48 else uint c - 87)"

lemma digit_of_hexstr: "i < 16 \<Longrightarrow> digit_of (hexstr ! i) = int i"
  by (auto simp: hexstr_def digit_of_def nth_Cons' elim!: less_SucE simp flip: numeral_eq_Suc)

lemma hexstr_decimal: "i < 10 \<Longrightarrow> hexstr ! i \<in> set (take 10 hexstr)"
proof -
  have "length hexstr = 16" by (simp add: hexstr_def)
  then show "i < 10 \<Longrightarrow> hexstr ! i \<in> set (take 10 hexstr)"
    using nth_mem [of i "take 10 hexstr"] by simp
qed

fun value_of :: "int \<Rightarrow> byte list \<Rightarrow> int" where
  "value_of b [] = 0"
| "value_of b (d # ds) = digit_of d + b * value_of b ds"


lemma hex_digits_value: "value_of 16 (hex_digits w) = int (unat w)"
proof (induction w rule: hex_digits.induct)
  case (1 w)
  have split: "int (unat w) = int (unat w mod 16) + 16 * int (unat w div 16)"
  proof -
    have "unat w = unat w mod 16 + 16 * (unat w div 16)" by simp
    then show ?thesis by (metis of_nat_add of_nat_mult of_nat_numeral)
  qed
  show ?case
  proof (cases "drop_bit 4 w = 0")
    case True
    then have "unat w div 16 = 0" by (metis unat_drop_4 unat_eq_zero)
    then show ?thesis using split True
      by (subst hex_digits.simps) (simp add: Let_def unat_low_4 digit_of_hexstr)
  next
    case False
    with 1 have "value_of 16 (hex_digits (drop_bit 4 w)) = int (unat w div 16)"
      by (simp only: unat_drop_4 not_False_eq_True)
    then show ?thesis using split False
      by (subst hex_digits.simps) (simp add: Let_def unat_low_4 digit_of_hexstr)
  qed
qed

lemma dec_digits_nonneg:
  "0 \<le> n \<Longrightarrow> \<exists>ds. dec_digits n = Some ds \<and> value_of 10 ds = n \<and> ds \<noteq> [] \<and> set ds \<subseteq> set (take 10 hexstr)"
proof (induction n rule: dec_digits.induct)
  case (1 n)
  have sd: "n sdiv 10 = n div 10" "n smod 10 = n mod 10"
    using 1(2) by (simp_all add: signed_divide_int_def signed_modulo_int_def sgn_if minus_div_mult_eq_mod)
  have m: "0 \<le> n mod 10" "n mod 10 < 10" by auto
  have d: "digit_of (hexstr ! nat (n mod 10)) = n mod 10"
    using m by (subst digit_of_hexstr) auto
  have e: "hexstr ! nat (n mod 10) \<in> set (take 10 hexstr)"
    by (rule hexstr_decimal) (use m in simp)
  show ?case
  proof (cases "n div 10 = 0")
    case True
    then show ?thesis using m d e sd by (subst dec_digits.simps) (auto simp: Let_def)
  next
    case False
    have "\<exists>ds. dec_digits (n div 10) = Some ds \<and> value_of 10 ds = n div 10 \<and> ds \<noteq> [] \<and>
        set ds \<subseteq> set (take 10 hexstr)"
      using 1(1) [OF refl refl] sd m False 1(2) by simp
    then obtain ds where "dec_digits (n div 10) = Some ds" "value_of 10 ds = n div 10"
      "set ds \<subseteq> set (take 10 hexstr)" by auto
    then show ?thesis using False m d e sd
      by (subst dec_digits.simps) (auto simp: Let_def)
  qed
qed


text \<open>The texts of the number directives, and what they mean.\<close>

definition hex_text :: "u32 \<Rightarrow> byte list" where
  "hex_text w = rev (hex_digits w)"

definition int_text :: "int \<Rightarrow> byte list option" where
  "int_text n =
     (if n < 0 then map_option (\<lambda>ds. 45 # rev ds) (dec_digits (sint (of_int (- n) :: u32)))
      else map_option rev (dec_digits n))"

fun parse_int :: "byte list \<Rightarrow> int" where
  "parse_int (c # cs) = (if c = 45 then - value_of 10 (rev cs) else value_of 10 (rev (c # cs)))"
| "parse_int [] = 0"

lemma sint_neg_small: "- (2 ^ 31) < n \<Longrightarrow> n < 0 \<Longrightarrow> sint (of_int (- n) :: u32) = - n"
  using sint_of_int_small [of "- n"] by simp

lemma int_text_parse:
  assumes "- (2 ^ 31) < n" "n < 2 ^ 31"
  shows "\<exists>t. int_text n = Some t \<and> parse_int t = n"
proof (cases "n < 0")
  case True
  then obtain ds where "dec_digits (- n) = Some ds" "value_of 10 ds = - n"
    using dec_digits_nonneg [of "- n"] by auto
  then show ?thesis using True assms sint_neg_small [of n] by (simp add: int_text_def)
next
  case False
  then obtain ds where ds: "dec_digits n = Some ds" "value_of 10 ds = n" "ds \<noteq> []"
    "set ds \<subseteq> set (take 10 hexstr)"
    using dec_digits_nonneg [of n] by auto
  then obtain c cs where c: "rev ds = c # cs" by (cases "rev ds") auto
  then have "c \<in> set ds" by (metis list.set_intros(1) set_rev)
  with ds(4) have "c \<noteq> 45" by (auto simp: hexstr_def)
  moreover have "rev (c # cs) = ds" using c by (metis rev_rev_ident)
  ultimately have "parse_int (rev ds) = n" using ds(2) by (simp add: c del: rev.simps)
  then show ?thesis using False ds(1) by (simp add: int_text_def)
qed

lemma hex2string_text: "hex2string w buf m = (length (hex_text w), put_bytes (hex_text w) buf m)"
  by (simp add: hex2string_def hex_text_def Let_def)

lemma int2string_text:
  "int2string n buf m = map_option (\<lambda>t. (length t, put_bytes t buf m)) (int_text n)"
  by (auto simp: int2string_def int_text_def Let_def option.map_comp comp_def)

section \<open>The format loop renders the format\<close>

text \<open>Reference rendering, and the formats with no length or alternate-form directive (\<open>%l\<close>
  and \<open>%#\<close> skip output positions).\<close>

fun render :: "byte list \<Rightarrow> varg list \<Rightarrow> byte list option"
  and render_directive :: "byte list \<Rightarrow> varg list \<Rightarrow> byte list option" where
  "render [] vp = Some []"
| "render (c # fmt) vp =
     (if c = 37 then render_directive fmt vp else map_option (Cons c) (render fmt vp))"
| "render_directive [] vp = None"
| "render_directive (d # fmt) vp =
     (if d = 99 then
        (case vp of VInt w # vp' \<Rightarrow> map_option (Cons (ucast w)) (render fmt vp') | _ \<Rightarrow> None)
      else if d = 100 \<or> d = 105 then
        (case vp of VInt w # vp' \<Rightarrow>
           (case int_text (sint w) of
              Some t \<Rightarrow> map_option (append t) (render fmt vp') | None \<Rightarrow> None)
         | _ \<Rightarrow> None)
      else if d = 102 then (case vp of VFlt # vp' \<Rightarrow> render fmt vp' | _ \<Rightarrow> None)
      else if d = 115 then
        (case vp of VStr s # vp' \<Rightarrow> map_option (append s) (render fmt vp') | _ \<Rightarrow> None)
      else if d = 120 \<or> d = 88 \<or> d = 112 then
        (case vp of VInt w # vp' \<Rightarrow> map_option (append (hex_text w)) (render fmt vp') | _ \<Rightarrow> None)
      else if d = 37 then map_option (Cons 37) (render fmt vp)
      else render fmt vp)"

fun plain :: "byte list \<Rightarrow> bool" and plain_directive :: "byte list \<Rightarrow> bool" where
  "plain [] = True"
| "plain (c # fmt) = (if c = 37 then plain_directive fmt else plain fmt)"
| "plain_directive [] = True"
| "plain_directive (d # fmt) = (d \<noteq> 108 \<and> d \<noteq> 35 \<and> plain fmt)"

lemma put_bytes_append: "put_bytes (s @ t) p m = put_bytes t (p + of_nat (length s)) (put_bytes s p m)"
  by (induction s arbitrary: p m) (auto simp: algebra_simps)

definition emit :: "addr \<Rightarrow> nat \<Rightarrow> memory \<Rightarrow> byte list option \<Rightarrow> (nat \<times> memory) option" where
  "emit buf off m r = map_option (\<lambda>out. (off + length out, put_bytes out (buf + of_nat off) m)) r"

lemma emit_simps [simp]:
  "emit buf off m None = None"
  "emit buf off m (Some []) = Some (off, m)"
  by (simp_all add: emit_def)

lemma emit_Cons:
  "emit buf (Suc off) (m(buf + of_nat off := c)) r = emit buf off m (map_option (Cons c) r)"
  by (simp add: emit_def option.map_comp comp_def algebra_simps)

lemma emit_append:
  "emit buf (off + length t) (put_bytes t (buf + of_nat off) m) r = emit buf off m (map_option (append t) r)"
  by (simp add: emit_def option.map_comp comp_def put_bytes_append algebra_simps)

lemma directive_emit:
  assumes run: "\<And>vp off m. vsprintk fmt vp buf off m = emit buf off m (render fmt vp)"
    and d: "d \<noteq> 108" "d \<noteq> 35"
  shows "directive (d # fmt) vp buf off m = emit buf off m (render_directive (d # fmt) vp)"
proof (cases vp)
  case Nil
  then show ?thesis using d by (simp add: run emit_Cons)
next
  case (Cons v vp')
  show ?thesis
    by (cases v; cases "d = 99"; cases "d = 100 \<or> d = 105"; cases "d = 102"; cases "d = 115")
      (use d in \<open>auto simp: Cons run emit_Cons emit_append int2string_text hex2string_text flt2string_def
        split: option.splits\<close>)
qed

lemma vsprintk_emit:
  "(plain fmt \<longrightarrow> vsprintk fmt vp buf off m = emit buf off m (render fmt vp)) \<and>
   (plain_directive fmt \<longrightarrow> directive fmt vp buf off m = emit buf off m (render_directive fmt vp))"
proof (induction fmt arbitrary: vp off m)
  case (Cons d fmt)
  then have run: "plain fmt \<Longrightarrow> vsprintk fmt vp buf off m = emit buf off m (render fmt vp)"
    "plain_directive fmt \<Longrightarrow> directive fmt vp buf off m = emit buf off m (render_directive fmt vp)"
    for vp off m by auto
  show ?case
    using directive_emit [of fmt buf d vp off m] run by (auto simp: emit_Cons simp del: directive.simps render_directive.simps)
qed auto


section \<open>Properties\<close>

text \<open>
  C22. For a format with no \<open>%l\<close> and no \<open>%#\<close>, \<open>sprintk\<close> returns the length of the text that
  the reference rendering of the format and its arguments gives, and has stored exactly that text
  from the start of the buffer on; when an argument is missing or of the wrong kind it has no
  result.
\<close>

theorem sprintk_renders:
  assumes "plain fmt"
  shows "sprintk buf fmt vp m =
     map_option (\<lambda>out. (length out, put_bytes out buf m)) (render fmt vp)"
  using assms vsprintk_emit [of fmt vp buf 0 m] by (simp add: sprintk_def emit_def)

theorem sprintk_renders_witness:
  "sprintk 0x1000 [120, 61, 37, 115, 33] [VStr [97, 98]] (\<lambda>_. 0) =
     map_option (\<lambda>out. (length out, put_bytes out 0x1000 (\<lambda>_. 0)))
       (render [120, 61, 37, 115, 33] [VStr [97, 98]]) \<and>
   render [120, 61, 37, 115, 33] [VStr [97, 98]] = Some [120, 61, 97, 98, 33]"
proof
  show "sprintk 0x1000 [120, 61, 37, 115, 33] [VStr [97, 98]] (\<lambda>_. 0) =
     map_option (\<lambda>out. (length out, put_bytes out 0x1000 (\<lambda>_. 0)))
       (render [120, 61, 37, 115, 33] [VStr [97, 98]])"
    by (rule sprintk_renders) simp
qed simp

text \<open>
  C23. Numbers print as their value. Every \<open>int\<close> but the smallest is printed by
  \<open>int2string\<close> as a text that reads back as the same number; \<open>hex2string\<close> prints every
  32-bit value as hexadecimal digits of that value; and for the smallest \<open>int\<close> the digit loop of
  \<open>int2string\<close> reads below its digit table.
\<close>

theorem number_texts:
  assumes "- (2 ^ 31) < n" "n < 2 ^ 31"
  shows "(\<exists>t. int2string n buf m = Some (length t, put_bytes t buf m) \<and> parse_int t = n) \<and>
    (\<exists>t. hex2string w buf m = (length t, put_bytes t buf m) \<and> value_of 16 (rev t) = int (unat w)) \<and>
    int2string (- (2 ^ 31)) buf m = None"
proof (intro conjI)
  show "\<exists>t. int2string n buf m = Some (length t, put_bytes t buf m) \<and> parse_int t = n"
    using int_text_parse [OF assms] by (auto simp: int2string_text)
  show "\<exists>t. hex2string w buf m = (length t, put_bytes t buf m) \<and> value_of 16 (rev t) = int (unat w)"
    by (rule exI [of _ "hex_text w"]) (simp add: hex2string_text, simp add: hex_text_def hex_digits_value)
  have "dec_digits (- (2 ^ 31)) = None"
    by (subst dec_digits.simps) (simp add: signed_modulo_int_def signed_divide_int_def)
  then show "int2string (- (2 ^ 31)) buf m = None"
    by (simp add: int2string_text int_text_def)
qed

theorem number_texts_witness:
  "(\<exists>t. int2string (- 120) 0x1000 (\<lambda>_. 0) = Some (length t, put_bytes t 0x1000 (\<lambda>_. 0)) \<and>
      parse_int t = - 120) \<and>
   (\<exists>t. hex2string 0xbeef 0x1000 (\<lambda>_. 0) = (length t, put_bytes t 0x1000 (\<lambda>_. 0)) \<and>
      value_of 16 (rev t) = int (unat (0xbeef :: u32))) \<and>
   int2string (- (2 ^ 31)) 0x1000 (\<lambda>_. 0) = None"
  by (rule number_texts) simp_all

end
