(* ===== verification/Bitops.thy ===== *)
theory Bitops
  imports Prelude
begin

text \<open>
  Bit operations (\<^verbatim>\<open>src/kernel/bitops.c\<close>) and atomic counters (\<^verbatim>\<open>src/kernel/atomic.c\<close>). The
  routines on \<^verbatim>\<open>long *\<close> index 32-bit words by \<open>nr >> 5\<close>, also below the pointer; the ones on
  \<^verbatim>\<open>unsigned char *\<close> maps index bytes by \<open>nr >> 3\<close>. Interrupts are off inside every atomic
  operation, so each is one step.
\<close>

section \<open>Bits of word arrays\<close>

type_synonym longs = "int \<Rightarrow> u32"

definition word_index :: "int \<Rightarrow> int" where
  "word_index nr = drop_bit 5 nr"

definition word_mask :: "int \<Rightarrow> u32" where
  "word_mask nr = push_bit (nat (nr AND 0x1f)) 1"

definition set_bit :: "int \<Rightarrow> longs \<Rightarrow> bool \<times> longs" where
  "set_bit nr addr =
     (let a = word_index nr; msk = word_mask nr; retval = (msk AND addr a) \<noteq> 0
      in (retval, addr(a := addr a OR msk)))"

definition clear_bit :: "int \<Rightarrow> longs \<Rightarrow> bool \<times> longs" where
  "clear_bit nr addr =
     (let a = word_index nr; msk = word_mask nr; retval = (msk AND addr a) \<noteq> 0
      in (retval, addr(a := addr a AND NOT msk)))"

definition test_bit :: "int \<Rightarrow> longs \<Rightarrow> bool" where
  "test_bit nr addr = ((word_mask nr AND addr (word_index nr)) \<noteq> 0)"

section \<open>Bits of byte maps\<close>

type_synonym bmap = "nat \<Rightarrow> byte"

definition byte_mask :: "nat \<Rightarrow> byte" where
  "byte_mask nr = push_bit (nr AND 7) 1"

definition test_and_change_bit :: "nat \<Rightarrow> bmap \<Rightarrow> byte \<times> bmap" where
  "test_and_change_bit nr mp =
     (let a = drop_bit 3 nr; oldvalue = mp a
      in (oldvalue AND byte_mask nr, mp(a := oldvalue XOR byte_mask nr)))"

definition change_bit :: "nat \<Rightarrow> bmap \<Rightarrow> bmap" where
  "change_bit nr mp =
     (let a = drop_bit 3 nr; oldvalue = mp a in mp(a := oldvalue XOR byte_mask nr))"

definition test_and_set_bit :: "nat \<Rightarrow> bmap \<Rightarrow> byte \<times> bmap" where
  "test_and_set_bit nr mp =
     (let a = drop_bit 3 nr; oldvalue = mp a
      in (oldvalue AND byte_mask nr, mp(a := mp a OR byte_mask nr)))"

section \<open>Atomic counters\<close>

definition atomic_add :: "u32 \<Rightarrow> u32 \<Rightarrow> u32" where
  "atomic_add i v = v + i"

definition atomic_sub :: "u32 \<Rightarrow> u32 \<Rightarrow> u32" where
  "atomic_sub i v = v - i"

definition atomic_inc :: "u32 \<Rightarrow> u32" where
  "atomic_inc v = v + 1"

definition atomic_dec :: "u32 \<Rightarrow> u32" where
  "atomic_dec v = v - 1"

definition atomic_dec_and_test :: "u32 \<Rightarrow> bool \<times> u32" where
  "atomic_dec_and_test v = (v - 1 = 0, v - 1)"

definition atomic_add_negative :: "u32 \<Rightarrow> u32 \<Rightarrow> bool \<times> u32" where
  "atomic_add_negative i v = (sint (v + i) < 0, v + i)"

definition atomic_clear_mask :: "u32 \<Rightarrow> u32 \<Rightarrow> u32" where
  "atomic_clear_mask msk v = v AND NOT msk"

definition atomic_set :: "u32 \<Rightarrow> u32 \<Rightarrow> u32" where
  "atomic_set v i = i"

section \<open>A byte map is a set of bit numbers\<close>

definition tst :: "bmap \<Rightarrow> nat \<Rightarrow> bool" where
  "tst mp nr = bit (mp (nr div 8)) (nr mod 8)"

lemma byte_mask_eq: "byte_mask nr = push_bit (nr mod 8) 1"
proof -
  have "nr AND 7 = take_bit 3 nr" by (simp add: take_bit_eq_mask mask_eq_exp_minus_1)
  then show ?thesis by (simp add: byte_mask_def take_bit_eq_mod)
qed

lemma bit_byte_mask: "bit (byte_mask nr) n \<longleftrightarrow> n = nr mod 8"
proof -
  have "nr mod 8 < 8" by simp
  then show ?thesis by (auto simp: byte_mask_eq bit_exp_iff)
qed

lemma and_byte_mask_nonzero: "b AND byte_mask nr \<noteq> 0 \<longleftrightarrow> bit b (nr mod 8)"
  by (auto simp: bit_eq_iff [of "b AND byte_mask nr"] bit_and_iff bit_byte_mask)

lemma eq_from_div_mod:
  fixes a b c :: "'a :: semiring_modulo"
  assumes "a div c = b div c" "a mod c = b mod c"
  shows "a = b"
proof -
  have "a = a div c * c + a mod c" by (rule div_mult_mod_eq [symmetric])
  also have "\<dots> = b div c * c + b mod c" by (simp only: assms)
  also have "\<dots> = b" by (rule div_mult_mod_eq)
  finally show ?thesis .
qed

lemmas nr_div_mod = eq_from_div_mod [where c = "8 :: nat"]

lemma tst_change_bit [simp]: "tst (change_bit nr mp) = (tst mp)(nr := \<not> tst mp nr)"
proof
  fix k
  show "tst (change_bit nr mp) k = ((tst mp)(nr := \<not> tst mp nr)) k"
    using nr_div_mod [of nr k]
    by (auto simp: tst_def change_bit_def Let_def drop_bit_eq_div bit_xor_iff bit_byte_mask)
qed

lemma test_and_change_bit_tst:
  "fst (test_and_change_bit nr mp) \<noteq> 0 \<longleftrightarrow> tst mp nr"
  "snd (test_and_change_bit nr mp) = change_bit nr mp"
  by (simp_all add: test_and_change_bit_def change_bit_def Let_def tst_def drop_bit_eq_div
      and_byte_mask_nonzero)

lemma test_and_set_bit_tst:
  "fst (test_and_set_bit nr mp) \<noteq> 0 \<longleftrightarrow> tst mp nr"
  "tst (snd (test_and_set_bit nr mp)) = (tst mp)(nr := True)"
proof -
  show "fst (test_and_set_bit nr mp) \<noteq> 0 \<longleftrightarrow> tst mp nr"
    by (simp add: test_and_set_bit_def Let_def tst_def drop_bit_eq_div and_byte_mask_nonzero)
  show "tst (snd (test_and_set_bit nr mp)) = (tst mp)(nr := True)"
  proof
    fix k
    show "tst (snd (test_and_set_bit nr mp)) k = ((tst mp)(nr := True)) k"
      using nr_div_mod [of nr k]
      by (auto simp: tst_def test_and_set_bit_def Let_def drop_bit_eq_div bit_or_iff bit_byte_mask)
  qed
qed

section \<open>A word array is a set of bit numbers\<close>

definition wtst :: "longs \<Rightarrow> int \<Rightarrow> bool" where
  "wtst a nr = bit (a (nr div 32)) (nat (nr mod 32))"

lemma word_index_eq: "word_index nr = nr div 32"
  by (simp add: word_index_def drop_bit_eq_div)

lemma word_mask_eq: "word_mask nr = push_bit (nat (nr mod 32)) 1"
proof -
  have "nr AND 31 = take_bit 5 nr" by (simp add: take_bit_eq_mask mask_eq_exp_minus_1)
  then show ?thesis by (simp add: word_mask_def take_bit_eq_mod)
qed

lemma bit_word_mask: "bit (word_mask nr) n \<longleftrightarrow> n = nat (nr mod 32)"
proof -
  have "nat (nr mod 32) < 32" by (simp add: nat_less_iff)
  then show ?thesis by (auto simp: word_mask_eq bit_exp_iff)
qed

lemma and_word_mask_nonzero: "word_mask nr AND b \<noteq> 0 \<longleftrightarrow> bit b (nat (nr mod 32))"
  by (auto simp: bit_eq_iff [of "word_mask nr AND b"] bit_and_iff bit_word_mask)

lemma int_div_mod: "(nr :: int) div 32 = k div 32 \<Longrightarrow> nat (nr mod 32) = nat (k mod 32) \<Longrightarrow> nr = k"
proof -
  assume d: "nr div 32 = k div 32" and "nat (nr mod 32) = nat (k mod 32)"
  then have "nr mod 32 = k mod 32" by (simp add: nat_eq_iff)
  with d show "nr = k" by (rule eq_from_div_mod)
qed

lemma test_bit_wtst [simp]: "test_bit nr a = wtst a nr"
  by (simp add: test_bit_def wtst_def word_index_eq and_word_mask_nonzero)

lemma set_bit_wtst:
  "fst (set_bit nr a) = wtst a nr" "wtst (snd (set_bit nr a)) = (wtst a)(nr := True)"
proof -
  show "fst (set_bit nr a) = wtst a nr"
    by (simp add: set_bit_def Let_def wtst_def word_index_eq and_word_mask_nonzero)
  show "wtst (snd (set_bit nr a)) = (wtst a)(nr := True)"
  proof
    fix k
    show "wtst (snd (set_bit nr a)) k = ((wtst a)(nr := True)) k"
      using int_div_mod [of nr k]
      by (auto simp: wtst_def set_bit_def Let_def word_index_eq bit_or_iff bit_word_mask)
  qed
qed

lemma clear_bit_wtst:
  "fst (clear_bit nr a) = wtst a nr" "wtst (snd (clear_bit nr a)) = (wtst a)(nr := False)"
proof -
  show "fst (clear_bit nr a) = wtst a nr"
    by (simp add: clear_bit_def Let_def wtst_def word_index_eq and_word_mask_nonzero)
  show "wtst (snd (clear_bit nr a)) = (wtst a)(nr := False)"
  proof
    fix k
    show "wtst (snd (clear_bit nr a)) k = ((wtst a)(nr := False)) k"
      using int_div_mod [of nr k]
      by (auto simp: wtst_def clear_bit_def Let_def word_index_eq bit_and_iff bit_not_iff bit_word_mask
          nat_less_iff)
  qed
qed

end
