(* ===== verification/Buddy.thy ===== *)
theory Buddy
  imports Bitops Lib_Mem
begin

text \<open>
  The buddy page allocator (\<^verbatim>\<open>src/mm/page_alloc.c\<close>, structures in \<^verbatim>\<open>src/include/mmzone.h\<close> and
  \<^verbatim>\<open>src/include/page.h\<close>). A page of a zone is named by its index in the zone's part of
  \<open>mem_map\<close>; the free list of an order is the list of the first pages of its blocks, head first.
  \<open>BUG()\<close> is an empty function in this kernel, so a failed sanity check changes nothing and the
  code goes on; the spin locks are empty too.
\<close>

section \<open>State\<close>

definition MAX_ORDER :: nat where "MAX_ORDER = 10"
definition MAX_NR_ZONES :: nat where "MAX_NR_ZONES = 3"
definition ZONE_DMA :: nat where "ZONE_DMA = 0"
definition ZONE_NORMAL :: nat where "ZONE_NORMAL = 1"
definition ZONE_HIGHMEM :: nat where "ZONE_HIGHMEM = 2"
definition PG_reserved :: nat where "PG_reserved = 29"
definition PAGE_AGE_START :: u32 where "PAGE_AGE_START = 2"
definition ARCH_PFN_OFFSET :: u32 where "ARCH_PFN_OFFSET = 0x30000"

record page =
  pg_count :: u32
  pg_flags :: u32
  pg_age :: u32
  pg_zone :: nat

record zone =
  z_offset :: nat
  z_size :: nat
  z_free_pages :: u32
  z_pages_min :: u32
  z_pages_low :: u32
  z_pages_high :: u32
  free_list :: "nat \<Rightarrow> nat list"
  z_map :: "nat \<Rightarrow> bmap"

text \<open>\<open>null_va\<close> is the address \<open>page_address\<close> computes from a null page pointer.\<close>

record pgalloc =
  mem_map :: "nat \<Rightarrow> page"
  node_zones :: "nat \<Rightarrow> zone"
  node_zonelists :: "nat \<Rightarrow> nat list"
  memory_pressure :: u32
  max_mapnr :: nat
  ram :: memory
  null_va :: addr

section \<open>Free lists and bitmaps\<close>

definition memlist_add_head :: "nat \<Rightarrow> nat \<Rightarrow> zone \<Rightarrow> zone" where
  "memlist_add_head k p z = z\<lparr>free_list := (free_list z)(k := p # free_list z k)\<rparr>"

text \<open>\<open>list_del\<close> takes the page off whichever free list holds it.\<close>

definition memlist_del :: "nat \<Rightarrow> zone \<Rightarrow> zone" where
  "memlist_del p z = z\<lparr>free_list := (\<lambda>k. remove1 p (free_list z k))\<rparr>"

definition MARK_USED :: "nat \<Rightarrow> nat \<Rightarrow> zone \<Rightarrow> zone" where
  "MARK_USED index order z =
     z\<lparr>z_map := (z_map z)(order := change_bit (drop_bit (1 + order) index) (z_map z order))\<rparr>"

section \<open>Allocation\<close>

fun expand :: "zone \<Rightarrow> nat \<Rightarrow> nat \<Rightarrow> nat \<Rightarrow> nat \<Rightarrow> zone \<times> nat" where
  "expand z page index low 0 = (z, page)"
| "expand z page index low (Suc high) =
     (if Suc high > low
      then let size = 2 ^ high;
               z1 = memlist_add_head high page z;
               z2 = MARK_USED index high z1
           in expand z2 (page + size) (index + size) low high
      else (z, page))"

text \<open>The search loop of \<open>rmqueue\<close>: the first order at or above \<open>curr_order\<close> with a free block.\<close>

function rmqueue_loop :: "zone \<Rightarrow> nat \<Rightarrow> nat \<Rightarrow> (zone \<times> nat) option" where
  "rmqueue_loop z order curr_order =
     (case free_list z curr_order of
        page # _ \<Rightarrow>
          let z1 = memlist_del page z;
              z2 = MARK_USED page curr_order z1;
              z3 = z2\<lparr>z_free_pages := z_free_pages z2 - 2 ^ order\<rparr>
          in Some (expand z3 page page order curr_order)
      | [] \<Rightarrow>
          if Suc curr_order < MAX_ORDER then rmqueue_loop z order (Suc curr_order) else None)"
  by auto
termination
  by (relation "measure (\<lambda>(z, order, curr). MAX_ORDER - curr)") auto

declare rmqueue_loop.simps [simp del]

definition rmqueue :: "nat \<Rightarrow> nat \<Rightarrow> pgalloc \<Rightarrow> nat option \<times> pgalloc" where
  "rmqueue zid order s =
     (case rmqueue_loop (node_zones s zid) order order of
        None \<Rightarrow> (None, s)
      | Some (z, page) \<Rightarrow>
          let p = z_offset z + page
          in (Some p, s\<lparr>node_zones := (node_zones s)(zid := z),
                mem_map := (mem_map s)(p := (mem_map s p)\<lparr>pg_count := 1\<rparr>)\<rparr>))"

fun alloc_from_zones :: "nat list \<Rightarrow> nat \<Rightarrow> pgalloc \<Rightarrow> nat option \<times> pgalloc" where
  "alloc_from_zones [] order s = (None, s)"
| "alloc_from_zones (zid # zs) order s =
     (if z_free_pages (node_zones s zid) \<ge> z_pages_low (node_zones s zid)
      then (case rmqueue zid order s of
              (Some p, s') \<Rightarrow> (Some p, s')
            | (None, s') \<Rightarrow> alloc_from_zones zs order s')
      else alloc_from_zones zs order s)"

text \<open>\<open>__alloc_pages\<close>\<close>

definition alloc_pages_zonelist :: "nat list \<Rightarrow> nat \<Rightarrow> pgalloc \<Rightarrow> nat option \<times> pgalloc" where
  "alloc_pages_zonelist zonelist order s =
     alloc_from_zones zonelist order (s\<lparr>memory_pressure := memory_pressure s + 1\<rparr>)"

definition page_address :: "nat option \<Rightarrow> pgalloc \<Rightarrow> addr" where
  "page_address page s =
     (case page of None \<Rightarrow> null_va s | Some p \<Rightarrow> push_bit 12 (of_nat p + ARCH_PFN_OFFSET))"

definition clear_block :: "addr \<Rightarrow> nat \<Rightarrow> memory \<Rightarrow> memory" where
  "clear_block p order m = memset p 0 (push_bit order 1 * 4096) m"

definition alloc_pages :: "nat \<Rightarrow> nat \<Rightarrow> pgalloc \<Rightarrow> nat option \<times> pgalloc" where
  "alloc_pages gfp_mask order s =
     (case alloc_pages_zonelist (node_zonelists s gfp_mask) order s of
        (page, s') \<Rightarrow> (page, s'\<lparr>ram := clear_block (page_address page s') order (ram s')\<rparr>))"

text \<open>\<open>__get_free_pages\<close>\<close>

definition get_free_pages :: "nat \<Rightarrow> nat \<Rightarrow> pgalloc \<Rightarrow> addr \<times> pgalloc" where
  "get_free_pages gfp_mask order s =
     (case alloc_pages gfp_mask order s of
        (None, s') \<Rightarrow> (0, s')
      | (Some p, s') \<Rightarrow>
          let va = page_address (Some p) s'
          in (va, s'\<lparr>ram := clear_block va order (ram s')\<rparr>))"

section \<open>Freeing\<close>

partial_function (option) free_loop ::
  "zone \<Rightarrow> nat \<Rightarrow> u32 \<Rightarrow> u32 \<Rightarrow> u32 \<Rightarrow> (zone \<times> nat \<times> u32) option" where
  "free_loop z area index page_idx msk =
     (if msk + push_bit (MAX_ORDER - 1) 1 \<noteq> 0
      then let (old, mp) = test_and_change_bit (unat index) (z_map z area);
               z1 = z\<lparr>z_map := (z_map z)(area := mp)\<rparr>
           in if old = 0 then Some (z1, area, page_idx)
              else let buddy1 = page_idx XOR (- msk);
                       z2 = memlist_del (unat buddy1) z1;
                       msk' = push_bit 1 msk
                   in free_loop z2 (Suc area) (drop_bit 1 index) (page_idx AND msk') msk'
      else Some (z, area, page_idx))"

text \<open>\<open>__free_pages_ok\<close>, on the page with index \<open>p\<close> in \<open>mem_map\<close>.\<close>

definition free_pages_ok :: "nat \<Rightarrow> nat \<Rightarrow> pgalloc \<Rightarrow> pgalloc option" where
  "free_pages_ok p order s =
     (let pg = mem_map s p;
          pg' = pg\<lparr>pg_flags := pg_flags pg AND NOT (push_bit 0 1 OR push_bit 2 1), pg_age := PAGE_AGE_START\<rparr>;
          zid = pg_zone pg;
          z = node_zones s zid;
          msk = push_bit order (- 1) :: u32;
          page_idx = of_nat (p - z_offset z) :: u32;
          index = drop_bit (1 + order) page_idx;
          z1 = z\<lparr>z_free_pages := z_free_pages z - msk\<rparr>
      in case free_loop z1 order index page_idx msk of
           None \<Rightarrow> None
         | Some (z2, area, idx) \<Rightarrow>
             Some (s\<lparr>mem_map := (mem_map s)(p := pg'),
                     node_zones := (node_zones s)(zid := memlist_add_head area (unat idx) z2),
                     memory_pressure := memory_pressure s - 1\<rparr>))"

definition page_words :: "page \<Rightarrow> longs" where
  "page_words pg = (\<lambda>i. if i = 0 then pg_flags pg else if i = - 1 then pg_count pg else 0)"

definition PageReserved :: "page \<Rightarrow> bool" where
  "PageReserved pg = test_bit (int PG_reserved) (page_words pg)"

definition PageLocked :: "page \<Rightarrow> bool" where
  "PageLocked pg = test_bit (- 2) (page_words pg)"

text \<open>\<open>__free_pages\<close>\<close>

definition free_pages_count :: "nat \<Rightarrow> nat \<Rightarrow> pgalloc \<Rightarrow> pgalloc option" where
  "free_pages_count p order s =
     (if PageReserved (mem_map s p) then Some s
      else let (zero, c) = atomic_dec_and_test (pg_count (mem_map s p));
               s1 = s\<lparr>mem_map := (mem_map s)(p := (mem_map s p)\<lparr>pg_count := c\<rparr>)\<rparr>
           in if zero then free_pages_ok p order s1 else Some s1)"

definition VALID_PAGE :: "u32 \<Rightarrow> pgalloc \<Rightarrow> bool" where
  "VALID_PAGE p s \<longleftrightarrow> unat p < max_mapnr s"

definition virt_to_page :: "addr \<Rightarrow> u32" where
  "virt_to_page a = drop_bit 12 a - ARCH_PFN_OFFSET"

definition free_pages :: "addr \<Rightarrow> nat \<Rightarrow> pgalloc \<Rightarrow> pgalloc option" where
  "free_pages a order s =
     (let fpage = virt_to_page a
      in if VALID_PAGE fpage s then free_pages_count (unat fpage) order s else Some s)"

section \<open>Zone lists and bring-up\<close>

text \<open>\<open>build_zonelists\<close>: \<open>CONFIG_HIGHMEM\<close> is off, so \<open>__GFP_HIGHMEM\<close> is 0 and
  \<open>ZONE_HIGHMEM\<close> is never the first choice.\<close>

definition build_zonelist :: "(nat \<Rightarrow> zone) \<Rightarrow> nat \<Rightarrow> nat list" where
  "build_zonelist zs i =
     (let k = (if i AND 8 \<noteq> 0 then ZONE_DMA else ZONE_NORMAL);
          add = (\<lambda>zid. if z_size (zs zid) \<noteq> 0 then [zid] else [])
      in if k = ZONE_NORMAL then add ZONE_NORMAL @ add ZONE_DMA else add ZONE_DMA)"

definition zone_balance_ratio :: "nat \<Rightarrow> nat" where
  "zone_balance_ratio j = (if j = 0 then 32 else 128)"

definition zone_watermark :: "nat \<Rightarrow> nat \<Rightarrow> nat" where
  "zone_watermark j realsize =
     (let msk = realsize div zone_balance_ratio j
      in if msk < 10 then 10 else if msk > 255 then 255 else msk)"

definition init_zone :: "nat \<Rightarrow> nat \<Rightarrow> nat \<Rightarrow> zone" where
  "init_zone j offset sz =
     \<lparr>z_offset = (if sz = 0 then 0 else offset), z_size = sz, z_free_pages = 0,
      z_pages_min = (if sz = 0 then 0 else of_nat (zone_watermark j sz)),
      z_pages_low = (if sz = 0 then 0 else of_nat (zone_watermark j sz * 2)),
      z_pages_high = (if sz = 0 then 0 else of_nat (zone_watermark j sz * 3)),
      free_list = (\<lambda>_. []), z_map = (\<lambda>_ _. 0)\<rparr>"

definition init_page :: "nat \<Rightarrow> page" where
  "init_page zid = \<lparr>pg_count = 0, pg_flags = push_bit PG_reserved 1, pg_age = 0, pg_zone = zid\<rparr>"

fun zone_start :: "nat list \<Rightarrow> nat \<Rightarrow> nat" where
  "zone_start zones_size 0 = 0"
| "zone_start zones_size (Suc j) = zone_start zones_size j + zones_size ! j"

definition zone_of_page :: "nat list \<Rightarrow> nat \<Rightarrow> nat" where
  "zone_of_page zones_size p =
     (if p < zone_start zones_size 1 then 0 else if p < zone_start zones_size 2 then 1 else 2)"

definition free_area_init_core :: "nat list \<Rightarrow> pgalloc \<Rightarrow> pgalloc" where
  "free_area_init_core zones_size s =
     (let zs = (\<lambda>j. if j < MAX_NR_ZONES then init_zone j (zone_start zones_size j) (zones_size ! j)
                    else node_zones s j)
      in s\<lparr>mem_map := (\<lambda>p. if p < zone_start zones_size MAX_NR_ZONES
                          then init_page (zone_of_page zones_size p) else mem_map s p),
           node_zones := zs,
           node_zonelists := build_zonelist zs\<rparr>)"

end
