(* ===== verification/Buddy_Inv.thy ===== *)
theory Buddy_Inv
  imports Buddy
begin

text \<open>
  Correctness of the buddy allocator: the invariant of a zone, the abstract set of free pages it
  stands for, and the effect of allocation and freeing on that set.
\<close>

section \<open>Blocks\<close>

definition blk :: "nat \<Rightarrow> nat \<Rightarrow> nat set" where
  "blk k i = {i..<i + 2 ^ k}"

lemma in_blk: "x \<in> blk k i \<longleftrightarrow> i \<le> x \<and> x < i + 2 ^ k"
  by (auto simp: blk_def)

lemma blk_nonempty: "i \<in> blk k i"
  by (simp add: in_blk)

lemma finite_blk [simp]: "finite (blk k i)" and card_blk [simp]: "card (blk k i) = 2 ^ k"
  by (simp_all add: blk_def)

lemma blk_split: "blk (Suc k) i = blk k i \<union> blk k (i + 2 ^ k)"
  by (auto simp: blk_def)

lemma blk_split_disjoint: "blk k i \<inter> blk k (i + 2 ^ k) = {}"
  by (auto simp: blk_def)

text \<open>A block of order \<open>k\<close> that starts at an aligned page has a number, and the two blocks with
  numbers \<open>2 b\<close> and \<open>2 b + 1\<close> are buddies.\<close>

lemma aligned_number: "(2 :: nat) ^ k dvd i \<Longrightarrow> i = (i div 2 ^ k) * 2 ^ k"
  by simp

section \<open>Invariant\<close>

definition mem :: "zone \<Rightarrow> nat \<Rightarrow> nat \<Rightarrow> bool" where
  "mem z k c \<longleftrightarrow> c * 2 ^ k \<in> set (free_list z k)"

definition blocks :: "zone \<Rightarrow> (nat \<times> nat) set" where
  "blocks z = {(k, i). i \<in> set (free_list z k)}"

definition free_set :: "zone \<Rightarrow> nat set" where
  "free_set z = (\<Union>(k, i) \<in> blocks z. blk k i)"

definition blocks_ok :: "zone \<Rightarrow> bool" where
  "blocks_ok z \<longleftrightarrow>
     (\<forall>k. distinct (free_list z k)) \<and>
     (\<forall>(k, i) \<in> blocks z. k < MAX_ORDER \<and> 2 ^ k dvd i \<and> i + 2 ^ k \<le> z_size z) \<and>
     (\<forall>x \<in> blocks z. \<forall>y \<in> blocks z. x = y \<or> case_prod blk x \<inter> case_prod blk y = {})"

definition maps_ok :: "zone \<Rightarrow> bool" where
  "maps_ok z \<longleftrightarrow>
     (\<forall>k b. k < MAX_ORDER - 1 \<longrightarrow>
        (tst (z_map z k) b \<longleftrightarrow> mem z k (2 * b) \<noteq> mem z k (2 * b + 1)) \<and>
        \<not> (mem z k (2 * b) \<and> mem z k (2 * b + 1)))"

definition zwf :: "zone \<Rightarrow> bool" where
  "zwf z \<longleftrightarrow> blocks_ok z \<and> maps_ok z"

definition zinv :: "zone \<Rightarrow> bool" where
  "zinv z \<longleftrightarrow> zwf z \<and> z_free_pages z = of_nat (card (free_set z)) \<and> z_size z < 2 ^ 31"

lemmas zinv_defs [inv_defs] = zinv_def zwf_def blocks_ok_def maps_ok_def

lemma in_blocks [simp]: "(k, i) \<in> blocks z \<longleftrightarrow> i \<in> set (free_list z k)"
  by (simp add: blocks_def)

lemma blocks_okD:
  assumes "blocks_ok z"
  shows "distinct (free_list z k)"
    and "i \<in> set (free_list z k) \<Longrightarrow> k < MAX_ORDER"
    and "i \<in> set (free_list z k) \<Longrightarrow> 2 ^ k dvd i"
    and "i \<in> set (free_list z k) \<Longrightarrow> i + 2 ^ k \<le> z_size z"
    and "i \<in> set (free_list z k) \<Longrightarrow> j \<in> set (free_list z l) \<Longrightarrow>
           (k, i) \<noteq> (l, j) \<Longrightarrow> blk k i \<inter> blk l j = {}"
  using assms unfolding blocks_ok_def in_blocks [symmetric] by fastforce+

lemma in_free_set: "x \<in> free_set z \<longleftrightarrow> (\<exists>k. \<exists>i \<in> set (free_list z k). x \<in> blk k i)"
  by (auto simp: free_set_def blocks_def)

lemma free_set_blk: "i \<in> set (free_list z k) \<Longrightarrow> blk k i \<subseteq> free_set z"
  unfolding free_set_def by (rule subsetI, rule UN_I [of "(k, i)"]) simp_all

lemma free_set_bound: "blocks_ok z \<Longrightarrow> free_set z \<subseteq> {..<z_size z}"
  by (fastforce simp: in_free_set in_blk dest: blocks_okD(4))

lemma finite_free_set: "blocks_ok z \<Longrightarrow> finite (free_set z)"
  using free_set_bound finite_subset by blast

lemma not_in_list: "blk k i \<inter> free_set z = {} \<Longrightarrow> i \<notin> set (free_list z k)"
  using free_set_blk [of i z k] blk_nonempty [of i k] by auto

section \<open>Adding and removing a block\<close>

lemma zone_upd_sel [simp]:
  "free_list (memlist_add_head k p z) = (free_list z)(k := p # free_list z k)"
  "z_map (memlist_add_head k p z) = z_map z"
  "z_size (memlist_add_head k p z) = z_size z"
  "z_offset (memlist_add_head k p z) = z_offset z"
  "z_free_pages (memlist_add_head k p z) = z_free_pages z"
  "free_list (memlist_del p z) = (\<lambda>k. remove1 p (free_list z k))"
  "z_map (memlist_del p z) = z_map z"
  "z_size (memlist_del p z) = z_size z"
  "z_offset (memlist_del p z) = z_offset z"
  "z_free_pages (memlist_del p z) = z_free_pages z"
  "free_list (MARK_USED i k z) = free_list z"
  "z_size (MARK_USED i k z) = z_size z"
  "z_offset (MARK_USED i k z) = z_offset z"
  "z_free_pages (MARK_USED i k z) = z_free_pages z"
  "z_map (MARK_USED i k z) = (z_map z)(k := change_bit (i div 2 ^ Suc k) (z_map z k))"
  by (simp_all add: memlist_add_head_def memlist_del_def MARK_USED_def drop_bit_eq_div)

lemma free_set_cong: "free_list z' = free_list z \<Longrightarrow> free_set z' = free_set z"
  by (simp add: free_set_def blocks_def)

lemma blocks_ok_cong:
  "free_list z' = free_list z \<Longrightarrow> z_size z' = z_size z \<Longrightarrow> blocks_ok z' = blocks_ok z"
  by (simp add: blocks_ok_def blocks_def)

lemma blocks_add: "blocks (memlist_add_head k p z) = insert (k, p) (blocks z)"
  by (auto simp: blocks_def split: if_splits)

lemma free_set_add: "free_set (memlist_add_head k p z) = free_set z \<union> blk k p"
  by (auto simp: free_set_def blocks_add)

lemma blocks_ok_add:
  assumes "blocks_ok z" "k < MAX_ORDER" "2 ^ k dvd p" "p + 2 ^ k \<le> z_size z"
    and "blk k p \<inter> free_set z = {}"
  shows "blocks_ok (memlist_add_head k p z)"
proof -
  have new: "p \<notin> set (free_list z k)" by (rule not_in_list [OF assms(5)])
  have out: "blk k p \<inter> case_prod blk y = {}" if "y \<in> blocks z" for y
  proof -
    have "case_prod blk y \<subseteq> free_set z" using that by (auto simp: free_set_def)
    with assms(5) show ?thesis by blast
  qed
  then have "case_prod blk y \<inter> blk k p = {}" if "y \<in> blocks z" for y
    using that by (simp add: Int_commute)
  with assms new out show ?thesis
    unfolding blocks_ok_def blocks_add by auto
qed

lemma set_list_del:
  assumes "blocks_ok z" "i \<in> set (free_list z k)"
  shows "set (free_list (memlist_del i z) l) = (if l = k then set (free_list z k) - {i} else set (free_list z l))"
proof -
  have "i \<notin> set (free_list z l)" if "l \<noteq> k"
    using blocks_okD(5) [OF assms(1,2), of i l] that blk_nonempty by blast
  then show ?thesis using blocks_okD(1) [OF assms(1)] by (auto simp: remove1_idem)
qed

lemma free_set_del:
  assumes "blocks_ok z" "i \<in> set (free_list z k)"
  shows "free_set (memlist_del i z) = free_set z - blk k i"
proof -
  have b: "blocks (memlist_del i z) = blocks z - {(k, i)}"
    unfolding blocks_def set_list_del [OF assms] by (auto split: if_splits)
  have d: "blk l j \<inter> blk k i = {}" if "(l, j) \<in> blocks z - {(k, i)}" for l j
    using that blocks_okD(5) [OF assms(1) _ assms(2), of j l] by (auto simp: blocks_def)
  show ?thesis
    unfolding free_set_def b using d assms(2) by (fastforce simp: blocks_def)
qed

lemma blocks_ok_subset:
  assumes "blocks_ok z" "blocks z' \<subseteq> blocks z" "\<And>k. distinct (free_list z' k)" "z_size z' = z_size z"
  shows "blocks_ok z'"
  unfolding blocks_ok_def assms(4)
proof (intro conjI allI ballI assms(3))
  fix x assume "x \<in> blocks z'"
  with assms(2) have x: "x \<in> blocks z" by (rule subsetD)
  then show "case x of (k, i) \<Rightarrow> k < MAX_ORDER \<and> 2 ^ k dvd i \<and> i + 2 ^ k \<le> z_size z"
    using assms(1) unfolding blocks_ok_def by (rule conjunct2 [THEN conjunct1, THEN bspec, rotated])
  fix y assume "y \<in> blocks z'"
  with assms(2) have y: "y \<in> blocks z" by (rule subsetD)
  show "x = y \<or> case_prod blk x \<inter> case_prod blk y = {}"
    using assms(1) x y unfolding blocks_ok_def by (elim conjE) (drule (1) bspec)+
qed

lemma blocks_ok_del:
  assumes "blocks_ok z"
  shows "blocks_ok (memlist_del i z)"
proof (rule blocks_ok_subset [OF assms])
  show "distinct (free_list (memlist_del i z) k)" for k
    using blocks_okD(1) [OF assms] by (simp add: distinct_remove1)
qed (auto simp: blocks_def dest: set_remove1_subset [THEN subsetD])

section \<open>The bitmaps follow\<close>

lemma mem_add: "mem (memlist_add_head k (c * 2 ^ k) z) l b \<longleftrightarrow> mem z l b \<or> l = k \<and> b = c"
  by (auto simp: mem_def)

lemma mem_del:
  assumes "blocks_ok z" "mem z k c"
  shows "mem (memlist_del (c * 2 ^ k) z) l b \<longleftrightarrow> mem z l b \<and> \<not> (l = k \<and> b = c)"
  using set_list_del [OF assms(1), of "c * 2 ^ k" k l] assms(2) by (auto simp: mem_def)

lemma mem_MARK_USED [simp]: "mem (MARK_USED i k z) = mem z"
  by (simp add: mem_def fun_eq_iff)

lemma buddy_pair: "(c :: nat) = 2 * (c div 2) \<or> c = 2 * (c div 2) + 1"
  by presburger

lemma maps_ok_add:
  assumes "maps_ok z" "\<not> mem z k (2 * (c div 2))" "\<not> mem z k (2 * (c div 2) + 1)" "i div 2 ^ Suc k = c div 2"
  shows "maps_ok (MARK_USED i k (memlist_add_head k (c * 2 ^ k) z))"
  unfolding maps_ok_def
proof (intro allI impI)
  fix l b
  assume l: "l < MAX_ORDER - 1"
  have old: "tst (z_map z l) b \<longleftrightarrow> mem z l (2 * b) \<noteq> mem z l (2 * b + 1)"
    "\<not> (mem z l (2 * b) \<and> mem z l (2 * b + 1))"
    using assms(1) l unfolding maps_ok_def by blast+
  show "(tst (z_map (MARK_USED i k (memlist_add_head k (c * 2 ^ k) z)) l) b \<longleftrightarrow>
        mem (MARK_USED i k (memlist_add_head k (c * 2 ^ k) z)) l (2 * b) \<noteq>
        mem (MARK_USED i k (memlist_add_head k (c * 2 ^ k) z)) l (2 * b + 1)) \<and>
       \<not> (mem (MARK_USED i k (memlist_add_head k (c * 2 ^ k) z)) l (2 * b) \<and>
          mem (MARK_USED i k (memlist_add_head k (c * 2 ^ k) z)) l (2 * b + 1))"
  proof (cases "l = k \<and> b = c div 2")
    case True
    then show ?thesis using old assms(2-4) buddy_pair [of c] by (auto simp: mem_add)
  next
    case False
    then have "\<not> (l = k \<and> 2 * b = c)" "\<not> (l = k \<and> 2 * b + 1 = c)" by auto
    then show ?thesis using old False assms(4) by (simp only: mem_MARK_USED mem_add) auto
  qed
qed

lemma maps_ok_del:
  assumes "maps_ok z" "blocks_ok z" "mem z k c" "i div 2 ^ Suc k = c div 2"
  shows "maps_ok (MARK_USED i k (memlist_del (c * 2 ^ k) z))"
  unfolding maps_ok_def
proof (intro allI impI)
  fix l b
  assume l: "l < MAX_ORDER - 1"
  have old: "tst (z_map z l) b \<longleftrightarrow> mem z l (2 * b) \<noteq> mem z l (2 * b + 1)"
    "\<not> (mem z l (2 * b) \<and> mem z l (2 * b + 1))"
    using assms(1) l unfolding maps_ok_def by blast+
  show "(tst (z_map (MARK_USED i k (memlist_del (c * 2 ^ k) z)) l) b \<longleftrightarrow>
        mem (MARK_USED i k (memlist_del (c * 2 ^ k) z)) l (2 * b) \<noteq>
        mem (MARK_USED i k (memlist_del (c * 2 ^ k) z)) l (2 * b + 1)) \<and>
       \<not> (mem (MARK_USED i k (memlist_del (c * 2 ^ k) z)) l (2 * b) \<and>
          mem (MARK_USED i k (memlist_del (c * 2 ^ k) z)) l (2 * b + 1))"
  proof (cases "l = k \<and> b = c div 2")
    case True
    then show ?thesis using old assms(3,4) buddy_pair [of c]
      by (auto simp: mem_del [OF assms(2,3)])
  next
    case False
    then have "\<not> (l = k \<and> 2 * b = c)" "\<not> (l = k \<and> 2 * b + 1 = c)" by auto
    then show ?thesis using old False assms(4)
      by (simp only: mem_MARK_USED mem_del [OF assms(2,3)]) auto
  qed
qed


section \<open>Allocation\<close>

definition same_zone :: "zone \<Rightarrow> zone \<Rightarrow> bool" where
  "same_zone z z' \<longleftrightarrow> z_size z' = z_size z \<and> z_offset z' = z_offset z \<and>
     z_pages_min z' = z_pages_min z \<and> z_pages_low z' = z_pages_low z \<and>
     z_pages_high z' = z_pages_high z"

lemma same_zone_refl [simp]: "same_zone z z"
  by (simp add: same_zone_def)

lemma same_zone_trans: "same_zone x y \<Longrightarrow> same_zone y z \<Longrightarrow> same_zone x z"
  by (simp add: same_zone_def)

lemma same_zone_upd [simp]:
  "same_zone z (memlist_add_head k p z)" "same_zone z (memlist_del p z)"
  "same_zone z (MARK_USED i k z)" "same_zone z (z\<lparr>z_free_pages := n\<rparr>)" "same_zone z (z\<lparr>z_map := m\<rparr>)"
  by (simp_all add: same_zone_def memlist_add_head_def memlist_del_def MARK_USED_def)

lemma mem_outside:
  assumes "blk k i \<inter> free_set z = {}" "2 ^ k dvd i" "l \<le> k" "i \<le> c * 2 ^ l" "c * 2 ^ l + 2 ^ l \<le> i + 2 ^ k"
  shows "\<not> mem z l c"
proof
  assume "mem z l c"
  then have "blk l (c * 2 ^ l) \<subseteq> free_set z" by (auto simp: mem_def dest: free_set_blk)
  moreover have "c * 2 ^ l \<in> blk l (c * 2 ^ l)" by (rule blk_nonempty)
  moreover have "(0 :: nat) < 2 ^ l" by simp
  then have "c * 2 ^ l < i + 2 ^ k" using assms(5) by linarith
  then have "c * 2 ^ l \<in> blk k i" using assms(4) by (simp add: in_blk)
  ultimately show False using assms(1) by auto
qed

lemma expand_ok:
  assumes "zwf z" "high < MAX_ORDER" "low \<le> high" "2 ^ high dvd i" "i + 2 ^ high \<le> z_size z"
    and "blk high i \<inter> free_set z = {}" and "expand z i i low high = (z', p)"
  shows "zwf z' \<and> 2 ^ low dvd p \<and> blk low p \<subseteq> blk high i \<and>
     free_set z' = free_set z \<union> (blk high i - blk low p) \<and> same_zone z z' \<and>
     z_free_pages z' = z_free_pages z"
  using assms
proof (induction high arbitrary: z i)
  case 0
  then show ?case by auto
next
  case (Suc h)
  show ?case
  proof (cases "low = Suc h")
    case True
    then show ?thesis using Suc.prems by auto
  next
    case False
    let ?z1 = "memlist_add_head h i z" and ?i = "i + 2 ^ h"
    let ?z2 = "MARK_USED i h ?z1"
    obtain b where b: "i = b * 2 ^ Suc h" using Suc.prems(4) by (auto elim: dvdE simp: mult.commute)
    define c where "c = 2 * b"
    have c: "i = c * 2 ^ h" "c div 2 = b" "i div 2 ^ Suc h = c div 2" by (simp_all add: b c_def)
    have halves: "blk (Suc h) i = blk h i \<union> blk h ?i" "blk h i \<inter> blk h ?i = {}"
      by (rule blk_split, rule blk_split_disjoint)
    have low: "blk h i \<inter> free_set z = {}" "blk h ?i \<inter> free_set z = {}"
      using Suc.prems(6) halves by auto
    have nomem: "\<not> mem z h (2 * (c div 2))" "\<not> mem z h (2 * (c div 2) + 1)"
      using mem_outside [OF Suc.prems(6,4), of h] by (auto simp: b c_def)
    have "blocks_ok ?z2 = blocks_ok ?z1" by (rule blocks_ok_cong) simp_all
    moreover have "blocks_ok ?z1"
      using Suc.prems low by (intro blocks_ok_add) (auto simp: zwf_def b)
    moreover have "maps_ok ?z2"
      using maps_ok_add [OF _ nomem c(3)] Suc.prems(1) c(1) by (simp add: zwf_def)
    ultimately have wf: "zwf ?z2" by (simp add: zwf_def)
    have fs: "free_set ?z2 = free_set z \<union> blk h i"
      using free_set_add [of h i z] free_set_cong [of ?z2 ?z1] by simp
    have "zwf z' \<and> 2 ^ low dvd p \<and> blk low p \<subseteq> blk h ?i \<and>
        free_set z' = free_set ?z2 \<union> (blk h ?i - blk low p) \<and> same_zone ?z2 z' \<and>
        z_free_pages z' = z_free_pages ?z2"
    proof (rule Suc.IH [OF wf])
      show "blk h ?i \<inter> free_set ?z2 = {}" using fs low halves by auto
      show "expand ?z2 ?i ?i low h = (z', p)" using Suc.prems(3,7) False by (simp add: Let_def)
    qed (use Suc.prems False b in auto)
    then show ?thesis
      using fs halves same_zone_trans [of z ?z1 ?z2] same_zone_trans [of z ?z2 z'] by auto
  qed
qed


lemma card_free_blk:
  assumes "blocks_ok z" "blk k i \<subseteq> free_set z"
  shows "(of_nat (card (free_set z - blk k i)) :: u32) = of_nat (card (free_set z)) - 2 ^ k"
proof -
  have "card (free_set z - blk k i) = card (free_set z) - 2 ^ k" "2 ^ k \<le> card (free_set z)"
    using assms finite_free_set [OF assms(1)] card_mono [of "free_set z" "blk k i"]
    by (simp_all add: card_Diff_subset)
  then show ?thesis by (simp add: of_nat_diff)
qed

lemma take_block:
  assumes "zwf z" "p \<in> set (free_list z k)"
  shows "zwf (MARK_USED p k (memlist_del p z))"
    and "free_set (MARK_USED p k (memlist_del p z)) = free_set z - blk k p"
proof -
  let ?z1 = "memlist_del p z"
  have ok: "blocks_ok z" "maps_ok z" using assms(1) by (simp_all add: zwf_def)
  obtain c where c: "p = c * 2 ^ k"
    using blocks_okD(3) [OF ok(1) assms(2)] by (auto elim: dvdE simp: mult.commute)
  have "p div 2 ^ Suc k = c div 2" by (simp add: c mult.commute)
  then have "maps_ok (MARK_USED p k ?z1)"
    using maps_ok_del [OF ok(2,1), of k c p] assms(2) by (simp add: c mem_def)
  moreover have "blocks_ok (MARK_USED p k ?z1) = blocks_ok ?z1" by (rule blocks_ok_cong) simp_all
  ultimately show "zwf (MARK_USED p k ?z1)" using blocks_ok_del [OF ok(1)] by (simp add: zwf_def)
  show "free_set (MARK_USED p k ?z1) = free_set z - blk k p"
    using free_set_del [OF ok(1) assms(2)] free_set_cong [of "MARK_USED p k ?z1" ?z1] by simp
qed

lemma rmqueue_loop_found:
  assumes "zinv z" "order \<le> co" "free_list z co = p # ps"
    and "rmqueue_loop z order co = Some (z', q)"
  shows "zinv z' \<and> 2 ^ order dvd q \<and> blk order q \<subseteq> free_set z \<and>
     free_set z' = free_set z - blk order q \<and> same_zone z z'"
proof -
  let ?z2 = "MARK_USED p co (memlist_del p z)"
  let ?z3 = "?z2\<lparr>z_free_pages := z_free_pages ?z2 - 2 ^ order\<rparr>"
  have p: "p \<in> set (free_list z co)" using assms(3) by simp
  have wf: "zwf z" and ok: "blocks_ok z" using assms(1) by (simp_all add: zinv_def zwf_def)
  have "zwf ?z3 = zwf ?z2"
    by (simp add: zwf_def blocks_ok_def maps_ok_def blocks_def mem_def)
  then have wf3: "zwf ?z3" using take_block(1) [OF wf p] by simp
  have fs3: "free_set ?z3 = free_set z - blk co p"
    using take_block(2) [OF wf p] free_set_cong [of ?z3 ?z2] by simp
  have ex: "expand ?z3 p p order co = (z', q)"
    using assms(4) by (subst (asm) rmqueue_loop.simps) (simp add: assms(3) Let_def)
  have e: "zwf z' \<and> 2 ^ order dvd q \<and> blk order q \<subseteq> blk co p \<and>
     free_set z' = free_set ?z3 \<union> (blk co p - blk order q) \<and> same_zone ?z3 z' \<and>
     z_free_pages z' = z_free_pages ?z3"
    by (rule expand_ok [OF wf3 _ assms(2) _ _ _ ex]) (use blocks_okD [OF ok] p fs3 in auto)
  have sub: "blk co p \<subseteq> free_set z" by (rule free_set_blk [OF p])
  then have fs: "free_set z' = free_set z - blk order q" using e fs3 by blast
  have "z_free_pages z' = of_nat (card (free_set z'))"
    unfolding fs using e sub assms(1) card_free_blk [OF ok, of order q]
    by (auto simp: zinv_def)
  moreover have "same_zone z z'"
    using e same_zone_trans [of z "memlist_del p z" ?z2] same_zone_trans [of z ?z2 ?z3]
      same_zone_trans [of z ?z3 z'] by simp
  ultimately show ?thesis using e fs sub assms(1) by (auto simp: zinv_def same_zone_def)
qed

lemma rmqueue_loop_Some:
  assumes "zinv z" "order \<le> co" "rmqueue_loop z order co = Some (z', q)"
  shows "zinv z' \<and> 2 ^ order dvd q \<and> blk order q \<subseteq> free_set z \<and>
     free_set z' = free_set z - blk order q \<and> same_zone z z'"
  using assms
proof (induction z order co rule: rmqueue_loop.induct)
  case (1 z order co)
  show ?case
  proof (cases "free_list z co")
    case Nil
    then have "Suc co < MAX_ORDER" "rmqueue_loop z order (Suc co) = Some (z', q)"
      using 1(4) by (subst (asm) rmqueue_loop.simps, simp split: if_splits)+
    then show ?thesis using 1(1) [OF Nil] 1(2,3) by simp
  next
    case (Cons p ps)
    then show ?thesis using rmqueue_loop_found [OF 1(2,3)] 1(4) by blast
  qed
qed

lemma rmqueue_loop_None:
  "co < MAX_ORDER \<Longrightarrow>
   rmqueue_loop z order co = None \<longleftrightarrow> (\<forall>k. co \<le> k \<longrightarrow> k < MAX_ORDER \<longrightarrow> free_list z k = [])"
proof (induction z order co rule: rmqueue_loop.induct)
  case (1 z order co)
  show ?case
  proof (cases "free_list z co")
    case Nil
    show ?thesis
    proof (cases "Suc co < MAX_ORDER")
      case True
      have "(\<forall>k. co \<le> k \<longrightarrow> k < MAX_ORDER \<longrightarrow> free_list z k = []) \<longleftrightarrow>
          (\<forall>k. Suc co \<le> k \<longrightarrow> k < MAX_ORDER \<longrightarrow> free_list z k = [])"
        using Nil by (metis Suc_leD le_eq_less_or_eq Suc_leI)
      then show ?thesis
        using 1(1) [OF Nil True True] Nil True by (subst rmqueue_loop.simps) simp
    next
      case False
      have "free_list z k = []" if "co \<le> k" "k < MAX_ORDER" for k
      proof -
        have "k = co" using that False by simp
        then show ?thesis by (simp only: Nil)
      qed
      then show ?thesis using Nil False by (subst rmqueue_loop.simps) simp
    qed
  next
    case (Cons p ps)
    then show ?thesis using 1(2) by (subst rmqueue_loop.simps) (auto simp: Let_def)
  qed
qed


text \<open>An aligned run of free pages always lies inside one free block of at least its order: two
  free buddies are never left unmerged.\<close>

lemma aligned_next: "(d :: nat) dvd i \<Longrightarrow> d dvd m \<Longrightarrow> i < m \<Longrightarrow> i + d \<le> m"
  by (metis dvd_diff_nat dvd_imp_le le_add_diff_inverse less_imp_le zero_less_diff add_le_cancel_left)

lemma blk_contains:
  assumes "2 ^ k dvd i" "2 ^ l dvd j" "k \<le> l" "x \<in> blk k i" "x \<in> blk l j"
  shows "blk k i \<subseteq> blk l j"
proof -
  have d: "(2 :: nat) ^ k dvd j" using assms(2,3) by (meson dvd_trans le_imp_power_dvd)
  have dl: "(2 :: nat) ^ k dvd j + 2 ^ l" using d assms(3) by (simp add: le_imp_power_dvd)
  have "j \<le> i"
  proof (rule ccontr)
    assume "\<not> j \<le> i"
    then have "i + 2 ^ k \<le> j" by (intro aligned_next [OF assms(1) d]) simp
    then show False using assms(4,5) by (simp add: in_blk)
  qed
  moreover have "i + 2 ^ k \<le> j + 2 ^ l"
    using assms(4,5) by (intro aligned_next [OF assms(1) dl]) (simp add: in_blk)
  ultimately show ?thesis by (auto simp: in_blk)
qed

lemma blk_same: "blk k i \<subseteq> blk k j \<Longrightarrow> i = j"
proof -
  assume sub: "blk k i \<subseteq> blk k j"
  define n :: nat where "n = 2 ^ k - 1"
  have n: "2 ^ k = Suc n" by (simp add: n_def)
  have "i \<in> blk k i" "i + n \<in> blk k i" by (simp_all add: in_blk n)
  with sub have "i \<in> blk k j" "i + n \<in> blk k j" by auto
  then show "i = j" by (simp add: in_blk n)
qed

lemma aligned_run_in_block:
  assumes "zwf z" "k < MAX_ORDER" "2 ^ k dvd i" "blk k i \<subseteq> free_set z"
  shows "\<exists>l j. k \<le> l \<and> j \<in> set (free_list z l) \<and> blk k i \<subseteq> blk l j"
  using assms(2-4)
proof (induction k arbitrary: i)
  case 0
  then have "i \<in> free_set z" by (auto simp: in_blk)
  then obtain l j where "j \<in> set (free_list z l)" "i \<in> blk l j" by (auto simp: in_free_set)
  then have "j \<in> set (free_list z l) \<and> blk 0 i \<subseteq> blk l j" by (auto simp: blk_def)
  then show ?case by blast
next
  case (Suc k)
  have ok: "blocks_ok z" "maps_ok z" using assms(1) by (simp_all add: zwf_def)
  let ?i = "i + 2 ^ k"
  have halves: "blk (Suc k) i = blk k i \<union> blk k ?i" by (rule blk_split)
  have al: "2 ^ k dvd i" "2 ^ k dvd ?i"
    using Suc.prems(2) by (auto intro: dvd_trans [OF le_imp_power_dvd [of k "Suc k" 2]])
  have kM: "k < MAX_ORDER" using Suc.prems(1) by simp
  obtain l j where l: "k \<le> l" "j \<in> set (free_list z l)" "blk k i \<subseteq> blk l j"
    using Suc.IH [OF kM al(1)] Suc.prems(3) halves by auto
  obtain l' j' where l': "k \<le> l'" "j' \<in> set (free_list z l')" "blk k ?i \<subseteq> blk l' j'"
    using Suc.IH [OF kM al(2)] Suc.prems(3) halves by auto
  have big: "blk (Suc k) i \<subseteq> blk m q"
    if "Suc k \<le> m" "q \<in> set (free_list z m)" "blk k x \<subseteq> blk m q" "blk k x \<subseteq> blk (Suc k) i" for m q x
    using blk_contains [OF Suc.prems(2) blocks_okD(3) [OF ok(1) that(2)] that(1), of x] that(3,4)
      blk_nonempty [of x k] by blast
  show ?case
  proof (cases "l = k \<and> l' = k")
    case True
    then have "i = j" "?i = j'" using l(3) l'(3) blk_same by auto
    then have both: "i \<in> set (free_list z k)" "?i \<in> set (free_list z k)" using l l' True by auto
    obtain b where b: "i = b * 2 ^ Suc k" using Suc.prems(2) by (auto elim: dvdE simp: mult.commute)
    have "mem z k (2 * b)" "mem z k (2 * b + 1)"
      using both by (simp_all add: mem_def b algebra_simps)
    moreover have "k < MAX_ORDER - 1" using Suc.prems(1) by simp
    ultimately show ?thesis using ok(2) unfolding maps_ok_def by blast
  next
    case False
    then have "Suc k \<le> l \<or> Suc k \<le> l'" using l(1) l'(1) by auto
    then show ?thesis
      using big [of l j i] big [of l' j' ?i] l l' halves by blast
  qed
qed

lemma rmqueue_loop_None_iff:
  assumes "zinv z" "order < MAX_ORDER"
  shows "rmqueue_loop z order order = None \<longleftrightarrow> \<not> (\<exists>i. 2 ^ order dvd i \<and> blk order i \<subseteq> free_set z)"
proof
  assume none: "rmqueue_loop z order order = None"
  show "\<not> (\<exists>i. 2 ^ order dvd i \<and> blk order i \<subseteq> free_set z)"
  proof
    assume "\<exists>i. 2 ^ order dvd i \<and> blk order i \<subseteq> free_set z"
    then obtain i where "2 ^ order dvd i" "blk order i \<subseteq> free_set z" by blast
    then obtain l j where "order \<le> l" "j \<in> set (free_list z l)"
      using aligned_run_in_block [of z order i] assms unfolding zinv_def by blast
    moreover from this have "l < MAX_ORDER"
      using assms(1) blocks_okD(2) by (auto simp: zinv_def zwf_def)
    ultimately have "free_list z l = []"
      using none unfolding rmqueue_loop_None [OF assms(2)] by blast
    with \<open>j \<in> set (free_list z l)\<close> show False by simp
  qed
next
  assume run: "\<not> (\<exists>i. 2 ^ order dvd i \<and> blk order i \<subseteq> free_set z)"
  show "rmqueue_loop z order order = None"
  proof (cases "rmqueue_loop z order order")
    case (Some r)
    then show ?thesis
      using rmqueue_loop_Some [OF assms(1) order_refl, of order "fst r" "snd r"] run by auto
  qed
qed

section \<open>Freeing\<close>

lemma top_mask: "k \<le> 9 \<Longrightarrow> - (2 ^ k) + push_bit (MAX_ORDER - 1) 1 = (0 :: u32) \<longleftrightarrow> k = 9"
proof -
  assume k: "k \<le> 9"
  have "- (2 ^ k) + push_bit (MAX_ORDER - 1) 1 = (0 :: u32) \<longleftrightarrow> (2 ^ k :: u32) = 2 ^ 9"
    by (auto simp: MAX_ORDER_def add_eq_0_iff2 neg_eq_iff_add_eq_0)
  also have "\<dots> \<longleftrightarrow> (2 :: nat) ^ k = 2 ^ 9"
    using k unat_exp [of k] unat_exp [of 9] by (simp add: word_unat_eq_iff)
  also have "\<dots> \<longleftrightarrow> k = 9" using power_inject_exp [of "2 :: nat" k 9] by simp
  finally show ?thesis .
qed

lemma xor_1_nat: "(c :: nat) XOR 1 = (if even c then c + 1 else c - 1)"
  using xor_one_eq [of c] by (auto simp del: One_nat_def)

lemma unat_buddy:
  assumes "c * 2 ^ k < 2 ^ 31" "k < 31"
  shows "unat (of_nat (c * 2 ^ k) XOR - (- (2 ^ k)) :: u32) = (if even c then c + 1 else c - 1) * 2 ^ k"
proof -
  have "unat (of_nat (c * 2 ^ k) XOR (2 ^ k) :: u32) = (c * 2 ^ k) XOR 2 ^ k"
    using assms unat_of_nat_small [of "c * 2 ^ k"] unat_exp [of k] by (simp only: unsigned_xor_eq) simp
  also have "\<dots> = push_bit k c XOR push_bit k 1" by (simp add: push_bit_eq_mult)
  also have "\<dots> = push_bit k (c XOR 1)" by (simp only: push_bit_xor)
  also have "\<dots> = (c XOR 1) * 2 ^ k" by (simp add: push_bit_eq_mult)
  finally show ?thesis by (simp only: xor_1_nat minus_minus)
qed

lemma MARK_USED_add: "memlist_add_head k p (MARK_USED i l z) = MARK_USED i l (memlist_add_head k p z)"
  by (simp add: memlist_add_head_def MARK_USED_def)

lemma MARK_USED_del: "memlist_del p (MARK_USED i l z) = MARK_USED i l (memlist_del p z)"
  by (simp add: memlist_del_def MARK_USED_def)

text \<open>One round of the loop: flip the pair's bit; stop if the buddy is in use, else take it off its
  list and go on with the block of the pair.\<close>

definition buddy_of :: "nat \<Rightarrow> nat" where
  "buddy_of c = (if even c then c + 1 else c - 1)"

lemma buddy_of_pair: "buddy_of c div 2 = c div 2" "buddy_of c \<noteq> c"
  "{c, buddy_of c} = {2 * (c div 2), 2 * (c div 2) + 1}"
  by (auto simp: buddy_of_def elim!: evenE oddE)

lemma free_loop_step:
  assumes "k < 9" "c * 2 ^ k < 2 ^ 31"
  defines "b \<equiv> c div 2" and "i \<equiv> c * 2 ^ k"
  shows "free_loop z k (of_nat b) (of_nat i) (- (2 ^ k)) =
     (if tst (z_map z k) b
      then free_loop (MARK_USED i k (memlist_del (buddy_of c * 2 ^ k) z)) (Suc k) (of_nat (b div 2))
             (of_nat (b * 2 ^ Suc k)) (- (2 ^ Suc k))
      else Some (MARK_USED i k z, k, of_nat i))"
proof -
  have ib: "i div 2 ^ Suc k = b" by (simp add: i_def b_def mult.commute)
  have "b \<le> i" unfolding ib [symmetric] by (rule div_le_dividend)
  then have b: "b < 2 ^ 31" using assms(2) by (simp add: i_def)
  then have ub: "unat (of_nat b :: u32) = b" by (intro unat_of_nat_small) simp
  have z1: "z\<lparr>z_map := (z_map z)(k := change_bit b (z_map z k))\<rparr> = MARK_USED i k z"
    by (simp add: MARK_USED_def drop_bit_eq_div ib [symmetric])
  have bud: "unat (of_nat i XOR - (- (2 ^ k)) :: u32) = buddy_of c * 2 ^ k"
    using unat_buddy [OF assms(2)] assms(1) by (simp add: i_def buddy_of_def)
  have half: "drop_bit 1 (of_nat b :: u32) = of_nat (b div 2)" using drop_of_nat [OF b, of 1] by simp
  have msk: "push_bit 1 (- (2 ^ k)) = (- (2 ^ Suc k) :: u32)" by (simp add: push_bit_eq_mult)
  have up: "of_nat i AND (- (2 ^ Suc k)) = (of_nat (b * 2 ^ Suc k) :: u32)"
    using and_high [of i "Suc k"] assms(2) ib by (simp add: i_def)
  have go: "- (2 ^ k) + push_bit (MAX_ORDER - 1) 1 \<noteq> (0 :: u32)" using top_mask [of k] assms(1) by simp
  show ?thesis
  proof (cases "tst (z_map z k) b")
    case True
    then have "fst (test_and_change_bit b (z_map z k)) \<noteq> 0" using test_and_change_bit_tst(1) by blast
    then show ?thesis using True
      by (subst free_loop.simps)
        (simp only: go if_True Let_def case_prod_unfold test_and_change_bit_tst(2) ub z1 bud half msk up
          MARK_USED_del if_False not_False_eq_True if_True)
  next
    case False
    then have "fst (test_and_change_bit b (z_map z k)) = 0" using test_and_change_bit_tst(1) by blast
    then show ?thesis using False
      by (subst free_loop.simps)
        (simp only: go if_True Let_def case_prod_unfold test_and_change_bit_tst(2) ub z1 if_False
          not_False_eq_True if_True refl)
  qed
qed

lemma free_loop_ok:
  assumes "zwf z" "k \<le> 9" "2 ^ k dvd i" "i + 2 ^ k \<le> z_size z" "z_size z < 2 ^ 31"
    and "blk k i \<inter> free_set z = {}"
  shows "\<exists>z' k' idx. free_loop z k (of_nat (i div 2 ^ Suc k)) (of_nat i) (- (2 ^ k)) = Some (z', k', idx) \<and>
     zwf (memlist_add_head k' (unat idx) z') \<and>
     free_set (memlist_add_head k' (unat idx) z') = free_set z \<union> blk k i \<and>
     same_zone z z' \<and> z_free_pages z' = z_free_pages z"
  using assms
proof (induction "9 - k" arbitrary: z k i)
  case 0
  then have k: "k = 9" by simp
  have "blocks_ok z" "maps_ok z" using "0.prems" by (simp_all add: zwf_def)
  have i: "unat (of_nat i :: u32) = i" using "0.prems" by (intro unat_of_nat_small) simp
  have "blocks_ok (memlist_add_head k i z)"
    using "0.prems" by (intro blocks_ok_add) (auto simp: zwf_def MAX_ORDER_def)
  moreover have "maps_ok (memlist_add_head k i z)"
    using \<open>maps_ok z\<close> k by (auto simp: maps_ok_def mem_def MAX_ORDER_def)
  moreover have "free_loop z k (of_nat (i div 2 ^ Suc k)) (of_nat i) (- (2 ^ k)) = Some (z, k, of_nat i)"
    using top_mask [of k] k by (subst free_loop.simps) simp
  ultimately show ?case using i by (auto simp: zwf_def free_set_add)
next
  case (Suc n)
  then have k: "k < 9" by simp
  have ok: "blocks_ok z" "maps_ok z" using Suc.prems(1) by (simp_all add: zwf_def)
  obtain c where c: "i = c * 2 ^ k" using Suc.prems(3) by (auto elim: dvdE simp: mult.commute)
  define b d where "b = c div 2" and "d = buddy_of c"
  have ib: "i div 2 ^ Suc k = b" by (simp add: c b_def mult.commute)
  have small: "i < 2 ^ 31" using Suc.prems(4,5) zero_less_power [of "2::nat" k] by linarith
  have pair: "{c, d} = {2 * b, 2 * b + 1}" "d div 2 = b" using buddy_of_pair [of c] by (simp_all add: b_def d_def)
  have notme: "\<not> mem z k c" using not_in_list [OF Suc.prems(6)] by (simp add: mem_def c)
  have "k < MAX_ORDER - 1" using k by (simp add: MAX_ORDER_def)
  then have "tst (z_map z k) b \<longleftrightarrow> mem z k (2 * b) \<noteq> mem z k (2 * b + 1)"
    using ok(2) unfolding maps_ok_def by blast
  then have bit: "tst (z_map z k) b \<longleftrightarrow> mem z k d" using notme pair(1) by (metis doubleton_eq_iff)
  note step = free_loop_step [OF k, of c z, folded c b_def d_def, OF small]
  show ?case
  proof (cases "mem z k d")
    case False
    have nomem: "\<not> mem z k (2 * (c div 2))" "\<not> mem z k (2 * (c div 2) + 1)"
      using False notme pair(1) by (auto simp: b_def doubleton_eq_iff)
    let ?z = "memlist_add_head k i (MARK_USED i k z)"
    have "maps_ok ?z"
      using maps_ok_add [OF ok(2) nomem, of i] ib by (simp add: c b_def MARK_USED_add)
    moreover have "blocks_ok ?z \<longleftrightarrow> blocks_ok (memlist_add_head k i z)"
      unfolding MARK_USED_add by (rule blocks_ok_cong) simp_all
    moreover have "blocks_ok (memlist_add_head k i z)"
      using Suc.prems k by (intro blocks_ok_add ok(1)) (auto simp: MAX_ORDER_def)
    moreover have "free_set ?z = free_set z \<union> blk k i"
      using free_set_add [of k i "MARK_USED i k z"] free_set_cong [of "MARK_USED i k z" z] by simp
    moreover have "unat (of_nat i :: u32) = i" using small by (intro unat_of_nat_small) simp
    ultimately show ?thesis using step ib bit False by (simp add: zwf_def)
  next
    case True
    let ?q = "d * 2 ^ k" and ?i = "b * 2 ^ Suc k"
    let ?z = "MARK_USED i k (memlist_del ?q z)"
    have q: "?q \<in> set (free_list z k)" using True by (simp add: mem_def)
    have union: "blk (Suc k) ?i = blk k i \<union> blk k ?q" "blk k i \<inter> blk k ?q = {}"
      using blk_split [of k ?i] blk_split_disjoint [of k ?i] pair(1) c
      by (auto simp: doubleton_eq_iff algebra_simps)
    have wf: "zwf ?z"
      using maps_ok_del [OF ok(2,1) True, of i] ib pair(2) blocks_ok_del [OF ok(1), of ?q]
        blocks_ok_cong [of ?z "memlist_del ?q z"] by (simp add: zwf_def)
    have fs: "free_set ?z = free_set z - blk k ?q"
      using free_set_del [OF ok(1) q] free_set_cong [of ?z "memlist_del ?q z"] by simp
    have top: "?i + 2 ^ Suc k \<le> z_size z"
      using blocks_okD(4) [OF ok(1) q] Suc.prems(4) pair(1) c
      by (auto simp: doubleton_eq_iff algebra_simps)
    have up: "?i div 2 ^ Suc (Suc k) = b div 2"
      by (simp add: mult.commute [of b] div_mult2_eq [symmetric])
    have "\<exists>z' k' idx. free_loop ?z (Suc k) (of_nat (?i div 2 ^ Suc (Suc k))) (of_nat ?i) (- (2 ^ Suc k)) =
          Some (z', k', idx) \<and>
        zwf (memlist_add_head k' (unat idx) z') \<and>
        free_set (memlist_add_head k' (unat idx) z') = free_set ?z \<union> blk (Suc k) ?i \<and>
        same_zone ?z z' \<and> z_free_pages z' = z_free_pages ?z"
      by (rule Suc.hyps(1) [OF _ wf]) (use Suc.hyps(2) Suc.prems k top fs union in auto)
    then obtain z' k' idx where r:
      "free_loop ?z (Suc k) (of_nat (b div 2)) (of_nat ?i) (- (2 ^ Suc k)) = Some (z', k', idx)"
      "zwf (memlist_add_head k' (unat idx) z')"
      "free_set (memlist_add_head k' (unat idx) z') = free_set ?z \<union> blk (Suc k) ?i"
      "same_zone ?z z'" "z_free_pages z' = z_free_pages ?z"
      unfolding up by blast
    have "free_set ?z \<union> blk (Suc k) ?i = free_set z \<union> blk k i"
      using fs union free_set_blk [OF q] by blast
    moreover have "same_zone z z'"
      using r(4) same_zone_trans [of z "memlist_del ?q z" ?z] same_zone_trans [of z ?z z'] by simp
    ultimately show ?thesis using r step ib bit True by auto
  qed
qed


section \<open>Whole operations\<close>

abbreviation zone_at :: "nat \<Rightarrow> pgalloc \<Rightarrow> zone" where
  "zone_at zid s \<equiv> node_zones s zid"

lemma rmqueue_Some:
  assumes "zinv (zone_at zid s)" "rmqueue zid order s = (Some p, s')"
  shows "\<exists>q. p = z_offset (zone_at zid s) + q \<and> 2 ^ order dvd q \<and>
     blk order q \<subseteq> free_set (zone_at zid s) \<and> zinv (zone_at zid s') \<and>
     free_set (zone_at zid s') = free_set (zone_at zid s) - blk order q \<and>
     same_zone (zone_at zid s) (zone_at zid s') \<and> pg_count (mem_map s' p) = 1 \<and>
     mem_map s' = (mem_map s)(p := (mem_map s p)\<lparr>pg_count := 1\<rparr>)"
proof (cases "rmqueue_loop (zone_at zid s) order order")
  case None
  then show ?thesis using assms(2) by (simp add: rmqueue_def)
next
  case (Some r)
  obtain z q where r: "r = (z, q)" by (cases r)
  from rmqueue_loop_Some [OF assms(1) order_refl, of order z q] Some r
  have "zinv z \<and> 2 ^ order dvd q \<and> blk order q \<subseteq> free_set (zone_at zid s) \<and>
     free_set z = free_set (zone_at zid s) - blk order q \<and> same_zone (zone_at zid s) z" by simp
  moreover have "p = z_offset z + q" "zone_at zid s' = z"
    "mem_map s' = (mem_map s)(p := (mem_map s p)\<lparr>pg_count := 1\<rparr>)"
    using assms(2) Some r by (auto simp: rmqueue_def Let_def)
  ultimately show ?thesis by (intro exI [of _ q]) (simp add: same_zone_def)
qed

lemma rmqueue_None:
  assumes "zinv (zone_at zid s)" "order < MAX_ORDER"
  shows "fst (rmqueue zid order s) = None \<longleftrightarrow>
     \<not> (\<exists>i. 2 ^ order dvd i \<and> blk order i \<subseteq> free_set (zone_at zid s))"
proof -
  have "fst (rmqueue zid order s) = None \<longleftrightarrow> rmqueue_loop (zone_at zid s) order order = None"
    by (simp add: rmqueue_def Let_def split: option.split prod.split)
  then show ?thesis using rmqueue_loop_None_iff [OF assms] by (simp only:)
qed

lemma free_pages_ok_block:
  assumes inv: "zinv (zone_at zid s)" and zid: "pg_zone (mem_map s p) = zid"
    and p: "p = z_offset (zone_at zid s) + q"
    and order: "order < MAX_ORDER" and al: "2 ^ order dvd q" "q + 2 ^ order \<le> z_size (zone_at zid s)"
    and new: "blk order q \<inter> free_set (zone_at zid s) = {}"
  shows "\<exists>s'. free_pages_ok p order s = Some s' \<and> zinv (zone_at zid s') \<and>
     free_set (zone_at zid s') = free_set (zone_at zid s) \<union> blk order q \<and>
     same_zone (zone_at zid s) (zone_at zid s') \<and>
     mem_map s' = (mem_map s)(p := (mem_map s p)\<lparr>pg_flags := pg_flags (mem_map s p) AND NOT 5, pg_age := PAGE_AGE_START\<rparr>)"
proof -
  let ?z = "zone_at zid s"
  let ?z1 = "?z\<lparr>z_free_pages := z_free_pages ?z - (- (2 ^ order))\<rparr>"
  have wf: "zwf ?z" and ok: "blocks_ok ?z" and sz: "z_size ?z < 2 ^ 31" and fp: "z_free_pages ?z = of_nat (card (free_set ?z))"
    using inv by (simp_all add: zinv_def zwf_def)
  have wf1: "zwf ?z1 = zwf ?z" by (simp add: zwf_def blocks_ok_def maps_ok_def blocks_def mem_def)
  have fs1: "free_set ?z1 = free_set ?z" by (rule free_set_cong) simp
  have q: "q < 2 ^ 31" using al(2) sz zero_less_power [of "2::nat" order] by linarith
  have idx: "drop_bit (1 + order) (of_nat q :: u32) = of_nat (q div 2 ^ Suc order)"
    using drop_of_nat [OF q, of "Suc order"] by simp
  have msk: "push_bit order (- 1 :: u32) = - (2 ^ order)" by (simp add: push_bit_eq_mult)
  have "\<exists>z' k' i. free_loop ?z1 order (of_nat (q div 2 ^ Suc order)) (of_nat q) (- (2 ^ order)) = Some (z', k', i) \<and>
     zwf (memlist_add_head k' (unat i) z') \<and>
     free_set (memlist_add_head k' (unat i) z') = free_set ?z1 \<union> blk order q \<and>
     same_zone ?z1 z' \<and> z_free_pages z' = z_free_pages ?z1"
    by (rule free_loop_ok) (use wf wf1 al sz new fs1 order in \<open>auto simp: MAX_ORDER_def\<close>)
  then obtain z' k' i where r:
    "free_loop ?z1 order (of_nat (q div 2 ^ Suc order)) (of_nat q) (- (2 ^ order)) = Some (z', k', i)"
    "zwf (memlist_add_head k' (unat i) z')"
    "free_set (memlist_add_head k' (unat i) z') = free_set ?z \<union> blk order q"
    "same_zone ?z1 z'" "z_free_pages z' = z_free_pages ?z + 2 ^ order"
    using fs1 by auto
  have "card (free_set ?z \<union> blk order q) = card (free_set ?z) + 2 ^ order"
    using finite_free_set [OF ok] new by (subst card_Un_disjoint) auto
  then have "zinv (memlist_add_head k' (unat i) z')"
    using r sz fp by (simp add: zinv_def same_zone_def)
  moreover have "same_zone ?z (memlist_add_head k' (unat i) z')"
    using r(4) same_zone_trans [of ?z ?z1 z'] same_zone_trans [of ?z z'] by simp
  moreover have "free_pages_ok p order s = Some (s\<lparr>
      mem_map := (mem_map s)(p := (mem_map s p)\<lparr>pg_flags := pg_flags (mem_map s p) AND NOT 5, pg_age := PAGE_AGE_START\<rparr>),
      node_zones := (node_zones s)(zid := memlist_add_head k' (unat i) z'),
      memory_pressure := memory_pressure s - 1\<rparr>)"
  proof -
    have five: "(push_bit 0 1 OR push_bit 2 1 :: u32) = 5" by simp
    show ?thesis
      unfolding free_pages_ok_def Let_def zid
      by (simp only: p diff_add_inverse idx msk five r(1) option.case prod.case)
  qed
  ultimately show ?thesis using r(3) by simp
qed


lemma free_pages_count_block:
  assumes inv: "zinv (zone_at zid s)" and zid: "pg_zone (mem_map s p) = zid"
    and p: "p = z_offset (zone_at zid s) + q"
    and order: "order < MAX_ORDER" and al: "2 ^ order dvd q" "q + 2 ^ order \<le> z_size (zone_at zid s)"
    and new: "blk order q \<inter> free_set (zone_at zid s) = {}"
    and pg: "\<not> PageReserved (mem_map s p)" "pg_count (mem_map s p) = 1"
  shows "\<exists>s'. free_pages_count p order s = Some s' \<and> zinv (zone_at zid s') \<and>
     free_set (zone_at zid s') = free_set (zone_at zid s) \<union> blk order q \<and>
     same_zone (zone_at zid s) (zone_at zid s') \<and>
     mem_map s' = (mem_map s)(p := (mem_map s p)\<lparr>pg_count := 0,
       pg_flags := pg_flags (mem_map s p) AND NOT 5, pg_age := PAGE_AGE_START\<rparr>)"
proof -
  let ?s = "s\<lparr>mem_map := (mem_map s)(p := (mem_map s p)\<lparr>pg_count := 0\<rparr>)\<rparr>"
  have "free_pages_count p order s = free_pages_ok p order ?s"
    using pg by (simp add: free_pages_count_def atomic_dec_and_test_def)
  moreover have "\<exists>s'. free_pages_ok p order ?s = Some s' \<and> zinv (zone_at zid s') \<and>
     free_set (zone_at zid s') = free_set (zone_at zid ?s) \<union> blk order q \<and>
     same_zone (zone_at zid ?s) (zone_at zid s') \<and>
     mem_map s' = (mem_map ?s)(p := (mem_map ?s p)\<lparr>pg_flags := pg_flags (mem_map ?s p) AND NOT 5, pg_age := PAGE_AGE_START\<rparr>)"
    by (rule free_pages_ok_block) (use assms in simp_all)
  ultimately show ?thesis by simp
qed

lemma PageReserved_bit: "PageReserved pg \<longleftrightarrow> bit (pg_flags pg) 29"
  by (simp add: PageReserved_def PG_reserved_def wtst_def page_words_def)

lemma PageReserved_simps [simp]:
  "PageReserved (pg\<lparr>pg_count := n\<rparr>) = PageReserved pg"
  "PageReserved (pg\<lparr>pg_count := n, pg_flags := pg_flags pg AND - 6, pg_age := a\<rparr>) = PageReserved pg"
  by (simp_all add: PageReserved_bit bit_and_iff bit_not_iff)

section \<open>Any sequence of allocations and releases\<close>

text \<open>
  The allocator as a transition system: the state with the set of live blocks, those handed out and
  not yet given back. A release is the free of a live block by its first page and order.
\<close>

inductive pg_step :: "nat \<Rightarrow> pgalloc \<times> (nat \<times> nat) set \<Rightarrow> pgalloc \<times> (nat \<times> nat) set \<Rightarrow> bool"
  for zid :: nat where
  alloc: "order < MAX_ORDER \<Longrightarrow> rmqueue zid order s = (Some p, s') \<Longrightarrow>
    pg_step zid (s, live) (s', insert (order, p) live)"
| release: "(order, p) \<in> live \<Longrightarrow> free_pages_count p order s = Some s' \<Longrightarrow>
    pg_step zid (s, live) (s', live - {(order, p)})"

inductive_cases pg_stepE: "pg_step zid (s, live) (s', live')"

inductive pg_reach :: "nat \<Rightarrow> pgalloc \<Rightarrow> pgalloc \<times> (nat \<times> nat) set \<Rightarrow> bool"
  for zid :: nat and s0 :: pgalloc where
  start: "pg_reach zid s0 (s0, {})"
| step: "pg_reach zid s0 st \<Longrightarrow> pg_step zid st st' \<Longrightarrow> pg_reach zid s0 st'"

text \<open>The pages of a zone as seen by the callers: owner zone and reservation.\<close>

definition zone_pages_ok :: "nat \<Rightarrow> pgalloc \<Rightarrow> nat set \<Rightarrow> bool" where
  "zone_pages_ok zid s P \<longleftrightarrow>
     (\<forall>q \<in> P. pg_zone (mem_map s (z_offset (zone_at zid s) + q)) = zid \<and>
        \<not> PageReserved (mem_map s (z_offset (zone_at zid s) + q)))"

definition lblk :: "nat \<Rightarrow> nat \<times> nat \<Rightarrow> nat set" where
  "lblk off x = blk (fst x) (snd x - off)"

definition live_ok :: "nat \<Rightarrow> pgalloc \<Rightarrow> nat \<times> nat \<Rightarrow> bool" where
  "live_ok zid s x \<longleftrightarrow> fst x < MAX_ORDER \<and> z_offset (zone_at zid s) \<le> snd x \<and>
     2 ^ fst x dvd snd x - z_offset (zone_at zid s) \<and> pg_count (mem_map s (snd x)) = 1 \<and>
     lblk (z_offset (zone_at zid s)) x \<subseteq> {..<z_size (zone_at zid s)}"

definition pg_inv :: "nat \<Rightarrow> nat set \<Rightarrow> pgalloc \<Rightarrow> (nat \<times> nat) set \<Rightarrow> bool" where
  "pg_inv zid F s live \<longleftrightarrow>
     (let off = z_offset (zone_at zid s)
      in zinv (zone_at zid s) \<and> zone_pages_ok zid s F \<and>
         (\<forall>x \<in> live. live_ok zid s x) \<and>
         (\<forall>x \<in> live. \<forall>y \<in> live. x = y \<or> lblk off x \<inter> lblk off y = {}) \<and>
         \<Union> (lblk off ` live) \<inter> free_set (zone_at zid s) = {} \<and>
         \<Union> (lblk off ` live) \<union> free_set (zone_at zid s) = F)"

lemma start_in_lblk: "snd x - off \<in> lblk off x"
  by (simp add: lblk_def blk_nonempty)

lemma pg_inv_alloc [inv_pres]:
  assumes inv: "pg_inv zid F s live" and order: "order < MAX_ORDER"
    and r: "rmqueue zid order s = (Some p, s')"
  shows "pg_inv zid F s' (insert (order, p) live)"
proof -
  let ?z = "zone_at zid s" and ?z' = "zone_at zid s'" and ?off = "z_offset (zone_at zid s)"
  have zi: "zinv ?z" and zp: "zone_pages_ok zid s F" and lo: "\<forall>x \<in> live. live_ok zid s x"
    and dj: "\<forall>x \<in> live. \<forall>y \<in> live. x = y \<or> lblk ?off x \<inter> lblk ?off y = {}"
    and lf: "\<Union> (lblk ?off ` live) \<inter> free_set ?z = {}" "\<Union> (lblk ?off ` live) \<union> free_set ?z = F"
    using inv by (simp_all add: pg_inv_def Let_def)
  obtain q where q: "p = ?off + q" "2 ^ order dvd q" "blk order q \<subseteq> free_set ?z" "zinv ?z'"
    "free_set ?z' = free_set ?z - blk order q" "same_zone ?z ?z'" "pg_count (mem_map s' p) = 1"
    "mem_map s' = (mem_map s)(p := (mem_map s p)\<lparr>pg_count := 1\<rparr>)"
    using rmqueue_Some [OF zi r] by blast
  have off: "z_offset ?z' = ?off" "z_size ?z' = z_size ?z" using q(6) by (simp_all add: same_zone_def)
  have me: "lblk ?off (order, p) = blk order q" by (simp add: lblk_def q(1))
  have "free_set ?z \<subseteq> {..<z_size ?z}" using zi free_set_bound by (simp add: zinv_def zwf_def)
  then have "live_ok zid s' (order, p)"
    using q(1-3,7) order me off by (auto simp: live_ok_def)
  moreover have "live_ok zid s' x" if "x \<in> live" for x
    using lo that off by (auto simp: live_ok_def q(8))
  moreover have "zone_pages_ok zid s' F" using zp off by (auto simp: zone_pages_ok_def q(8))
  moreover have sep: "lblk ?off x \<inter> blk order q = {}" if "x \<in> live" for x using that lf(1) q(3) by blast
  moreover have "\<forall>x \<in> insert (order, p) live. \<forall>y \<in> insert (order, p) live.
      x = y \<or> lblk ?off x \<inter> lblk ?off y = {}"
    using dj sep by (auto simp: me Int_commute)
  moreover have "\<Union> (lblk ?off ` insert (order, p) live) \<inter> free_set ?z' = {}"
    using lf(1) by (auto simp: me q(5))
  moreover have "\<Union> (lblk ?off ` insert (order, p) live) \<union> free_set ?z' = F"
    using lf(2) q(3) by (auto simp: me q(5))
  ultimately show ?thesis using q(4) by (simp add: pg_inv_def Let_def off)
qed

lemma pg_inv_release [inv_pres]:
  assumes inv: "pg_inv zid F s live" and x: "(order, p) \<in> live"
  shows "\<exists>s'. free_pages_count p order s = Some s' \<and> pg_inv zid F s' (live - {(order, p)})"
proof -
  let ?z = "zone_at zid s" and ?off = "z_offset (zone_at zid s)"
  define q where "q = p - ?off"
  have zi: "zinv ?z" and zp: "zone_pages_ok zid s F" and lo: "\<forall>x \<in> live. live_ok zid s x"
    and dj: "\<forall>x \<in> live. \<forall>y \<in> live. x = y \<or> lblk ?off x \<inter> lblk ?off y = {}"
    and lf: "\<Union> (lblk ?off ` live) \<inter> free_set ?z = {}" "\<Union> (lblk ?off ` live) \<union> free_set ?z = F"
    using inv by (simp_all add: pg_inv_def Let_def)
  have me: "lblk ?off (order, p) = blk order q" by (simp add: lblk_def q_def)
  have ok: "order < MAX_ORDER" "p = ?off + q" "2 ^ order dvd q" "pg_count (mem_map s p) = 1"
    "blk order q \<subseteq> {..<z_size ?z}"
    using lo x me by (auto simp: live_ok_def q_def)
  have bd: "q + 2 ^ order \<le> z_size ?z"
  proof -
    define n :: nat where "n = 2 ^ order - 1"
    have n: "2 ^ order = Suc n" by (simp add: n_def)
    have "q + n \<in> blk order q" by (simp add: in_blk n)
    then show ?thesis using ok(5) n by auto
  qed
  have "q \<in> F" using x lf(2) me blk_nonempty [of q order] by blast
  then have page: "pg_zone (mem_map s p) = zid" "\<not> PageReserved (mem_map s p)"
    using zp ok(2) by (auto simp: zone_pages_ok_def)
  have new: "blk order q \<inter> free_set ?z = {}" using lf(1) x me by blast
  obtain s' where r: "free_pages_count p order s = Some s'" "zinv (zone_at zid s')"
    "free_set (zone_at zid s') = free_set ?z \<union> blk order q" "same_zone ?z (zone_at zid s')"
    "mem_map s' = (mem_map s)(p := (mem_map s p)\<lparr>pg_count := 0,
       pg_flags := pg_flags (mem_map s p) AND NOT 5, pg_age := PAGE_AGE_START\<rparr>)"
    using free_pages_count_block [OF zi page(1) ok(2,1,3) bd new page(2) ok(4)] by blast
  have off: "z_offset (zone_at zid s') = ?off" "z_size (zone_at zid s') = z_size ?z"
    using r(4) by (simp_all add: same_zone_def)
  let ?live = "live - {(order, p)}"
  have sep: "lblk ?off y \<inter> blk order q = {}" if "y \<in> ?live" for y using dj x that me by auto
  have rest: "\<Union> (lblk ?off ` ?live) = \<Union> (lblk ?off ` live) - blk order q"
  proof -
    have "\<Union> (lblk ?off ` live) = \<Union> (lblk ?off ` ?live) \<union> blk order q" using x me by blast
    moreover have "\<Union> (lblk ?off ` ?live) \<inter> blk order q = {}" using sep by blast
    ultimately show ?thesis by blast
  qed
  have "snd y \<noteq> p" if "y \<in> ?live" for y
    using sep [OF that] start_in_lblk [of y ?off] by (auto simp: blk_nonempty q_def)
  then have "live_ok zid s' y" if "y \<in> ?live" for y
    using lo that off by (auto simp: live_ok_def r(5))
  moreover have "zone_pages_ok zid s' F" using zp off by (auto simp: zone_pages_ok_def r(5))
  moreover have "\<Union> (lblk ?off ` ?live) \<inter> (free_set ?z \<union> blk order q) = {}"
    using lf(1) rest by blast
  moreover have "\<Union> (lblk ?off ` ?live) \<union> (free_set ?z \<union> blk order q) = F"
    using lf(2) rest x me by blast
  ultimately have "pg_inv zid F s' ?live"
    using r(2,3) dj by (simp add: pg_inv_def Let_def off)
  with r(1) show ?thesis by blast
qed

lemma pg_reach_inv:
  assumes "pg_inv zid F s0 {}" "pg_reach zid s0 (s, live)"
  shows "pg_inv zid F s live"
  using assms(2)
proof (induction "(s, live)" arbitrary: s live rule: pg_reach.induct)
  case start
  then show ?case using assms(1) by simp
next
  case (step st s' live')
  obtain s live where st: "st = (s, live)" by (cases st)
  have inv: "pg_inv zid F s live" by (rule step.hyps(2)) (rule st)
  from step.hyps(3) show ?case unfolding st
  proof (rule pg_stepE)
    fix order p
    assume "live' = insert (order, p) live" "order < MAX_ORDER" "rmqueue zid order s = (Some p, s')"
    then show ?thesis using pg_inv_alloc [OF inv] by simp
  next
    fix order p
    assume "live' = live - {(order, p)}" "(order, p) \<in> live" "free_pages_count p order s = Some s'"
    then show ?thesis using pg_inv_release [OF inv, of order p] by simp
  qed
qed

end
