(* ===== verification/Bootmem.thy ===== *)
theory Bootmem
  imports Buddy_Inv
begin

text \<open>
  Bring-up of the page allocator: the boot-time reservation map and the hand-over of the unreserved
  pages to the buddy allocator (\<^verbatim>\<open>src/mm/bootmem.c\<close>, \<open>mem_init\<close> and \<open>paging_init\<close> of
  \<^verbatim>\<open>src/arch/arm/init.c\<close>, the memory layout of \<^verbatim>\<open>src/kernel/config.c\<close>), and the properties of
  the page allocator.
\<close>

section \<open>Reservation map\<close>

record bootmem =
  node_boot_start :: u32
  node_low_pfn :: u32
  node_bootmem_map :: bmap

primrec reserve_loop :: "nat \<Rightarrow> nat \<Rightarrow> bmap \<Rightarrow> bmap" where
  "reserve_loop 0 i mp = mp"
| "reserve_loop (Suc n) i mp = reserve_loop n (Suc i) (snd (test_and_set_bit i mp))"

definition reserve_bootmem_core :: "u32 \<Rightarrow> u32 \<Rightarrow> bootmem \<Rightarrow> bootmem" where
  "reserve_bootmem_core addr sz bdata =
     (let sidx = unat ((addr - node_boot_start bdata) div 4096);
          eidx = unat ((addr + sz - node_boot_start bdata + 4096 - 1) div 4096)
      in bdata\<lparr>node_bootmem_map := reserve_loop (eidx - sidx) sidx (node_bootmem_map bdata)\<rparr>)"

text \<open>The byte map read as \<^verbatim>\<open>long\<close>s on the little-endian target.\<close>

definition longs_of :: "bmap \<Rightarrow> longs" where
  "longs_of mp i =
     (if i < 0 then 0
      else ucast (mp (4 * nat i)) OR push_bit 8 (ucast (mp (4 * nat i + 1))) OR
           push_bit 16 (ucast (mp (4 * nat i + 2))) OR push_bit 24 (ucast (mp (4 * nat i + 3))))"

section \<open>Handing over the free pages\<close>

definition ClearPageReserved :: "page \<Rightarrow> page" where
  "ClearPageReserved pg = pg\<lparr>pg_flags := snd (clear_bit (int PG_reserved) (page_words pg)) 0\<rparr>"

primrec free_all_loop :: "nat \<Rightarrow> nat \<Rightarrow> bmap \<Rightarrow> pgalloc \<Rightarrow> nat \<Rightarrow> (nat \<times> pgalloc) option" where
  "free_all_loop 0 i mp s count = Some (count, s)"
| "free_all_loop (Suc n) i mp s count =
     (if \<not> test_bit (int i) (longs_of mp)
      then let s1 = s\<lparr>mem_map := (mem_map s)(i := ClearPageReserved (mem_map s i))\<rparr>;
               s2 = s1\<lparr>mem_map := (mem_map s1)(i := (mem_map s1 i)\<lparr>pg_count := 1\<rparr>)\<rparr>
           in case free_pages_count i 0 s2 of
                None \<Rightarrow> None
              | Some s3 \<Rightarrow> free_all_loop n (Suc i) mp s3 (Suc count)
      else free_all_loop n (Suc i) mp s count)"

definition free_all_bootmem_core :: "bootmem \<Rightarrow> pgalloc \<Rightarrow> (nat \<times> pgalloc) option" where
  "free_all_bootmem_core bdata s =
     (let idx = unat (node_low_pfn bdata - drop_bit 12 (node_boot_start bdata))
      in free_all_loop idx 0 (node_bootmem_map bdata) s 0)"

fun reserve_areas :: "(u32 \<times> u32) list \<Rightarrow> bootmem \<Rightarrow> bootmem" where
  "reserve_areas [] bdata = bdata"
| "reserve_areas ((start, sz) # ra) bdata = reserve_areas ra (reserve_bootmem_core start sz bdata)"

text \<open>\<open>mem_init\<close> up to the hand-over; the zero page is then one \<open>alloc_page\<close>.\<close>

definition mem_init :: "u32 \<Rightarrow> u32 \<Rightarrow> (u32 \<times> u32) list \<Rightarrow> pgalloc \<Rightarrow> (nat \<times> nat option \<times> pgalloc) option" where
  "mem_init START END ra s =
     (let bdata = \<lparr>node_boot_start = START, node_low_pfn = drop_bit 12 END, node_bootmem_map = \<lambda>_. 0\<rparr>;
          s1 = s\<lparr>max_mapnr := unat (node_low_pfn bdata)\<rparr>
      in case free_all_bootmem_core (reserve_areas ra bdata) s1 of
           None \<Rightarrow> None
         | Some (totalram_pages, s2) \<Rightarrow>
             (case alloc_pages 7 0 s2 of (zero_page, s3) \<Rightarrow> Some (totalram_pages, zero_page, s3)))"

definition paging_init :: "u32 \<Rightarrow> pgalloc \<Rightarrow> pgalloc" where
  "paging_init phy_memory_size s =
     free_area_init_core [0, unat (drop_bit 12 phy_memory_size), 0] s"

section \<open>Effects\<close>

lemma tst_reserve_loop: "tst (reserve_loop n i mp) j \<longleftrightarrow> tst mp j \<or> i \<le> j \<and> j < i + n"
  by (induction n arbitrary: i mp) (auto simp: test_and_set_bit_tst)

lemma bit_ucast_byte: "bit (ucast (b :: byte) :: u32) k \<longleftrightarrow> bit b k"
  using bit_imp_le_length [of b k] by (auto simp: bit_unsigned_iff)

lemma bit_byte_high: "8 \<le> k \<Longrightarrow> \<not> bit (b :: byte) k"
  using bit_imp_le_length [of b k] by auto

lemma bit_longs_of4:
  "k < 32 \<Longrightarrow> bit (longs_of mp (int a)) k \<longleftrightarrow>
     bit (mp (4 * a)) k \<or> 8 \<le> k \<and> bit (mp (4 * a + 1)) (k - 8) \<or>
     16 \<le> k \<and> bit (mp (4 * a + 2)) (k - 16) \<or> 24 \<le> k \<and> bit (mp (4 * a + 3)) (k - 24)"
  by (simp add: longs_of_def bit_or_iff bit_push_bit_iff bit_ucast_byte)

lemma bit_longs_of:
  assumes "c < 4" "d < 8"
  shows "bit (longs_of mp (int a)) (8 * c + d) = bit (mp (4 * a + c)) d"
proof -
  consider "c = 0" | "c = 1" | "c = 2" | "c = 3" using assms(1) by linarith
  then show ?thesis
  proof cases
    case 1 then show ?thesis using assms(2) by (simp add: bit_longs_of4 bit_byte_high)
  next
    case 2 then show ?thesis using assms(2) by (simp add: bit_longs_of4 bit_byte_high)
  next
    case 3 then show ?thesis using assms(2) by (simp add: bit_longs_of4 bit_byte_high)
  next
    case 4 then show ?thesis using assms(2) by (simp add: bit_longs_of4 bit_byte_high)
  qed
qed

lemma wtst_longs_of: "wtst (longs_of mp) (int n) = tst mp n"
proof -
  define a c d where "a = n div 32" and "c = n div 8 mod 4" and "d = n mod 8"
  have cd: "c < 4" "d < 8" by (simp_all add: c_def d_def)
  have n8: "n div 8 = 4 * a + c" unfolding a_def c_def
    using div_mult_mod_eq [of "n div 8" 4] div_mult2_eq [of n 8 4] by simp
  have n: "n = 32 * a + (8 * c + d)" using n8 mult_div_mod_eq [of 8 n] by (simp add: d_def)
  have "8 * c + d < 32" using cd by linarith
  then have "n mod 32 = 8 * c + d" using n by simp
  then have "nat (int n mod 32) = 8 * c + d" by (simp add: nat_mod_distrib)
  moreover have "int n div 32 = int a" by (simp add: a_def zdiv_int)
  ultimately show ?thesis
    using bit_longs_of [OF cd, of mp a] n8 by (simp add: wtst_def tst_def d_def)
qed


lemma ClearPageReserved_sel [simp]:
  "\<not> PageReserved (ClearPageReserved pg)" "pg_zone (ClearPageReserved pg) = pg_zone pg"
proof -
  let ?w = "snd (clear_bit 29 (page_words pg))"
  have "wtst ?w 29 = False" by (simp add: clear_bit_wtst)
  then have "\<not> bit (?w 0) 29" by (simp add: wtst_def)
  then show "\<not> PageReserved (ClearPageReserved pg)"
    by (simp add: PageReserved_bit ClearPageReserved_def PG_reserved_def)
qed (simp add: ClearPageReserved_def)

lemma free_all_loop_ok:
  assumes "zinv (zone_at zid s)" "z_offset (zone_at zid s) = 0" "i + n \<le> z_size (zone_at zid s)"
    and "\<And>j. j < z_size (zone_at zid s) \<Longrightarrow> pg_zone (mem_map s j) = zid"
    and "free_set (zone_at zid s) \<subseteq> {..<i}" "zone_pages_ok zid s (free_set (zone_at zid s))"
  shows "\<exists>s'. free_all_loop n i mp s c = Some (c + card {j. i \<le> j \<and> j < i + n \<and> \<not> tst mp j}, s') \<and>
     zinv (zone_at zid s') \<and>
     free_set (zone_at zid s') = free_set (zone_at zid s) \<union> {j. i \<le> j \<and> j < i + n \<and> \<not> tst mp j} \<and>
     same_zone (zone_at zid s) (zone_at zid s') \<and> zone_pages_ok zid s' (free_set (zone_at zid s'))"
  using assms
proof (induction n arbitrary: i s c)
  case 0
  then show ?case by auto
next
  case (Suc n)
  let ?P = "\<lambda>i n. {j. i \<le> j \<and> j < i + n \<and> \<not> tst mp j}"
  show ?case
  proof (cases "tst mp i")
    case True
    then have "?P i (Suc n) = ?P (Suc i) n" by (auto simp: Suc_le_eq order_le_less)
    moreover have "free_set (zone_at zid s) \<subseteq> {..<Suc i}" using Suc.prems(5) by auto
    ultimately show ?thesis
      using Suc.IH [of s "Suc i" c] Suc.prems True by (simp add: wtst_longs_of)
  next
    case False
    let ?pg = "(ClearPageReserved (mem_map s i))\<lparr>pg_count := 1\<rparr>"
    let ?s = "s\<lparr>mem_map := (mem_map s)(i := ?pg)\<rparr>"
    have i: "i < z_size (zone_at zid s)" using Suc.prems(3) by simp
    have blk0: "blk 0 i = {i}" by (auto simp: in_blk)
    have new: "blk 0 i \<inter> free_set (zone_at zid ?s) = {}" using Suc.prems(5) by (auto simp: blk0)
    have "\<exists>s'. free_pages_count i 0 ?s = Some s' \<and> zinv (zone_at zid s') \<and>
       free_set (zone_at zid s') = free_set (zone_at zid ?s) \<union> blk 0 i \<and>
       same_zone (zone_at zid ?s) (zone_at zid s') \<and>
       mem_map s' = (mem_map ?s)(i := (mem_map ?s i)\<lparr>pg_count := 0,
         pg_flags := pg_flags (mem_map ?s i) AND NOT 5, pg_age := PAGE_AGE_START\<rparr>)"
      by (rule free_pages_count_block [where q = i])
        (use Suc.prems(1-4) i new in \<open>simp_all add: MAX_ORDER_def\<close>)
    then obtain s1 where s1: "free_pages_count i 0 ?s = Some s1" "zinv (zone_at zid s1)"
       "free_set (zone_at zid s1) = insert i (free_set (zone_at zid s))"
       "same_zone (zone_at zid s) (zone_at zid s1)"
       "mem_map s1 = (mem_map s)(i := ?pg\<lparr>pg_count := 0, pg_flags := pg_flags ?pg AND NOT 5, pg_age := PAGE_AGE_START\<rparr>)"
      by (auto simp: blk0)
    have sz: "z_size (zone_at zid s1) = z_size (zone_at zid s)" "z_offset (zone_at zid s1) = 0"
      using s1(4) Suc.prems(2) by (simp_all add: same_zone_def)
    have zp: "zone_pages_ok zid s1 (free_set (zone_at zid s1))"
      using Suc.prems(2,4,6) i sz by (auto simp: zone_pages_ok_def s1(3,5))
    have step: "free_all_loop (Suc n) i mp s c = free_all_loop n (Suc i) mp s1 (Suc c)"
      using False s1(1) by (simp add: wtst_longs_of Let_def)
    have split: "?P i (Suc n) = insert i (?P (Suc i) n)" "i \<notin> ?P (Suc i) n" "finite (?P (Suc i) n)"
      using False by (auto simp: Suc_le_eq order_le_less)
    have pgz: "pg_zone (mem_map s1 j) = zid" if "j < z_size (zone_at zid s1)" for j
      using Suc.prems(4) that sz i by (simp add: s1(5))
    have sub: "free_set (zone_at zid s1) \<subseteq> {..<Suc i}" using Suc.prems(5) by (auto simp: s1(3))
    have bd: "Suc i + n \<le> z_size (zone_at zid s1)" using Suc.prems(3) sz by simp
    obtain s' where r: "free_all_loop n (Suc i) mp s1 (Suc c) = Some (Suc c + card (?P (Suc i) n), s')"
       "zinv (zone_at zid s')"
       "free_set (zone_at zid s') = free_set (zone_at zid s1) \<union> ?P (Suc i) n"
       "same_zone (zone_at zid s1) (zone_at zid s')" "zone_pages_ok zid s' (free_set (zone_at zid s'))"
      using Suc.IH [OF s1(2) sz(2) bd pgz sub zp, of "Suc c"] by blast
    show ?thesis
      using r step split s1(3) same_zone_trans [OF s1(4) r(4)] by auto
  qed
qed


lemma zinv_init_zone: "sz < 2 ^ 31 \<Longrightarrow> zinv (init_zone j off sz)" "free_set (init_zone j off sz) = {}"
  by (simp_all add: zinv_def zwf_def blocks_ok_def maps_ok_def blocks_def mem_def free_set_def
      init_zone_def tst_def)

lemma paging_init_zone:
  "zone_at ZONE_NORMAL (paging_init phys s) = init_zone 1 0 (unat (drop_bit 12 phys))"
  "j < unat (drop_bit 12 phys) \<Longrightarrow> pg_zone (mem_map (paging_init phys s) j) = ZONE_NORMAL"
  by (simp_all add: paging_init_def free_area_init_core_def Let_def ZONE_NORMAL_def MAX_NR_ZONES_def
      numeral_3_eq_3 numeral_2_eq_2 init_page_def zone_of_page_def)

definition area_covers :: "u32 \<Rightarrow> u32 \<times> u32 \<Rightarrow> nat \<Rightarrow> bool" where
  "area_covers START a j \<longleftrightarrow>
     unat ((fst a - START) div 4096) \<le> j \<and> j < unat ((fst a + snd a - START + 4096 - 1) div 4096)"

definition unreserved :: "u32 \<Rightarrow> (u32 \<times> u32) list \<Rightarrow> nat \<Rightarrow> nat set" where
  "unreserved START ra n = {j. j < n \<and> \<not> (\<exists>a \<in> set ra. area_covers START a j)}"

definition boot_data :: "u32 \<Rightarrow> u32 \<Rightarrow> bootmem" where
  "boot_data START END =
     \<lparr>node_boot_start = START, node_low_pfn = drop_bit 12 END, node_bootmem_map = \<lambda>_. 0\<rparr>"

lemma tst_reserve_areas:
  "tst (node_bootmem_map (reserve_areas ra bd)) j \<longleftrightarrow>
     tst (node_bootmem_map bd) j \<or> (\<exists>a \<in> set ra. area_covers (node_boot_start bd) a j)"
  "node_boot_start (reserve_areas ra bd) = node_boot_start bd"
  "node_low_pfn (reserve_areas ra bd) = node_low_pfn bd"
proof (induction ra bd rule: reserve_areas.induct)
  case (2 start sz ra bd)
  {
    case 1
    show ?case using 2(1)
      by (auto simp: reserve_bootmem_core_def Let_def tst_reserve_loop area_covers_def)
  next
    case 2
    show ?case using "2.IH"(2) by (simp add: reserve_bootmem_core_def Let_def)
  next
    case 3
    show ?case using "2.IH"(3) by (simp add: reserve_bootmem_core_def Let_def)
  }
qed simp_all


section \<open>Properties\<close>

definition demo_zone :: zone where
  "demo_zone = (memlist_add_head 9 0 (init_zone 1 0 1024))\<lparr>z_free_pages := 512\<rparr>"

definition demo_pg :: pgalloc where
  "demo_pg = \<lparr>mem_map = (\<lambda>_. \<lparr>pg_count = 0, pg_flags = 0, pg_age = 0, pg_zone = 1\<rparr>),
     node_zones = (\<lambda>_. demo_zone), node_zonelists = (\<lambda>_. [1]), memory_pressure = 0,
     max_mapnr = 1024, ram = (\<lambda>_. 1), null_va = 0x1000\<rparr>"

lemma demo_zone_inv: "zinv demo_zone" "free_set demo_zone = {0..<512}"
  "z_offset demo_zone = 0" "z_size demo_zone = 1024"
proof -
  let ?z = "init_zone 1 0 1024" and ?z1 = "memlist_add_head 9 0 (init_zone 1 0 1024)"
  have z: "zinv ?z" by (rule zinv_init_zone) simp
  have e: "free_set ?z = {}" "blocks_ok ?z" "maps_ok ?z"
    using z by (simp_all add: zinv_init_zone(2) zinv_def zwf_def)
  have "z_size ?z = 1024" by (simp add: init_zone_def)
  note e = e this
  have "free_list demo_zone = free_list ?z1" "z_size demo_zone = z_size ?z1" "z_map demo_zone = z_map ?z"
    by (simp_all add: demo_zone_def)
  note d = this
  have "blocks_ok ?z1" using e by (intro blocks_ok_add) (simp_all add: MAX_ORDER_def)
  then have b: "blocks_ok demo_zone" using blocks_ok_cong [OF d(1,2)] by simp
  have m: "maps_ok demo_zone"
    using e(3) by (simp add: maps_ok_def mem_def d MAX_ORDER_def)
  show f: "free_set demo_zone = {0..<512}"
    using free_set_cong [OF d(1)] free_set_add [of 9 0 ?z] e(1) by (simp add: blk_def)
  show "zinv demo_zone"
    using b m f e(4) by (simp add: zinv_def zwf_def) (simp add: demo_zone_def)
  show "z_offset demo_zone = 0" "z_size demo_zone = 1024"
    by (simp_all add: demo_zone_def init_zone_def)
qed

lemma demo_pg_ok: "zinv (zone_at 1 demo_pg)"
  "zone_pages_ok 1 demo_pg (free_set (zone_at 1 demo_pg))"
  by (simp_all add: demo_pg_def demo_zone_inv zone_pages_ok_def PageReserved_bit)

lemma demo_alloc: "fst (rmqueue 1 3 demo_pg) = Some 504"
  by (simp add: rmqueue_def rmqueue_loop.simps demo_pg_def demo_zone_def init_zone_def MAX_ORDER_def
      memlist_add_head_def memlist_del_def MARK_USED_def Let_def numeral_eq_Suc)


text \<open>
  C1. No page is handed out twice. From a zone whose invariant holds, after any sequence of block
  allocations (\<open>rmqueue\<close>) and releases of live blocks (\<open>__free_pages\<close>), the blocks that callers
  hold are pairwise disjoint, disjoint from the free pages, and together with the free pages they
  are exactly the pages that were free at the start; \<open>free_pages\<close> counts the free ones.
\<close>

theorem live_blocks_disjoint:
  assumes "zinv (zone_at zid s0)" "zone_pages_ok zid s0 (free_set (zone_at zid s0))"
    and "pg_reach zid s0 (s, live)"
  shows "(\<forall>x \<in> live. \<forall>y \<in> live. x = y \<or>
       lblk (z_offset (zone_at zid s)) x \<inter> lblk (z_offset (zone_at zid s)) y = {}) \<and>
     \<Union> (lblk (z_offset (zone_at zid s)) ` live) \<inter> free_set (zone_at zid s) = {} \<and>
     \<Union> (lblk (z_offset (zone_at zid s)) ` live) \<union> free_set (zone_at zid s) = free_set (zone_at zid s0) \<and>
     z_free_pages (zone_at zid s) = of_nat (card (free_set (zone_at zid s)))"
proof -
  have "pg_inv zid (free_set (zone_at zid s0)) s0 {}" using assms(1,2) by (simp add: pg_inv_def Let_def)
  from pg_reach_inv [OF this assms(3)] show ?thesis by (simp add: pg_inv_def Let_def zinv_def)
qed

lemma demo_reach: "pg_reach 1 demo_pg (snd (rmqueue 1 3 demo_pg), {(3, 504)})"
proof (rule pg_reach.step [OF pg_reach.start])
  have "rmqueue 1 3 demo_pg = (Some 504, snd (rmqueue 1 3 demo_pg))"
    using demo_alloc by (metis prod.collapse)
  then show "pg_step 1 (demo_pg, {}) (snd (rmqueue 1 3 demo_pg), {(3, 504)})"
    by (rule pg_step.alloc [rotated]) (simp add: MAX_ORDER_def)
qed

theorem live_blocks_disjoint_witness:
  "pg_reach 1 demo_pg (snd (rmqueue 1 3 demo_pg), {(3, 504)}) \<and>
   \<Union> (lblk (z_offset (zone_at 1 (snd (rmqueue 1 3 demo_pg)))) ` {(3, 504)}) \<union>
     free_set (zone_at 1 (snd (rmqueue 1 3 demo_pg))) = free_set (zone_at 1 demo_pg)"
  using live_blocks_disjoint [OF demo_pg_ok demo_reach] demo_reach by simp

text \<open>
  C6. Allocation fails only for lack of memory. \<open>rmqueue\<close> finds no block of an order exactly when
  the zone has no aligned run of that many free pages: buddies are merged eagerly enough that a free
  run is never hidden by fragmentation of the lists.
\<close>

theorem rmqueue_fails_iff_no_run:
  assumes "zinv (zone_at zid s)" "order < MAX_ORDER"
  shows "fst (rmqueue zid order s) = None \<longleftrightarrow>
     \<not> (\<exists>i. 2 ^ order dvd i \<and> blk order i \<subseteq> free_set (zone_at zid s))"
  using assms by (rule rmqueue_None)

theorem rmqueue_fails_iff_no_run_witness:
  "fst (rmqueue 1 3 demo_pg) = None \<longleftrightarrow>
     \<not> (\<exists>i. 2 ^ 3 dvd i \<and> blk 3 i \<subseteq> free_set (zone_at 1 demo_pg))"
  by (rule rmqueue_fails_iff_no_run) (use demo_pg_ok in \<open>simp_all add: MAX_ORDER_def\<close>)

text \<open>
  C10. Round trip. Freeing the block that \<open>rmqueue\<close> just returned succeeds, gives back exactly the
  free pages there were before, and keeps the invariant, whatever splitting and merging happened on
  the way.
\<close>

theorem alloc_free_round_trip:
  assumes "zinv (zone_at zid s)" "zone_pages_ok zid s (free_set (zone_at zid s))"
    and "order < MAX_ORDER" "rmqueue zid order s = (Some p, s')"
  shows "\<exists>s''. free_pages_count p order s' = Some s'' \<and> zinv (zone_at zid s'') \<and>
     free_set (zone_at zid s'') = free_set (zone_at zid s)"
proof -
  let ?F = "free_set (zone_at zid s)"
  have "pg_inv zid ?F s {}" using assms(1,2) by (simp add: pg_inv_def Let_def)
  then have "pg_inv zid ?F s' {(order, p)}" by (rule pg_inv_alloc [OF _ assms(3,4)])
  then obtain s'' where "free_pages_count p order s' = Some s''" "pg_inv zid ?F s'' {}"
    using pg_inv_release [of zid ?F s' "{(order, p)}" order p] by auto
  then show ?thesis by (auto simp: pg_inv_def Let_def)
qed

theorem alloc_free_round_trip_witness:
  "\<exists>s''. free_pages_count 504 3 (snd (rmqueue 1 3 demo_pg)) = Some s'' \<and> zinv (zone_at 1 s'') \<and>
     free_set (zone_at 1 s'') = free_set (zone_at 1 demo_pg)"
  by (rule alloc_free_round_trip [where order = 3, OF demo_pg_ok])
    (use demo_alloc in \<open>simp_all add: MAX_ORDER_def prod_eq_iff\<close>)

text \<open>
  C24. Bring-up. When the boot map has as many pages as \<open>paging_init\<close> set up,
  \<open>free_all_bootmem_core\<close> after the reservations of \<open>mem_init\<close> returns, the free pages are exactly
  the pages no reserved area touches, and the returned total is their number.
\<close>

theorem bootmem_hands_over:
  assumes "unat (drop_bit 12 END - drop_bit 12 START) = unat (drop_bit 12 phys)"
  shows "\<exists>s'. free_all_bootmem_core (reserve_areas ra (boot_data START END)) (paging_init phys s) =
       Some (card (unreserved START ra (unat (drop_bit 12 phys))), s') \<and>
     zinv (zone_at ZONE_NORMAL s') \<and>
     free_set (zone_at ZONE_NORMAL s') = unreserved START ra (unat (drop_bit 12 phys)) \<and>
     z_free_pages (zone_at ZONE_NORMAL s') = of_nat (card (unreserved START ra (unat (drop_bit 12 phys))))"
proof -
  let ?bd = "boot_data START END"
  define F where "F = unreserved START ra (unat (drop_bit 12 phys))"
  let ?s = "paging_init phys s" and ?n = "unat (drop_bit 12 phys)"
  let ?mp = "node_bootmem_map (reserve_areas ra ?bd)"
  note z = paging_init_zone(1) [of phys s]
  have n: "?n < 2 ^ 31"
  proof -
    have "?n = unat phys div 4096" by (simp add: unat_drop_bit_eq drop_bit_eq_div unat_div)
    then show ?thesis using unat_le_max_word32 [of phys] by simp
  qed
  have "tst (\<lambda>_. 0) j = False" for j by (simp add: tst_def)
  then have F: "{j. 0 \<le> j \<and> j < 0 + ?n \<and> \<not> tst ?mp j} = F"
    by (auto simp: F_def unreserved_def boot_data_def tst_reserve_areas)
  have "\<exists>s'. free_all_loop ?n 0 ?mp ?s 0 = Some (0 + card {j. 0 \<le> j \<and> j < 0 + ?n \<and> \<not> tst ?mp j}, s') \<and>
     zinv (zone_at ZONE_NORMAL s') \<and>
     free_set (zone_at ZONE_NORMAL s') = free_set (zone_at ZONE_NORMAL ?s) \<union> {j. 0 \<le> j \<and> j < 0 + ?n \<and> \<not> tst ?mp j} \<and>
     same_zone (zone_at ZONE_NORMAL ?s) (zone_at ZONE_NORMAL s') \<and>
     zone_pages_ok ZONE_NORMAL s' (free_set (zone_at ZONE_NORMAL s'))"
    by (rule free_all_loop_ok)
      (use z n zinv_init_zone(1) [OF n] zinv_init_zone(2) paging_init_zone(2) [of _ phys s] in
        \<open>simp_all add: zone_pages_ok_def\<close>; simp add: init_zone_def)+
  then show ?thesis
    using assms(1) z zinv_init_zone(2) unfolding F F_def [symmetric]
    by (auto simp: free_all_bootmem_core_def boot_data_def tst_reserve_areas zinv_def)
qed

theorem bootmem_hands_over_witness:
  "\<exists>s'. free_all_bootmem_core (reserve_areas [(0x30000000, 0x1000)] (boot_data 0x30000000 0x30004000))
        (paging_init 0x4000 demo_pg) =
      Some (card (unreserved 0x30000000 [(0x30000000, 0x1000)] (unat (drop_bit 12 (0x4000 :: u32)))), s') \<and>
    zinv (zone_at ZONE_NORMAL s') \<and>
    free_set (zone_at ZONE_NORMAL s') =
      unreserved 0x30000000 [(0x30000000, 0x1000)] (unat (drop_bit 12 (0x4000 :: u32))) \<and>
    z_free_pages (zone_at ZONE_NORMAL s') =
      of_nat (card (unreserved 0x30000000 [(0x30000000, 0x1000)] (unat (drop_bit 12 (0x4000 :: u32)))))"
  by (rule bootmem_hands_over) simp



end
