(* ===== verification/Slab.thy ===== *)
theory Slab
  imports Buddy Lib_List
begin

text \<open>
  The slab allocator (\<^verbatim>\<open>src/mm/slab.c\<close>, structures in \<^verbatim>\<open>src/include/slab.h\<close>) on top of the
  page allocator. A slab is named by the address of its \<open>slab_t\<close>; the ring of slabs of a cache is
  the list of its nodes, and \<open>firstnotfull\<close> is a node of the ring or its head (\<open>None\<close>). Every
  cache of the kernel is created without a constructor, so object construction only threads the
  free list. Statistics, debugging, per-CPU caches and the empty spin locks are compiled out.
\<close>

section \<open>State\<close>

definition BUFCTL_END :: u32 where "BUFCTL_END = 0xffffffff"
definition SLAB_LIMIT :: nat where "SLAB_LIMIT = 0xfffffffe"
definition CFLGS_OFF_SLAB :: u32 where "CFLGS_OFF_SLAB = 0x010000"
definition CFLGS_OPTIMIZE :: u32 where "CFLGS_OPTIMIZE = 0x020000"
definition DFLGS_GROWN :: u32 where "DFLGS_GROWN = 1"
definition SLAB_LEVEL_MASK :: u32 where "SLAB_LEVEL_MASK = 7"
definition SLAB_NO_GROW :: u32 where "SLAB_NO_GROW = 0x1000"
definition SLAB_NO_REAP :: u32 where "SLAB_NO_REAP = 0x1000"
definition SLAB_HWCACHE_ALIGN :: u32 where "SLAB_HWCACHE_ALIGN = 0x2000"
definition SLAB_CACHE_DMA :: u32 where "SLAB_CACHE_DMA = 0x4000"
definition GFP_DMA :: u32 where "GFP_DMA = 8"
definition GFP_KERNEL :: u32 where "GFP_KERNEL = 7"
definition MAX_GFP_ORDER :: nat where "MAX_GFP_ORDER = 5"
definition PAGE_SIZE :: nat where "PAGE_SIZE = 4096"
definition L1_CACHE_BYTES :: nat where "L1_CACHE_BYTES = 32"
definition SIZEOF_SLAB :: nat where "SIZEOF_SLAB = 24"
definition SIZEOF_BUFCTL :: nat where "SIZEOF_BUFCTL = 4"
definition BYTES_PER_WORD :: nat where "BYTES_PER_WORD = 4"

definition L1_CACHE_ALIGN :: "nat \<Rightarrow> nat" where
  "L1_CACHE_ALIGN x = (x + (L1_CACHE_BYTES - 1)) div L1_CACHE_BYTES * L1_CACHE_BYTES"

record slab =
  s_colouroff :: u32
  s_mem :: addr
  s_inuse :: u32
  s_free :: u32
  s_bufctl :: "nat \<Rightarrow> u32"

record kmem_cache =
  c_slabs :: "addr list"
  c_firstnotfull :: "addr option"
  c_objsize :: u32
  c_flags :: u32
  c_num :: u32
  c_gfporder :: nat
  c_gfpflags :: u32
  c_colour :: u32
  c_colour_off :: u32
  c_colour_next :: u32
  c_slabp_cache :: addr
  c_growing :: u32
  c_dflags :: u32
  c_failures :: u32
  c_name :: "byte list"

record slabst =
  pg :: pgalloc
  slab_at :: "addr \<Rightarrow> slab"
  cache_at :: "addr \<Rightarrow> kmem_cache"
  page_cache :: "nat \<Rightarrow> addr"
  page_slab :: "nat \<Rightarrow> addr"
  cache_chain :: "addr list"
  cache_sizes :: "(u32 \<times> addr) list"
  offslab_limit :: u32
  slab_break_gfp_order :: nat

abbreviation upd_slab :: "addr \<Rightarrow> (slab \<Rightarrow> slab) \<Rightarrow> slabst \<Rightarrow> slabst" where
  "upd_slab s f st \<equiv> st\<lparr>slab_at := (slab_at st)(s := f (slab_at st s))\<rparr>"

abbreviation upd_cache :: "addr \<Rightarrow> (kmem_cache \<Rightarrow> kmem_cache) \<Rightarrow> slabst \<Rightarrow> slabst" where
  "upd_cache c f st \<equiv> st\<lparr>cache_at := (cache_at st)(c := f (cache_at st c))\<rparr>"

section \<open>Positions in the ring of slabs\<close>

text \<open>The successor and predecessor of a position, and insertion before a position; the head of the
  ring is \<open>None\<close>.\<close>

fun ring_next :: "addr list \<Rightarrow> addr \<Rightarrow> addr option" where
  "ring_next [] s = None"
| "ring_next (x # xs) s = (if x = s then (case xs of [] \<Rightarrow> None | y # _ \<Rightarrow> Some y) else ring_next xs s)"

definition ring_head_next :: "addr list \<Rightarrow> addr option \<Rightarrow> addr option" where
  "ring_head_next xs p =
     (case p of None \<Rightarrow> (case xs of [] \<Rightarrow> None | x # _ \<Rightarrow> Some x) | Some s \<Rightarrow> ring_next xs s)"

definition ring_prev :: "addr list \<Rightarrow> addr option \<Rightarrow> addr option" where
  "ring_prev xs p =
     (case p of None \<Rightarrow> (if xs = [] then None else Some (last xs))
      | Some s \<Rightarrow> (let ys = takeWhile (\<lambda>x. x \<noteq> s) xs in if ys = [] then None else Some (last ys)))"

definition ring_insert_before :: "addr list \<Rightarrow> addr option \<Rightarrow> addr \<Rightarrow> addr list" where
  "ring_insert_before xs p s =
     (case p of None \<Rightarrow> xs @ [s]
      | Some t \<Rightarrow> takeWhile (\<lambda>x. x \<noteq> t) xs @ s # dropWhile (\<lambda>x. x \<noteq> t) xs)"

section \<open>Layout of a slab\<close>

partial_function (option) estimate_loop :: "nat \<Rightarrow> nat \<Rightarrow> nat \<Rightarrow> nat \<Rightarrow> nat \<Rightarrow> nat option" where
  "estimate_loop i sz base extra wastage =
     (if i * sz + L1_CACHE_ALIGN (base + i * extra) \<le> wastage
      then estimate_loop (Suc i) sz base extra wastage else Some i)"

text \<open>\<open>kmem_cache_estimate\<close> returns the pair \<open>(left_over, num)\<close>.\<close>

definition kmem_cache_estimate :: "nat \<Rightarrow> nat \<Rightarrow> u32 \<Rightarrow> (nat \<times> nat) option" where
  "kmem_cache_estimate gfporder sz flags =
     (let wastage = PAGE_SIZE * 2 ^ gfporder;
          base = (if flags AND CFLGS_OFF_SLAB = 0 then SIZEOF_SLAB else 0);
          extra = (if flags AND CFLGS_OFF_SLAB = 0 then SIZEOF_BUFCTL else 0)
      in map_option
           (\<lambda>i0. let i1 = (if i0 > 0 then i0 - 1 else i0);
                     i = (if i1 > SLAB_LIMIT then SLAB_LIMIT else i1)
                 in (wastage - i * sz - L1_CACHE_ALIGN (base + i * extra), i))
           (estimate_loop 0 sz base extra wastage))"

text \<open>The order search of \<open>kmem_cache_create\<close>: \<open>(gfporder, left_over, num)\<close>. Stepping back from
  order 0 would shift by a negative amount: \<open>None\<close>.\<close>

function choose_order :: "nat \<Rightarrow> nat \<Rightarrow> u32 \<Rightarrow> u32 \<Rightarrow> nat \<Rightarrow> (nat \<times> nat \<times> nat) option" where
  "choose_order gfporder sz flags limit brk =
     (case kmem_cache_estimate gfporder sz flags of
        None \<Rightarrow> None
      | Some (left_over, num) \<Rightarrow>
          if gfporder \<ge> MAX_GFP_ORDER then Some (gfporder, left_over, num)
          else if num = 0 then choose_order (Suc gfporder) sz flags limit brk
          else if flags AND CFLGS_OFF_SLAB \<noteq> 0 \<and> num > unat limit then
            (if gfporder = 0 then None
             else map_option (\<lambda>(l, n). (gfporder - 1, l, n)) (kmem_cache_estimate (gfporder - 1) sz flags))
          else if gfporder \<ge> brk then Some (gfporder, left_over, num)
          else if left_over * 8 \<le> PAGE_SIZE * 2 ^ gfporder then Some (gfporder, left_over, num)
          else choose_order (Suc gfporder) sz flags limit brk)"
  by pat_completeness auto
termination
  by (relation "measure (\<lambda>(gfporder, sz, flags, limit, brk). MAX_GFP_ORDER - gfporder)") auto

declare choose_order.simps [simp del]

function halve_align :: "nat \<Rightarrow> nat \<Rightarrow> nat" where
  "halve_align sz align = (if sz < align div 2 then halve_align sz (align div 2) else align)"
  by auto
termination by (relation "measure snd") auto

declare halve_align.simps [simp del]

section \<open>Growing a cache\<close>

definition kmem_getpages :: "addr \<Rightarrow> u32 \<Rightarrow> slabst \<Rightarrow> addr \<times> slabst" where
  "kmem_getpages c flags st =
     (let flags' = flags OR c_gfpflags (cache_at st c)
      in case get_free_pages (unat flags') (c_gfporder (cache_at st c)) (pg st) of
           (a, p) \<Rightarrow> (a, st\<lparr>pg := p\<rparr>))"

primrec bufctl_loop :: "nat \<Rightarrow> nat \<Rightarrow> (nat \<Rightarrow> u32) \<Rightarrow> (nat \<Rightarrow> u32)" where
  "bufctl_loop 0 i ctl = ctl"
| "bufctl_loop (Suc n) i ctl = bufctl_loop n (Suc i) (ctl(i := of_nat i + 1))"

definition kmem_cache_init_objs :: "addr \<Rightarrow> addr \<Rightarrow> slabst \<Rightarrow> slabst" where
  "kmem_cache_init_objs c s st =
     (let n = unat (c_num (cache_at st c));
          ctl = bufctl_loop n 0 (s_bufctl (slab_at st s))
      in upd_slab s (\<lambda>sl. sl\<lparr>s_bufctl := ctl(n - 1 := BUFCTL_END), s_free := 0\<rparr>) st)"

primrec set_page_loop :: "nat \<Rightarrow> nat \<Rightarrow> addr \<Rightarrow> addr \<Rightarrow> slabst \<Rightarrow> slabst" where
  "set_page_loop 0 p c s st = st"
| "set_page_loop (Suc n) p c s st =
     set_page_loop n (Suc p) c s
       (st\<lparr>page_cache := (page_cache st)(p := c), page_slab := (page_slab st)(p := s),
           pg := (pg st)\<lparr>mem_map := (mem_map (pg st))
                    (p := (mem_map (pg st) p)\<lparr>pg_flags := pg_flags (mem_map (pg st) p) OR push_bit 6 1\<rparr>)\<rparr>\<rparr>)"

primrec clear_slab_loop :: "nat \<Rightarrow> nat \<Rightarrow> pgalloc \<Rightarrow> pgalloc" where
  "clear_slab_loop 0 p s = s"
| "clear_slab_loop (Suc n) p s =
     clear_slab_loop n (Suc p)
       (s\<lparr>mem_map := (mem_map s)(p := (mem_map s p)\<lparr>pg_flags := pg_flags (mem_map s p) AND NOT (push_bit 6 1)\<rparr>)\<rparr>)"

definition kmem_freepages :: "addr \<Rightarrow> addr \<Rightarrow> slabst \<Rightarrow> slabst option" where
  "kmem_freepages c a st =
     (let order = c_gfporder (cache_at st c);
          p1 = clear_slab_loop (2 ^ order) (unat (virt_to_page a)) (pg st)
      in map_option (\<lambda>p. st\<lparr>pg := p\<rparr>) (free_pages a order p1))"

section \<open>Allocation\<close>

definition kmem_cache_alloc_one_tail :: "addr \<Rightarrow> addr \<Rightarrow> slabst \<Rightarrow> addr \<times> slabst" where
  "kmem_cache_alloc_one_tail c s st =
     (let sl = slab_at st s;
          objp = s_mem sl + s_free sl * c_objsize (cache_at st c);
          sl' = sl\<lparr>s_inuse := s_inuse sl + 1, s_free := s_bufctl sl (unat (s_free sl))\<rparr>;
          st1 = st\<lparr>slab_at := (slab_at st)(s := sl')\<rparr>
      in (objp,
          if s_free sl' = BUFCTL_END
          then upd_cache c (\<lambda>ca. ca\<lparr>c_firstnotfull := ring_next (c_slabs ca) s\<rparr>) st1
          else st1))"

text \<open>
  The allocation path: \<open>__kmem_cache_alloc\<close>, its \<open>kmem_cache_grow\<close> and the slab management
  object \<open>kmem_cache_slabmgmt\<close>, which for an off-slab cache is itself an allocation. The fuel counts
  both the retries at \<open>try_again\<close> and the nesting through \<open>slabp_cache\<close>; \<open>None\<close> means it ran
  out or that \<open>kmem_freepages\<close> does not return.
\<close>

fun kmem_cache_alloc :: "nat \<Rightarrow> addr \<Rightarrow> u32 \<Rightarrow> slabst \<Rightarrow> (addr \<times> slabst) option"
  and kmem_cache_grow :: "nat \<Rightarrow> addr \<Rightarrow> u32 \<Rightarrow> slabst \<Rightarrow> (bool \<times> slabst) option"
  and kmem_cache_slabmgmt :: "nat \<Rightarrow> addr \<Rightarrow> addr \<Rightarrow> u32 \<Rightarrow> u32 \<Rightarrow> slabst \<Rightarrow> (addr \<times> slabst) option"
where
  "kmem_cache_alloc 0 c flags st = None"
| "kmem_cache_alloc (Suc n) c flags st =
     (case c_firstnotfull (cache_at st c) of
        Some s \<Rightarrow> Some (kmem_cache_alloc_one_tail c s st)
      | None \<Rightarrow>
          (case kmem_cache_grow n c flags st of
             None \<Rightarrow> None
           | Some (True, st1) \<Rightarrow> kmem_cache_alloc n c flags st1
           | Some (False, st1) \<Rightarrow> Some (NULL, st1)))"
| "kmem_cache_grow 0 c flags st = None"
| "kmem_cache_grow (Suc n) c flags st =
     (if flags AND SLAB_NO_GROW \<noteq> 0 then Some (False, st)
      else
        let local_flags = flags AND SLAB_LEVEL_MASK;
            ca = cache_at st c;
            nx = (if c_colour_next ca + 1 \<ge> c_colour ca then 0 else c_colour_next ca + 1);
            offset = c_colour_next ca * c_colour_off ca;
            st1 = upd_cache c (\<lambda>ca. ca\<lparr>c_colour_next := nx, c_dflags := c_dflags ca OR DFLGS_GROWN,
                                      c_growing := c_growing ca + 1\<rparr>) st;
            (objp, st2) = kmem_getpages c flags st1
        in if objp = NULL
           then Some (False, upd_cache c (\<lambda>ca. ca\<lparr>c_growing := c_growing ca - 1\<rparr>) st2)
           else
             (case kmem_cache_slabmgmt n c objp offset local_flags st2 of
                None \<Rightarrow> None
              | Some (slabp, st3) \<Rightarrow>
                  if slabp = NULL
                  then map_option (\<lambda>st4. (False, upd_cache c (\<lambda>ca. ca\<lparr>c_growing := c_growing ca - 1\<rparr>) st4))
                         (kmem_freepages c objp st3)
                  else
                    let st4 = set_page_loop (2 ^ c_gfporder (cache_at st3 c)) (unat (virt_to_page objp)) c slabp st3;
                        st5 = kmem_cache_init_objs c slabp st4;
                        st6 = upd_cache c (\<lambda>ca. ca\<lparr>c_growing := c_growing ca - 1,
                                 c_slabs := c_slabs ca @ [slabp],
                                 c_firstnotfull := (if c_firstnotfull ca = None then Some slabp
                                                    else c_firstnotfull ca),
                                 c_failures := 0\<rparr>) st5
                    in Some (True, st6)))"
| "kmem_cache_slabmgmt 0 c objp colour_off local_flags st = None"
| "kmem_cache_slabmgmt (Suc n) c objp colour_off local_flags st =
     (let fin = (\<lambda>slabp off st'.
            upd_slab slabp (\<lambda>sl. sl\<lparr>s_inuse := 0, s_colouroff := off, s_mem := objp + off\<rparr>) st')
      in if c_flags (cache_at st c) AND CFLGS_OFF_SLAB \<noteq> 0
         then (case kmem_cache_alloc n (c_slabp_cache (cache_at st c)) local_flags st of
                 None \<Rightarrow> None
               | Some (slabp, st1) \<Rightarrow>
                   if slabp = NULL then Some (NULL, st1)
                   else Some (slabp, fin slabp colour_off st1))
         else
           let slabp = objp + colour_off;
               off = colour_off +
                 of_nat (L1_CACHE_ALIGN (unat (c_num (cache_at st c)) * SIZEOF_BUFCTL + SIZEOF_SLAB))
           in Some (slabp, fin slabp off st))"


section \<open>Freeing\<close>

text \<open>Taking a node off the ring goes through \<open>list_del\<close>, which checks the address first.\<close>

definition slab_list_del :: "addr \<Rightarrow> addr \<Rightarrow> slabst \<Rightarrow> slabst option" where
  "slab_list_del c s st =
     (if check_addr s then Some (upd_cache c (\<lambda>ca. ca\<lparr>c_slabs := remove1 s (c_slabs ca)\<rparr>) st) else None)"

definition kmem_cache_free_one :: "addr \<Rightarrow> addr \<Rightarrow> slabst \<Rightarrow> slabst option" where
  "kmem_cache_free_one c objp st =
     (let s = page_slab st (unat (virt_to_page objp));
          sl = slab_at st s;
          ca = cache_at st c;
          objnr = (objp - s_mem sl) div c_objsize ca;
          sl1 = sl\<lparr>s_bufctl := (s_bufctl sl)(unat objnr := s_free sl), s_free := objnr\<rparr>;
          sl2 = sl1\<lparr>s_inuse := s_inuse sl1 - 1\<rparr>;
          st1 = st\<lparr>slab_at := (slab_at st)(s := sl2)\<rparr>
      in if s_inuse sl1 = c_num ca then
           \<comment> \<open>moveslab_partial\<close>
           let t = c_firstnotfull ca;
               st2 = upd_cache c (\<lambda>ca. ca\<lparr>c_firstnotfull := Some s\<rparr>) st1
           in if ring_next (c_slabs ca) s = t then Some st2
              else (case slab_list_del c s st2 of
                      None \<Rightarrow> None
                    | Some st3 \<Rightarrow>
                        Some (upd_cache c (\<lambda>ca. ca\<lparr>c_slabs := ring_insert_before (c_slabs ca) t s\<rparr>) st3))
         else if s_inuse sl2 = 0 then
           \<comment> \<open>moveslab_free\<close>
           let t = ring_prev (c_slabs ca) (c_firstnotfull ca)
           in case slab_list_del c s st1 of
                None \<Rightarrow> None
              | Some st2 \<Rightarrow>
                  let st3 = upd_cache c (\<lambda>ca. ca\<lparr>c_slabs := c_slabs ca @ [s]\<rparr>) st2;
                      ca3 = cache_at st3 c
                  in Some (if c_firstnotfull ca3 = Some s
                           then upd_cache c (\<lambda>ca. ca\<lparr>c_firstnotfull := ring_head_next (c_slabs ca) t\<rparr>) st3
                           else st3)
         else Some st1)"

definition kmem_cache_free :: "addr \<Rightarrow> addr \<Rightarrow> slabst \<Rightarrow> slabst option" where
  "kmem_cache_free c objp st = kmem_cache_free_one c objp st"

section \<open>Creating caches\<close>

fun kmem_find_general_cachep :: "(u32 \<times> addr) list \<Rightarrow> u32 \<Rightarrow> addr" where
  "kmem_find_general_cachep [] sz = NULL"
| "kmem_find_general_cachep ((cs_size, cachep) # cs) sz =
     (if sz > cs_size then kmem_find_general_cachep cs sz else cachep)"

definition word_align :: "nat \<Rightarrow> nat" where
  "word_align sz = (if sz mod BYTES_PER_WORD \<noteq> 0 then (sz + 3) div 4 * 4 else sz)"

text \<open>The size, alignment and flags \<open>kmem_cache_create\<close> settles on before it searches the order.\<close>

definition create_layout :: "nat \<Rightarrow> u32 \<Rightarrow> nat \<times> nat \<times> u32" where
  "create_layout sz0 flags0 =
     (let sz1 = word_align sz0;
          align1 = (if flags0 AND SLAB_HWCACHE_ALIGN \<noteq> 0 then L1_CACHE_BYTES else BYTES_PER_WORD);
          flags1 = (if sz1 \<ge> PAGE_SIZE div 8 then flags0 OR CFLGS_OFF_SLAB else flags0)
      in if flags0 AND SLAB_HWCACHE_ALIGN \<noteq> 0
         then let align2 = halve_align sz1 align1
              in ((sz1 + align2 - 1) div align2 * align2, align2, flags1)
         else (sz1, align1, flags1))"

definition kmem_cache_create ::
  "nat \<Rightarrow> addr \<Rightarrow> byte list \<Rightarrow> nat \<Rightarrow> nat \<Rightarrow> u32 \<Rightarrow> slabst \<Rightarrow> (addr \<times> slabst) option" where
  "kmem_cache_create fuel cache_cache name sz0 offset0 flags0 st =
     (case kmem_cache_alloc fuel cache_cache GFP_KERNEL st of
        None \<Rightarrow> None
      | Some (c, st1) \<Rightarrow>
          if c = NULL then Some (NULL, st1)
          else
            let (sz, align, flags1) = create_layout sz0 flags0
            in case choose_order 0 sz flags1 (offslab_limit st1) (slab_break_gfp_order st1) of
                 None \<Rightarrow> None
               | Some (order, left0, num) \<Rightarrow>
                   if num = 0
                   then map_option (Pair NULL) (kmem_cache_free cache_cache c st1)
                   else
                     let slab_size = L1_CACHE_ALIGN (num * SIZEOF_BUFCTL + SIZEOF_SLAB);
                         onslab = (flags1 AND CFLGS_OFF_SLAB \<noteq> 0 \<and> left0 \<ge> slab_size);
                         flags2 = (if onslab then flags1 AND NOT CFLGS_OFF_SLAB else flags1);
                         left_over = (if onslab then left0 - slab_size else left0);
                         offset1 = (offset0 + (align - 1)) div align * align;
                         offset = (if offset1 = 0 then L1_CACHE_BYTES else offset1);
                         flags = (if order = 0 \<and> flags2 AND CFLGS_OFF_SLAB = 0
                                  then flags2 OR CFLGS_OPTIMIZE else flags2);
                         ca = \<lparr>c_slabs = [], c_firstnotfull = None, c_objsize = of_nat sz, c_flags = flags,
                               c_num = of_nat num, c_gfporder = order,
                               c_gfpflags = (if flags AND SLAB_CACHE_DMA \<noteq> 0 then GFP_DMA else 0),
                               c_colour = of_nat (left_over div offset), c_colour_off = of_nat offset,
                               c_colour_next = 0,
                               c_slabp_cache = (if flags AND CFLGS_OFF_SLAB \<noteq> 0
                                 then kmem_find_general_cachep (cache_sizes st1) (of_nat slab_size) else NULL),
                               c_growing = 0, c_dflags = 0, c_failures = 0, c_name = name\<rparr>
                     in Some (c, st1\<lparr>cache_at := (cache_at st1)(c := ca), cache_chain := c # cache_chain st1\<rparr>))"

text \<open>\<open>kmem_cache_init\<close> sets up the cache of cache descriptors at a fixed address; \<open>sz\<close> is the
  size of a descriptor.\<close>

definition kmem_cache_init :: "addr \<Rightarrow> nat \<Rightarrow> slabst \<Rightarrow> slabst option" where
  "kmem_cache_init cache_cache sz st =
     (case kmem_cache_estimate 0 sz 0 of
        None \<Rightarrow> None
      | Some (left_over, num) \<Rightarrow>
          Some (st\<lparr>cache_at := (cache_at st)(cache_cache :=
                 (cache_at st cache_cache)\<lparr>c_slabs := [], c_firstnotfull := None, c_objsize := of_nat sz,
                   c_flags := SLAB_NO_REAP, c_colour_off := of_nat L1_CACHE_BYTES, c_num := of_nat num,
                   c_colour := of_nat (left_over div L1_CACHE_BYTES), c_colour_next := 0\<rparr>),
               cache_chain := []\<rparr>))"

definition general_sizes :: "u32 list" where
  "general_sizes = [32, 64, 128, 256, 512, 1024, 2048, 4096, 8192, 16384, 32768, 65536, 131072]"

fun sizes_loop :: "nat \<Rightarrow> addr \<Rightarrow> (u32 \<Rightarrow> byte list) \<Rightarrow> u32 list \<Rightarrow> slabst \<Rightarrow> slabst option" where
  "sizes_loop fuel cache_cache name [] st = Some st"
| "sizes_loop fuel cache_cache name (sz # szs) st =
     (case kmem_cache_create fuel cache_cache (name sz) (unat sz) 0 SLAB_HWCACHE_ALIGN st of
        None \<Rightarrow> None
      | Some (c, st1) \<Rightarrow>
          let st2 = st1\<lparr>cache_sizes :=
                map (\<lambda>(z, p). if z = sz then (z, c) else (z, p)) (cache_sizes st1)\<rparr>;
              st3 = (if c_flags (cache_at st2 c) AND CFLGS_OFF_SLAB = 0
                     then st2\<lparr>offslab_limit := (sz - of_nat SIZEOF_SLAB) div 2\<rparr> else st2)
          in sizes_loop fuel cache_cache name szs st3)"

definition kmem_cache_sizes_init :: "nat \<Rightarrow> addr \<Rightarrow> (u32 \<Rightarrow> byte list) \<Rightarrow> nat \<Rightarrow> slabst \<Rightarrow> slabst option" where
  "kmem_cache_sizes_init fuel cache_cache name num_physpages st =
     (let st1 = (if num_physpages > 8192 then st\<lparr>slab_break_gfp_order := 2\<rparr> else st);
          st2 = st1\<lparr>cache_sizes := map (\<lambda>z. (z, NULL)) general_sizes\<rparr>
      in sizes_loop fuel cache_cache name general_sizes st2)"

section \<open>General purpose allocation\<close>

text \<open>The DMA column of the size table is never filled, so a DMA request dereferences a null cache:
  \<open>None\<close>.\<close>

fun kmalloc_sizes :: "(u32 \<times> addr) list \<Rightarrow> nat \<Rightarrow> u32 \<Rightarrow> u32 \<Rightarrow> slabst \<Rightarrow> (addr \<times> slabst) option" where
  "kmalloc_sizes [] fuel sz flags st = Some (NULL, st)"
| "kmalloc_sizes ((cs_size, cachep) # cs) fuel sz flags st =
     (if sz > cs_size then kmalloc_sizes cs fuel sz flags st
      else if flags AND GFP_DMA \<noteq> 0 \<or> cachep = NULL then None
      else (case kmem_cache_alloc fuel cachep flags st of
              None \<Rightarrow> None
            | Some (p, st1) \<Rightarrow>
                Some (p, if p \<noteq> NULL
                         then st1\<lparr>pg := (pg st1)\<lparr>ram := memset p 0 sz (ram (pg st1))\<rparr>\<rparr> else st1)))"

definition kmalloc :: "nat \<Rightarrow> u32 \<Rightarrow> u32 \<Rightarrow> slabst \<Rightarrow> (addr \<times> slabst) option" where
  "kmalloc fuel sz flags st = kmalloc_sizes (cache_sizes st) fuel sz flags st"

definition kfree :: "addr \<Rightarrow> slabst \<Rightarrow> slabst option" where
  "kfree objp st =
     (if objp = NULL then Some st
      else kmem_cache_free_one (page_cache st (unat (virt_to_page objp))) objp st)"

end
