(* ===== verification/Slab_Inv.thy ===== *)
theory Slab_Inv
  imports Slab
begin

text \<open>
  Correctness of the slab allocator: the free list inside a slab, the order of the slabs of a cache,
  and what allocation and freeing do to the set of free objects.
\<close>

section \<open>The free list of a slab\<close>

text \<open>\<open>free_chain ctl f xs\<close>: following the control words from \<open>f\<close> visits the objects \<open>xs\<close> and ends.\<close>

fun free_chain :: "(nat \<Rightarrow> u32) \<Rightarrow> u32 \<Rightarrow> nat list \<Rightarrow> bool" where
  "free_chain ctl f [] = (f = BUFCTL_END)"
| "free_chain ctl f (x # xs) = (f = of_nat x \<and> free_chain ctl (ctl x) xs)"

definition slab_free :: "nat \<Rightarrow> slab \<Rightarrow> nat list \<Rightarrow> bool" where
  "slab_free n sl xs \<longleftrightarrow>
     free_chain (s_bufctl sl) (s_free sl) xs \<and> distinct xs \<and> set xs \<subseteq> {..<n} \<and>
     s_inuse sl = of_nat (n - length xs) \<and> 0 < n \<and> n < 2 ^ 31"

lemma unat_index: "x < n \<Longrightarrow> n < 2 ^ 31 \<Longrightarrow> unat (of_nat x :: u32) = x"
  by (rule unat_of_nat_small) simp

lemma index_not_end: "x < n \<Longrightarrow> n < 2 ^ 31 \<Longrightarrow> (of_nat x :: u32) \<noteq> BUFCTL_END"
proof
  assume x: "x < n" "n < 2 ^ 31" and "(of_nat x :: u32) = BUFCTL_END"
  then have "unat (of_nat x :: u32) = unat BUFCTL_END" by simp
  then show False using x unat_index [OF x] by (simp add: BUFCTL_END_def)
qed

lemma free_chain_upd:
  "x \<notin> set xs \<Longrightarrow> free_chain (ctl(x := v)) f xs \<longleftrightarrow> free_chain ctl f xs"
  by (induction xs arbitrary: f) auto

lemma free_chain_unique:
  assumes "free_chain ctl f xs" "free_chain ctl f ys" "set xs \<subseteq> {..<n}" "set ys \<subseteq> {..<n}" "n < 2 ^ 31"
  shows "xs = ys"
  using assms
proof (induction xs arbitrary: f ys)
  case Nil
  then show ?case by (cases ys) (auto dest: index_not_end)
next
  case (Cons x xs)
  show ?case
  proof (cases ys)
    case Nil
    then show ?thesis using Cons.prems index_not_end [of x n] by auto
  next
    case (Cons y ys')
    then have "(of_nat x :: u32) = of_nat y" using Cons.prems(1,2) by simp
    moreover have "x < n" "y < n" using Cons.prems(3,4) Cons by auto
    ultimately have "x = y" using unat_index [of x n] unat_index [of y n] Cons.prems(5) by metis
    with Cons Cons.IH [of "ctl x" ys'] Cons.prems show ?thesis by simp
  qed
qed

lemma slab_free_unique: "slab_free n sl xs \<Longrightarrow> slab_free n sl ys \<Longrightarrow> xs = ys"
  unfolding slab_free_def by (blast intro: free_chain_unique)

lemma slab_free_length: "slab_free n sl xs \<Longrightarrow> length xs \<le> n"
  unfolding slab_free_def by (metis card_lessThan card_mono distinct_card finite_lessThan)

lemma inuse_full:
  assumes "slab_free n sl xs"
  shows "s_inuse sl = of_nat n \<longleftrightarrow> xs = []" and "s_inuse sl = 0 \<longleftrightarrow> length xs = n"
proof -
  have u: "unat (s_inuse sl) = n - length xs" "unat (of_nat n :: u32) = n"
    using assms by (auto simp: slab_free_def intro!: unat_of_nat_small)
  have "s_inuse sl = of_nat n \<longleftrightarrow> n - length xs = n" using u by (metis word_unat_eq_iff)
  also have "\<dots> \<longleftrightarrow> xs = []"
    using slab_free_length [OF assms] assms by (cases xs) (auto simp: slab_free_def)
  finally show "s_inuse sl = of_nat n \<longleftrightarrow> xs = []" .
  show "s_inuse sl = 0 \<longleftrightarrow> length xs = n"
    using u slab_free_length [OF assms] by (auto simp: unat_eq_zero [symmetric])
qed

lemma slab_take:
  assumes "slab_free n sl (x # xs)"
  shows "slab_free n (sl\<lparr>s_inuse := s_inuse sl + 1, s_free := s_bufctl sl (unat (s_free sl))\<rparr>) xs"
proof -
  have x: "x < n" "n < 2 ^ 31" "s_free sl = of_nat x" using assms by (auto simp: slab_free_def)
  have "length (x # xs) \<le> n" by (rule slab_free_length [OF assms])
  then have "n - length xs = Suc (n - length (x # xs))" by simp
  then show ?thesis using assms x unat_index [OF x(1,2)] by (auto simp: slab_free_def)
qed

lemma slab_give:
  assumes "slab_free n sl xs" "x < n" "x \<notin> set xs"
  shows "slab_free n (sl\<lparr>s_bufctl := (s_bufctl sl)(x := s_free sl), s_free := of_nat x, s_inuse := s_inuse sl - 1\<rparr>) (x # xs)"
proof -
  have "set (x # xs) \<subseteq> {..<n}" "distinct (x # xs)" using assms by (auto simp: slab_free_def)
  then have len: "length (x # xs) \<le> n" by (metis card_lessThan card_mono distinct_card finite_lessThan)
  then have "n - length xs = Suc (n - length (x # xs))" by simp
  then show ?thesis using assms by (auto simp: slab_free_def free_chain_upd)
qed

lemma bufctl_loop_apply:
  "bufctl_loop n i ctl j = (if i \<le> j \<and> j < i + n then of_nat j + 1 else ctl j)"
  by (induction n arbitrary: i ctl) auto

lemma free_chain_upt:
  assumes "\<And>j. i \<le> j \<Longrightarrow> Suc j < n \<Longrightarrow> ctl j = of_nat j + 1" "ctl (n - 1) = BUFCTL_END" "i < n"
  shows "free_chain ctl (of_nat i) [i..<n]"
  using assms
proof (induction "n - i" arbitrary: i)
  case 0
  then show ?case by simp
next
  case (Suc k)
  have split: "[i..<n] = i # [Suc i..<n]" using Suc.prems(3) by (simp add: upt_conv_Cons)
  show ?case
  proof (cases "Suc i < n")
    case True
    have "free_chain ctl (of_nat (Suc i)) [Suc i..<n]"
      by (rule Suc.hyps(1)) (use Suc.hyps(2) Suc.prems True in auto)
    moreover have "ctl i = of_nat (Suc i)" using Suc.prems(1) [of i] True by (simp add: add.commute)
    ultimately show ?thesis unfolding split by simp
  next
    case False
    then have "n = Suc i" using Suc.prems(3) by simp
    then show ?thesis using Suc.prems(2) by simp
  qed
qed

lemma slab_init:
  assumes "0 < n" "n < 2 ^ 31"
  shows "slab_free n (sl\<lparr>s_inuse := 0, s_bufctl := (bufctl_loop n 0 ctl)(n - 1 := BUFCTL_END), s_free := 0\<rparr>) [0..<n]"
proof -
  let ?ctl = "(bufctl_loop n 0 ctl)(n - 1 := BUFCTL_END)"
  have "free_chain ?ctl (of_nat 0) [0..<n]"
    by (rule free_chain_upt) (use assms in \<open>auto simp: bufctl_loop_apply\<close>)
  then show ?thesis using assms by (auto simp: slab_free_def)
qed


section \<open>The slabs of a cache\<close>

text \<open>Full slabs first, then the others; \<open>firstnotfull\<close> is where the others start. \<open>fr\<close> gives the free
  objects of each slab.\<close>

definition slab_order :: "kmem_cache \<Rightarrow> (addr \<Rightarrow> nat list) \<Rightarrow> bool" where
  "slab_order ca fr \<longleftrightarrow>
     (\<exists>fulls rest. c_slabs ca = fulls @ rest \<and> (\<forall>s \<in> set fulls. fr s = []) \<and>
        (\<forall>s \<in> set rest. fr s \<noteq> []) \<and>
        c_firstnotfull ca = (case rest of [] \<Rightarrow> None | s # _ \<Rightarrow> Some s))"

definition cache_ok :: "addr \<Rightarrow> slabst \<Rightarrow> (addr \<Rightarrow> nat list) \<Rightarrow> bool" where
  "cache_ok c st fr \<longleftrightarrow>
     distinct (c_slabs (cache_at st c)) \<and>
     (\<forall>s \<in> set (c_slabs (cache_at st c)).
        check_addr s \<and> slab_free (unat (c_num (cache_at st c))) (slab_at st s) (fr s)) \<and>
     slab_order (cache_at st c) fr \<and>
     0 < unat (c_objsize (cache_at st c)) \<and>
     unat (c_num (cache_at st c)) * unat (c_objsize (cache_at st c)) < 2 ^ 31"

definition obj_addr :: "slabst \<Rightarrow> addr \<Rightarrow> addr \<Rightarrow> nat \<Rightarrow> addr" where
  "obj_addr st c s x = s_mem (slab_at st s) + of_nat x * c_objsize (cache_at st c)"

lemma ring_next_split: "s \<notin> set as \<Longrightarrow> ring_next (as @ s # bs) s = (case bs of [] \<Rightarrow> None | b # _ \<Rightarrow> Some b)"
  by (induction as) auto

lemma ring_prev_split:
  "s \<notin> set as \<Longrightarrow> ring_prev (as @ s # bs) (Some s) = (if as = [] then None else Some (last as))"
  by (simp add: ring_prev_def takeWhile_upto Let_def)

lemma ring_insert_before_split:
  "t \<notin> set as \<Longrightarrow> ring_insert_before (as @ t # bs) (Some t) s = as @ s # t # bs"
  by (simp add: ring_insert_before_def takeWhile_upto dropWhile_upto)

lemma ring_head_next_after:
  "distinct (as @ bs) \<Longrightarrow> ring_head_next (as @ bs) (if as = [] then None else Some (last as)) =
     (case bs of [] \<Rightarrow> None | b # _ \<Rightarrow> Some b)"
proof (cases as rule: rev_cases)
  case (snoc as' a)
  assume "distinct (as @ bs)"
  then show ?thesis using snoc by (simp add: ring_head_next_def ring_next_split)
qed (simp add: ring_head_next_def)

lemma slab_order_cong:
  "c_slabs ca' = c_slabs ca \<Longrightarrow> c_firstnotfull ca' = c_firstnotfull ca \<Longrightarrow>
   (\<And>s. s \<in> set (c_slabs ca) \<Longrightarrow> fr' s = [] \<longleftrightarrow> fr s = []) \<Longrightarrow> slab_order ca' fr' \<longleftrightarrow> slab_order ca fr"
  unfolding slab_order_def by (metis Un_iff set_append)

lemma alloc_one_tail_ok:
  assumes ok: "cache_ok c st fr" and f: "c_firstnotfull (cache_at st c) = Some s"
  shows "\<exists>x xs. fr s = x # xs \<and> s \<in> set (c_slabs (cache_at st c)) \<and>
     fst (kmem_cache_alloc_one_tail c s st) = obj_addr st c s x \<and>
     cache_ok c (snd (kmem_cache_alloc_one_tail c s st)) (fr(s := xs)) \<and>
     s_mem (slab_at (snd (kmem_cache_alloc_one_tail c s st)) s) = s_mem (slab_at st s) \<and>
     page_slab (snd (kmem_cache_alloc_one_tail c s st)) = page_slab st \<and>
     c_objsize (cache_at (snd (kmem_cache_alloc_one_tail c s st)) c) = c_objsize (cache_at st c)"
proof -
  let ?ca = "cache_at st c" and ?n = "unat (c_num (cache_at st c))"
  obtain fulls rest where fr: "c_slabs ?ca = fulls @ rest" "\<forall>s \<in> set fulls. fr s = []"
    "\<forall>s \<in> set rest. fr s \<noteq> []" "c_firstnotfull ?ca = (case rest of [] \<Rightarrow> None | s # _ \<Rightarrow> Some s)"
    using ok by (auto simp: cache_ok_def slab_order_def)
  then obtain rest' where rest: "rest = s # rest'" using f by (cases rest) auto
  then obtain x xs where x: "fr s = x # xs" using fr(3) by (cases "fr s") auto
  have s: "s \<in> set (c_slabs ?ca)" by (simp add: fr(1) rest)
  have sf: "slab_free ?n (slab_at st s) (x # xs)" using ok s x by (auto simp: cache_ok_def)
  have d: "distinct (fulls @ s # rest')" using ok fr(1) rest by (simp add: cache_ok_def)
  note take = slab_take [OF sf]
  have x': "s_free (slab_at st s) = of_nat x" "x < ?n" "?n < 2 ^ 31" using sf by (auto simp: slab_free_def)
  have nx: "s_bufctl (slab_at st s) (unat (s_free (slab_at st s))) = BUFCTL_END \<longleftrightarrow> xs = []"
    using take index_not_end [of "hd xs" ?n] by (cases xs) (auto simp: slab_free_def)
  let ?st = "snd (kmem_cache_alloc_one_tail c s st)"
  have sl: "slab_at ?st = (slab_at st)(s := (slab_at st s)\<lparr>s_inuse := s_inuse (slab_at st s) + 1,
      s_free := s_bufctl (slab_at st s) (unat (s_free (slab_at st s)))\<rparr>)"
    by (simp add: kmem_cache_alloc_one_tail_def Let_def)
  have ca: "cache_at ?st = (if xs = [] then (cache_at st)(c := ?ca\<lparr>c_firstnotfull := ring_next (c_slabs ?ca) s\<rparr>)
      else cache_at st)"
    using nx by (simp add: kmem_cache_alloc_one_tail_def Let_def)
  have order: "slab_order (cache_at ?st c) (fr(s := xs))"
  proof (cases "xs = []")
    case True
    have "ring_next (c_slabs ?ca) s = (case rest' of [] \<Rightarrow> None | t # _ \<Rightarrow> Some t)"
      unfolding fr(1) rest using d by (intro ring_next_split) simp
    then show ?thesis
      unfolding slab_order_def using True fr d rest
      by (intro exI [of _ "fulls @ [s]"] exI [of _ rest']) (auto simp: ca)
  next
    case False
    then show ?thesis
      unfolding slab_order_def using fr d rest
      by (intro exI [of _ fulls] exI [of _ rest]) (auto simp: ca)
  qed
  have "cache_ok c ?st (fr(s := xs))"
    using ok take order by (auto simp: cache_ok_def sl ca)
  moreover have "fst (kmem_cache_alloc_one_tail c s st) = obj_addr st c s x"
    by (simp add: kmem_cache_alloc_one_tail_def Let_def obj_addr_def x'(1))
  moreover have "page_slab ?st = page_slab st" by (simp add: kmem_cache_alloc_one_tail_def Let_def)
  ultimately show ?thesis using x s by (auto simp: sl ca)
qed


lemma obj_number:
  assumes "x < n" "n * unat sz < 2 ^ 31" "0 < unat sz"
  shows "(mem + of_nat x * sz - mem) div sz = (of_nat x :: u32)"
proof -
  have "x * unat sz \<le> n * unat sz" using assms(1) by (intro mult_le_mono1) simp
  then have "x * unat sz < 2 ^ 31" using assms(2) by (rule le_less_trans)
  then have x: "x * unat sz < 2 ^ 32" by simp
  have "x \<le> x * unat sz" using assms(3) by simp
  then have ux: "unat (of_nat x :: u32) = x" using x by (intro unat_of_nat_small) (rule le_less_trans)
  have "(of_nat x * sz :: u32) = of_nat (x * unat sz)" by simp
  then have "unat (of_nat x * sz :: u32) = x * unat sz" using x by (metis unat_of_nat_small)
  then have "unat ((of_nat x * sz) div sz) = x" using assms(3) by (simp add: unat_div)
  then show ?thesis using ux by (simp add: word_unat_eq_iff)
qed

lemma free_one_ok:
  assumes ok: "cache_ok c st fr" and s: "s \<in> set (c_slabs (cache_at st c))"
    and x: "x < unat (c_num (cache_at st c))" "x \<notin> set (fr s)"
    and pg: "page_slab st (unat (virt_to_page (obj_addr st c s x))) = s"
  shows "\<exists>st'. kmem_cache_free_one c (obj_addr st c s x) st = Some st' \<and>
     cache_ok c st' (fr(s := x # fr s)) \<and> set (c_slabs (cache_at st' c)) = set (c_slabs (cache_at st c)) \<and>
     c_num (cache_at st' c) = c_num (cache_at st c)"
proof -
  let ?ca = "cache_at st c" and ?n = "unat (c_num (cache_at st c))" and ?fr = "fr(s := x # fr s)"
  have chk: "check_addr s" and sf: "slab_free ?n (slab_at st s) (fr s)" using ok s by (auto simp: cache_ok_def)
  have num: "(obj_addr st c s x - s_mem (slab_at st s)) div c_objsize ?ca = of_nat x"
    unfolding obj_addr_def by (rule obj_number [OF x(1)]) (use ok in \<open>auto simp: cache_ok_def\<close>)
  have ux: "unat (of_nat x :: u32) = x" using sf x(1) unat_index [of x ?n] by (simp add: slab_free_def)
  define sl where "sl = (slab_at st s)\<lparr>s_bufctl := (s_bufctl (slab_at st s))(x := s_free (slab_at st s)),
      s_free := of_nat x, s_inuse := s_inuse (slab_at st s) - 1\<rparr>"
  have give: "slab_free ?n sl (x # fr s)" unfolding sl_def by (rule slab_give [OF sf x])
  let ?st1 = "st\<lparr>slab_at := (slab_at st)(s := sl)\<rparr>"
  have keep: "cache_ok c st' ?fr"
    if "slab_at st' = (slab_at st)(s := sl)" "slab_order (cache_at st' c) ?fr"
      "c_num (cache_at st' c) = c_num ?ca" "c_objsize (cache_at st' c) = c_objsize ?ca"
      "distinct (c_slabs (cache_at st' c))" "set (c_slabs (cache_at st' c)) = set (c_slabs ?ca)" for st'
    using that ok give by (auto simp: cache_ok_def)
  obtain fulls rest where fr: "c_slabs ?ca = fulls @ rest" "\<forall>s \<in> set fulls. fr s = []"
    "\<forall>s \<in> set rest. fr s \<noteq> []" "c_firstnotfull ?ca = (case rest of [] \<Rightarrow> None | s # _ \<Rightarrow> Some s)"
    using ok by (auto simp: cache_ok_def slab_order_def)
  have d: "distinct (fulls @ rest)" using ok fr(1) by (simp add: cache_ok_def)
  have full: "s_inuse (slab_at st s) = c_num ?ca \<longleftrightarrow> fr s = []"
    using inuse_full(1) [OF sf] by simp
  have run: "kmem_cache_free_one c (obj_addr st c s x) st =
     (if fr s = [] then
        (let st2 = upd_cache c (\<lambda>ca. ca\<lparr>c_firstnotfull := Some s\<rparr>) ?st1
         in if ring_next (c_slabs ?ca) s = c_firstnotfull ?ca then Some st2
            else Some (upd_cache c (\<lambda>ca. ca\<lparr>c_slabs := ring_insert_before (remove1 s (c_slabs ?ca)) (c_firstnotfull ?ca) s\<rparr>) st2))
      else if s_inuse sl = 0 then
        (let st3 = upd_cache c (\<lambda>ca. ca\<lparr>c_slabs := remove1 s (c_slabs ?ca) @ [s]\<rparr>) ?st1
         in Some (if c_firstnotfull ?ca = Some s
              then upd_cache c (\<lambda>ca. ca\<lparr>c_firstnotfull :=
                 ring_head_next (remove1 s (c_slabs ?ca) @ [s]) (ring_prev (c_slabs ?ca) (c_firstnotfull ?ca))\<rparr>) st3
              else st3))
      else Some ?st1)"
    using chk full
    by (simp add: kmem_cache_free_one_def Let_def pg num ux slab_list_del_def sl_def)
  show ?thesis
  proof (cases "fr s = []")
    case True
    then obtain as bs where ab: "fulls = as @ s # bs" "s \<notin> set as"
      using s fr(1,3) by (metis Un_iff set_append split_list_first)
    have slabs: "c_slabs ?ca = as @ s # (bs @ rest)" by (simp add: fr(1) ab(1))
    have ds: "distinct (as @ s # bs @ rest)" using d ab(1) by simp
    have nx: "ring_next (c_slabs ?ca) s = (case bs @ rest of [] \<Rightarrow> None | t # _ \<Rightarrow> Some t)"
      unfolding slabs by (rule ring_next_split [OF ab(2)])
    have same: "ring_next (c_slabs ?ca) s = c_firstnotfull ?ca \<longleftrightarrow> bs = []"
      using ds by (cases bs; cases rest) (auto simp: nx fr(4))
    have ins: "ring_insert_before (remove1 s (c_slabs ?ca)) (c_firstnotfull ?ca) s = (as @ bs) @ s # rest"
    proof (cases rest)
      case Nil
      then show ?thesis using ds by (simp add: slabs remove1_middle ring_insert_before_def fr(4))
    next
      case (Cons t ts)
      then have "remove1 s (c_slabs ?ca) = (as @ bs) @ t # ts" "t \<notin> set (as @ bs)"
        using ds by (auto simp: slabs remove1_middle)
      then show ?thesis using ring_insert_before_split [of t "as @ bs" ts s] by (simp add: fr(4) Cons)
    qed
    have ord: "slab_order ca ?fr"
      if "c_slabs ca = (as @ bs) @ s # rest" "c_firstnotfull ca = Some s" for ca
      unfolding slab_order_def using that fr(2,3) ab(1) ds
      by (intro exI [of _ "as @ bs"] exI [of _ "s # rest"]) auto
    show ?thesis
    proof (cases "bs = []")
      case True
      let ?st = "upd_cache c (\<lambda>ca. ca\<lparr>c_firstnotfull := Some s\<rparr>) ?st1"
      have "cache_ok c ?st ?fr" by (rule keep) (use ord slabs True ds in auto)
      then show ?thesis using run \<open>fr s = []\<close> same True by (auto simp: Let_def)
    next
      case False
      let ?st = "upd_cache c (\<lambda>ca. ca\<lparr>c_slabs := (as @ bs) @ s # rest\<rparr>)
        (upd_cache c (\<lambda>ca. ca\<lparr>c_firstnotfull := Some s\<rparr>) ?st1)"
      have "cache_ok c ?st ?fr" by (rule keep) (use ord slabs ds in auto)
      then show ?thesis using run \<open>fr s = []\<close> same False ins slabs by (auto simp: Let_def)
    qed
  next
    case False
    then have "s \<in> set rest" using s fr(1,2) by auto
    then obtain as bs where ab: "rest = as @ s # bs" "s \<notin> set as" by (metis split_list_first)
    have slabs: "c_slabs ?ca = (fulls @ as) @ s # bs" by (simp add: fr(1) ab(1))
    have ds: "distinct ((fulls @ as) @ s # bs)" using d ab(1) by simp
    show ?thesis
    proof (cases "s_inuse sl = 0")
      case False
      have "slab_order (cache_at ?st1 c) ?fr"
        unfolding slab_order_def using fr ab(1) ds
        by (intro exI [of _ fulls] exI [of _ rest]) auto
      then have "cache_ok c ?st1 ?fr" by (intro keep) (use d fr(1) in auto)
      then show ?thesis using run \<open>fr s \<noteq> []\<close> False by auto
    next
      case True
      have rm: "remove1 s (c_slabs ?ca) @ [s] = fulls @ as @ bs @ [s]"
        unfolding slabs using ds by (subst remove1_middle) auto
      have ord: "slab_order ca ?fr"
        if "c_slabs ca = fulls @ as @ bs @ [s]" "c_firstnotfull ca = (case as @ bs @ [s] of [] \<Rightarrow> None | t # _ \<Rightarrow> Some t)" for ca
        unfolding slab_order_def using that fr(2,3) ab(1) ds
        by (intro exI [of _ fulls] exI [of _ "as @ bs @ [s]"]) auto
      let ?st3 = "upd_cache c (\<lambda>ca. ca\<lparr>c_slabs := fulls @ as @ bs @ [s]\<rparr>) ?st1"
      show ?thesis
      proof (cases as)
        case Nil
        have prev: "ring_prev (c_slabs ?ca) (c_firstnotfull ?ca) = (if fulls = [] then None else Some (last fulls))"
          using ds by (simp add: slabs Nil ring_prev_split fr(4) ab(1))
        have "ring_head_next (fulls @ as @ bs @ [s]) (ring_prev (c_slabs ?ca) (c_firstnotfull ?ca)) =
            (case bs @ [s] of [] \<Rightarrow> None | t # _ \<Rightarrow> Some t)"
          unfolding prev using ds ring_head_next_after [of fulls "bs @ [s]"] by (simp add: Nil)
        moreover have "cache_ok c (upd_cache c (\<lambda>ca. ca\<lparr>c_firstnotfull := (case bs @ [s] of [] \<Rightarrow> None | t # _ \<Rightarrow> Some t)\<rparr>) ?st3) ?fr"
          by (rule keep) (use ord slabs ds Nil in auto)
        moreover have "c_firstnotfull ?ca = Some s" by (simp add: fr(4) ab(1) Nil)
        ultimately show ?thesis
          using run \<open>fr s \<noteq> []\<close> True rm slabs Nil by (auto simp: Let_def)
      next
        case (Cons a as')
        have "cache_ok c ?st3 ?fr" by (rule keep) (use ord slabs ds Cons fr(4) ab(1) in auto)
        moreover have "c_firstnotfull ?ca \<noteq> Some s" using ab by (auto simp: fr(4) Cons)
        ultimately show ?thesis using run \<open>fr s \<noteq> []\<close> True rm slabs by (auto simp: Let_def)
      qed
    qed
  qed
qed


section \<open>Layout\<close>

lemma L1_align_ge: "x \<le> L1_CACHE_ALIGN x" and L1_align_mono: "x \<le> y \<Longrightarrow> L1_CACHE_ALIGN x \<le> L1_CACHE_ALIGN y"
proof -
  have "x \<le> (x + 31) div 32 * 32"
    using div_mult_mod_eq [of "x + 31" 32] mod_less_divisor [of 32 "x + 31"] by linarith
  then show "x \<le> L1_CACHE_ALIGN x" by (simp add: L1_CACHE_ALIGN_def L1_CACHE_BYTES_def)
  show "x \<le> y \<Longrightarrow> L1_CACHE_ALIGN x \<le> L1_CACHE_ALIGN y"
    by (simp add: L1_CACHE_ALIGN_def L1_CACHE_BYTES_def div_le_mono)
qed

definition fits :: "nat \<Rightarrow> nat \<Rightarrow> nat \<Rightarrow> nat \<Rightarrow> nat \<Rightarrow> bool" where
  "fits sz base extra wastage i \<longleftrightarrow> i * sz + L1_CACHE_ALIGN (base + i * extra) \<le> wastage"

lemma fits_down: "fits sz base extra w j \<Longrightarrow> i \<le> j \<Longrightarrow> fits sz base extra w i"
proof -
  assume "fits sz base extra w j" "i \<le> j"
  moreover from \<open>i \<le> j\<close> have "i * sz \<le> j * sz" "L1_CACHE_ALIGN (base + i * extra) \<le> L1_CACHE_ALIGN (base + j * extra)"
    by (simp_all add: L1_align_mono)
  ultimately show "fits sz base extra w i" unfolding fits_def by linarith
qed

lemma estimate_loop_returns:
  assumes "0 < sz"
  shows "\<exists>j. estimate_loop i sz base extra w = Some j \<and> i \<le> j \<and> \<not> fits sz base extra w j \<and>
     (\<forall>k. i \<le> k \<longrightarrow> k < j \<longrightarrow> fits sz base extra w k)"
proof (induction "Suc w - i" arbitrary: i)
  case 0
  then have "w < i" by simp
  moreover have "i * 1 \<le> i * sz" using assms by (intro mult_le_mono2) simp
  ultimately have "\<not> fits sz base extra w i" unfolding fits_def by linarith
  then show ?case by (subst estimate_loop.simps) (auto simp: fits_def)
next
  case (Suc n)
  show ?case
  proof (cases "fits sz base extra w i")
    case True
    have "n = Suc w - Suc i" using Suc.hyps(2) by simp
    from Suc.hyps(1) [OF this] obtain j where j: "estimate_loop (Suc i) sz base extra w = Some j"
      "Suc i \<le> j" "\<not> fits sz base extra w j" "\<forall>k. Suc i \<le> k \<longrightarrow> k < j \<longrightarrow> fits sz base extra w k" by blast
    have "estimate_loop i sz base extra w = Some j"
      using True j(1) by (subst estimate_loop.simps) (simp add: fits_def)
    moreover have "\<forall>k. i \<le> k \<longrightarrow> k < j \<longrightarrow> fits sz base extra w k"
      using j(4) True by (metis Suc_leI le_neq_implies_less)
    ultimately show ?thesis using j by auto
  next
    case False
    then show ?thesis by (subst estimate_loop.simps) (auto simp: fits_def)
  qed
qed

definition slab_bytes :: "u32 \<Rightarrow> nat \<Rightarrow> nat \<Rightarrow> nat" where
  "slab_bytes flags sz n =
     n * sz + (if flags AND CFLGS_OFF_SLAB = 0 then L1_CACHE_ALIGN (SIZEOF_SLAB + n * SIZEOF_BUFCTL) else 0)"

lemma slab_bytes_fits:
  "fits sz (if flags AND CFLGS_OFF_SLAB = 0 then SIZEOF_SLAB else 0)
     (if flags AND CFLGS_OFF_SLAB = 0 then SIZEOF_BUFCTL else 0) w n \<longleftrightarrow> slab_bytes flags sz n \<le> w"
  by (simp add: fits_def slab_bytes_def L1_CACHE_ALIGN_def L1_CACHE_BYTES_def)

section \<open>The allocation path\<close>

definition on_slab :: "addr \<Rightarrow> slabst \<Rightarrow> bool" where
  "on_slab c st \<longleftrightarrow> c_flags (cache_at st c) AND CFLGS_OFF_SLAB = 0"

text \<open>A partial slab serves the request at once; the fuel is not used.\<close>

lemma alloc_from_partial:
  assumes "cache_ok c st fr" "c_firstnotfull (cache_at st c) = Some s"
  shows "\<exists>x xs st'. kmem_cache_alloc (Suc n) c flags st = Some (obj_addr st c s x, st') \<and>
     fr s = x # xs \<and> s \<in> set (c_slabs (cache_at st c)) \<and> cache_ok c st' (fr(s := xs)) \<and>
     obj_addr st' c s x = obj_addr st c s x \<and> page_slab st' = page_slab st \<and>
     c_slabs (cache_at st' c) = c_slabs (cache_at st c) \<and> c_num (cache_at st' c) = c_num (cache_at st c)"
proof -
  from alloc_one_tail_ok [OF assms] obtain x xs where
    "fr s = x # xs" "s \<in> set (c_slabs (cache_at st c))"
    "fst (kmem_cache_alloc_one_tail c s st) = obj_addr st c s x"
    "cache_ok c (snd (kmem_cache_alloc_one_tail c s st)) (fr(s := xs))"
    "s_mem (slab_at (snd (kmem_cache_alloc_one_tail c s st)) s) = s_mem (slab_at st s)"
    "page_slab (snd (kmem_cache_alloc_one_tail c s st)) = page_slab st"
    "c_objsize (cache_at (snd (kmem_cache_alloc_one_tail c s st)) c) = c_objsize (cache_at st c)" by blast
  moreover have "c_slabs (cache_at (snd (kmem_cache_alloc_one_tail c s st)) c) = c_slabs (cache_at st c)"
    "c_num (cache_at (snd (kmem_cache_alloc_one_tail c s st)) c) = c_num (cache_at st c)"
    by (simp_all add: kmem_cache_alloc_one_tail_def Let_def)
  ultimately show ?thesis
    using assms(2)
    by (intro exI [of _ x] exI [of _ xs] exI [of _ "snd (kmem_cache_alloc_one_tail c s st)"])
      (simp add: obj_addr_def prod_eq_iff)
qed

lemma set_page_loop_sel [simp]:
  "slab_at (set_page_loop n p c s st) = slab_at st" "cache_at (set_page_loop n p c s st) = cache_at st"
  by (induction n arbitrary: p st) auto

lemma getpages_sel [simp]:
  "slab_at (snd (kmem_getpages c flags st)) = slab_at st" "cache_at (snd (kmem_getpages c flags st)) = cache_at st"
  by (auto simp: kmem_getpages_def Let_def split: prod.splits)

definition grow_start :: "addr \<Rightarrow> slabst \<Rightarrow> slabst" where
  "grow_start c st = upd_cache c (\<lambda>ca. ca\<lparr>
        c_colour_next := (if c_colour_next ca + 1 \<ge> c_colour ca then 0 else c_colour_next ca + 1),
        c_dflags := c_dflags ca OR DFLGS_GROWN, c_growing := c_growing ca + 1\<rparr>) st"

text \<open>Growing an on-slab cache that gets pages adds one slab, empty, at the start of the pages plus the
  colour offset.\<close>

lemma grow_ok:
  assumes ok: "cache_ok c st fr" and on: "on_slab c st" and fl: "flags AND SLAB_NO_GROW = 0"
    and num: "0 < unat (c_num (cache_at st c))"
    and objp: "objp = fst (kmem_getpages c flags (grow_start c st))" "objp \<noteq> NULL"
    and s: "s = objp + c_colour_next (cache_at st c) * c_colour_off (cache_at st c)"
    and new: "s \<noteq> NULL" "check_addr s" "s \<notin> set (c_slabs (cache_at st c))"
  shows "\<exists>st'. kmem_cache_grow (Suc (Suc n)) c flags st = Some (True, st') \<and>
     cache_ok c st' (fr(s := [0..<unat (c_num (cache_at st c))])) \<and>
     c_slabs (cache_at st' c) = c_slabs (cache_at st c) @ [s]"
proof -
  let ?n = "unat (c_num (cache_at st c))" and ?fr = "fr(s := [0..<unat (c_num (cache_at st c))])"
  define st1 where st1: "st1 = grow_start c st"
  note st1 = st1 [unfolded grow_start_def]
  define st2 where "st2 = snd (kmem_getpages c flags st1)"
  have gp: "kmem_getpages c flags st1 = (objp, st2)" by (simp add: st2_def objp(1) st1 grow_start_def)
  have sel: "slab_at st2 = slab_at st" "cache_at st2 = cache_at st1" by (simp_all add: st2_def st1)
  have on2: "c_flags (cache_at st2 c) AND CFLGS_OFF_SLAB = 0" using on by (simp add: sel st1 on_slab_def)
  have n: "?n < 2 ^ 31" using ok num by (auto simp: cache_ok_def intro: le_less_trans [rotated])
  define off where "off = c_colour_next (cache_at st c) * c_colour_off (cache_at st c)
     + of_nat (L1_CACHE_ALIGN (?n * SIZEOF_BUFCTL + SIZEOF_SLAB))"
  define sl where "sl = (slab_at st s)\<lparr>s_inuse := 0, s_colouroff := off, s_mem := objp + off\<rparr>"
  have mg: "kmem_cache_slabmgmt (Suc n) c objp (c_colour_next (cache_at st c) * c_colour_off (cache_at st c))
      (flags AND SLAB_LEVEL_MASK) st2 = Some (s, upd_slab s (\<lambda>_. sl) st2)"
    using on2 by (simp add: Let_def sel st1 s off_def sl_def)
  define st4 where "st4 = set_page_loop (2 ^ c_gfporder (cache_at st2 c)) (unat (virt_to_page objp)) c s
     (upd_slab s (\<lambda>_. sl) st2)"
  have s4: "slab_at st4 = (slab_at st)(s := sl)" "cache_at st4 = cache_at st1"
    by (simp_all add: st4_def sel)
  define st6 where "st6 = upd_cache c (\<lambda>ca. ca\<lparr>c_growing := c_growing ca - 1, c_slabs := c_slabs ca @ [s],
      c_firstnotfull := (if c_firstnotfull ca = None then Some s else c_firstnotfull ca), c_failures := 0\<rparr>)
      (kmem_cache_init_objs c s st4)"
  have run: "kmem_cache_grow (Suc (Suc n)) c flags st = Some (True, st6)"
    using fl gp objp(2) mg new(1) unfolding st1
    by (simp add: Let_def st4_def st6_def)
  have s6: "slab_at st6 = (slab_at st)(s := sl\<lparr>s_bufctl := (bufctl_loop ?n 0 (s_bufctl sl))(?n - 1 := BUFCTL_END), s_free := 0\<rparr>)"
    by (simp add: st6_def kmem_cache_init_objs_def Let_def s4 st1)
  have c6: "c_slabs (cache_at st6 c) = c_slabs (cache_at st c) @ [s]"
      "c_firstnotfull (cache_at st6 c) = (if c_firstnotfull (cache_at st c) = None then Some s else c_firstnotfull (cache_at st c))"
      "c_num (cache_at st6 c) = c_num (cache_at st c)" "c_objsize (cache_at st6 c) = c_objsize (cache_at st c)"
    by (simp_all add: st6_def kmem_cache_init_objs_def Let_def s4 st1)
  have "slab_free ?n (slab_at st6 s) [0..<?n]"
    using slab_init [OF num n, of "s_bufctl sl" sl] by (simp add: s6 sl_def slab_free_def)
  moreover have "slab_order (cache_at st6 c) ?fr"
  proof -
    obtain fulls rest where "c_slabs (cache_at st c) = fulls @ rest" "\<forall>s \<in> set fulls. fr s = []"
      "\<forall>s \<in> set rest. fr s \<noteq> []"
      "c_firstnotfull (cache_at st c) = (case rest of [] \<Rightarrow> None | s # _ \<Rightarrow> Some s)"
      using ok by (auto simp: cache_ok_def slab_order_def)
    then show ?thesis
      unfolding slab_order_def using num new(3)
      by (intro exI [of _ fulls] exI [of _ "rest @ [s]"]) (auto simp: c6 split: list.splits)
  qed
  ultimately have "cache_ok c st6 ?fr"
    using ok new by (auto simp: cache_ok_def c6 s6)
  then show ?thesis using run c6(1) by blast
qed

section \<open>Objects in memory\<close>

definition obj_bytes :: "slabst \<Rightarrow> addr \<Rightarrow> addr \<Rightarrow> nat \<Rightarrow> addr set" where
  "obj_bytes st c s x = {obj_addr st c s x + of_nat k | k. k < unat (c_objsize (cache_at st c))}"

definition in_use :: "slabst \<Rightarrow> addr \<Rightarrow> (addr \<Rightarrow> nat list) \<Rightarrow> (addr \<times> nat) set" where
  "in_use st c fr = {(s, x). s \<in> set (c_slabs (cache_at st c)) \<and> x < unat (c_num (cache_at st c)) \<and> x \<notin> set (fr s)}"

text \<open>The slabs of a cache lie in different pages, and \<open>page->list\<close> of every page an object starts
  in names its slab.\<close>

definition areas_ok :: "addr \<Rightarrow> slabst \<Rightarrow> bool" where
  "areas_ok c st \<longleftrightarrow>
     (\<forall>s \<in> set (c_slabs (cache_at st c)). \<forall>x < unat (c_num (cache_at st c)).
        page_slab st (unat (virt_to_page (obj_addr st c s x))) = s) \<and>
     (\<forall>s \<in> set (c_slabs (cache_at st c)). \<forall>t \<in> set (c_slabs (cache_at st c)). s \<noteq> t \<longrightarrow>
        (\<forall>x < unat (c_num (cache_at st c)). \<forall>y < unat (c_num (cache_at st c)).
           obj_bytes st c s x \<inter> obj_bytes st c t y = {}))"

lemma obj_bytes_same_slab:
  assumes "x < n" "y < n" "x \<noteq> y" "n * unat (c_objsize (cache_at st c)) < 2 ^ 31"
  shows "obj_bytes st c s x \<inter> obj_bytes st c s y = {}"
proof (rule ccontr)
  let ?sz = "unat (c_objsize (cache_at st c))" and ?m = "s_mem (slab_at st s)"
  assume "obj_bytes st c s x \<inter> obj_bytes st c s y \<noteq> {}"
  then obtain j k where jk: "j < ?sz" "k < ?sz"
    "?m + of_nat x * c_objsize (cache_at st c) + of_nat j = ?m + of_nat y * c_objsize (cache_at st c) + of_nat k"
    by (auto simp: obj_bytes_def obj_addr_def)
  then have eq: "(of_nat (x * ?sz + j) :: u32) = of_nat (y * ?sz + k)" by (simp add: add.assoc)
  have bound: "z * ?sz + l < 2 ^ 32" if "z < n" "l < ?sz" for z l
  proof -
    have "z * ?sz + l < Suc z * ?sz" using that(2) by simp
    also have "\<dots> \<le> n * ?sz" using that(1) by (intro mult_le_mono1) simp
    finally show ?thesis using assms(4) by simp
  qed
  have "x * ?sz + j = y * ?sz + k"
    using arg_cong [OF eq, of unat] bound assms(1,2) jk(1,2) by (metis unat_of_nat_small)
  then have "(x * ?sz + j) div ?sz = (y * ?sz + k) div ?sz" by simp
  then show False using jk(1,2) assms(3) by simp
qed

lemma obj_bytes_disjoint:
  assumes "cache_ok c st fr" "areas_ok c st" "s \<in> set (c_slabs (cache_at st c))" "t \<in> set (c_slabs (cache_at st c))"
    and "x < unat (c_num (cache_at st c))" "y < unat (c_num (cache_at st c))" "(s, x) \<noteq> (t, y)"
  shows "obj_bytes st c s x \<inter> obj_bytes st c t y = {}"
proof (cases "s = t")
  case True
  then show ?thesis
    using assms obj_bytes_same_slab [OF assms(5,6), of st c s] by (auto simp: cache_ok_def)
next
  case False
  then show ?thesis using assms by (auto simp: areas_ok_def)
qed

section \<open>Properties\<close>

definition demo_page_pg :: pgalloc where
  "demo_page_pg = \<lparr>mem_map = (\<lambda>_. \<lparr>pg_count = 0, pg_flags = 0, pg_age = 0, pg_zone = 1\<rparr>),
     node_zones = (\<lambda>_. \<lparr>z_offset = 0, z_size = 1024, z_free_pages = 1, z_pages_min = 0, z_pages_low = 0,
       z_pages_high = 0, free_list = (\<lambda>k. if k = 0 then [8] else []), z_map = (\<lambda>_ _. 0)\<rparr>),
     node_zonelists = (\<lambda>_. [1]), memory_pressure = 0, max_mapnr = 1024, ram = (\<lambda>_. 1), null_va = 0x1000\<rparr>"

definition demo_slabst :: slabst where
  "demo_slabst = \<lparr>pg = demo_page_pg,
     slab_at = (\<lambda>_. \<lparr>s_colouroff = 0, s_mem = 0x30005020, s_inuse = 1, s_free = 1, s_bufctl = (\<lambda>_. BUFCTL_END)\<rparr>),
     cache_at = (\<lambda>_. \<lparr>c_slabs = [0x30005000], c_firstnotfull = Some 0x30005000, c_objsize = 8, c_flags = 0,
        c_num = 2, c_gfporder = 0, c_gfpflags = 0, c_colour = 0, c_colour_off = 32, c_colour_next = 0,
        c_slabp_cache = 0, c_growing = 0, c_dflags = 0, c_failures = 0, c_name = []\<rparr>),
     page_cache = (\<lambda>_. 0x100), page_slab = (\<lambda>_. 0x30005000), cache_chain = [0x100], cache_sizes = [],
     offslab_limit = 0, slab_break_gfp_order = 1\<rparr>"

definition demo_fr :: "addr \<Rightarrow> nat list" where
  "demo_fr = (\<lambda>_. [1])"

lemma demo_cache_ok: "cache_ok 0x100 demo_slabst demo_fr" "areas_ok 0x100 demo_slabst"
proof -
  have "slab_order (cache_at demo_slabst 0x100) demo_fr"
    unfolding slab_order_def
    by (intro exI [of _ "[]"] exI [of _ "[0x30005000]"]) (simp add: demo_slabst_def demo_fr_def)
  then show "cache_ok 0x100 demo_slabst demo_fr"
    by (simp add: cache_ok_def slab_free_def check_addr_def) (simp add: demo_slabst_def demo_fr_def)
  show "areas_ok 0x100 demo_slabst" by (simp add: areas_ok_def) (simp add: demo_slabst_def)
qed

text \<open>
  C2. Object allocation. When a cache has a slab with a free object, \<open>__kmem_cache_alloc\<close> returns
  an object that was not in use, whose bytes overlap no object in use, and keeps the cache
  well formed (full slabs first, \<open>firstnotfull\<close> exact, counts and free lists right) with exactly
  that object added to the objects in use.
\<close>

theorem slab_alloc_fresh:
  assumes "cache_ok c st fr" "areas_ok c st" "c_firstnotfull (cache_at st c) = Some s"
  shows "\<exists>x st'. kmem_cache_alloc (Suc n) c flags st = Some (obj_addr st c s x, st') \<and>
     (s, x) \<notin> in_use st c fr \<and>
     (\<forall>(t, y) \<in> in_use st c fr. obj_bytes st c s x \<inter> obj_bytes st c t y = {}) \<and>
     cache_ok c st' (fr(s := tl (fr s))) \<and>
     in_use st' c (fr(s := tl (fr s))) = insert (s, x) (in_use st c fr)"
proof -
  from alloc_from_partial [OF assms(1,3)] obtain x xs st' where a:
    "kmem_cache_alloc (Suc n) c flags st = Some (obj_addr st c s x, st')"
    "fr s = x # xs" "s \<in> set (c_slabs (cache_at st c))" "cache_ok c st' (fr(s := xs))"
    "c_slabs (cache_at st' c) = c_slabs (cache_at st c)" "c_num (cache_at st' c) = c_num (cache_at st c)" by metis
  have x: "x < unat (c_num (cache_at st c))" "x \<notin> set xs"
    using assms(1) a(2,3) by (auto simp: cache_ok_def slab_free_def)
  have "obj_bytes st c s x \<inter> obj_bytes st c t y = {}" if "(t, y) \<in> in_use st c fr" for t y
    using that a(2,3) x by (intro obj_bytes_disjoint [OF assms(1,2)]) (auto simp: in_use_def)
  moreover have "in_use st' c (fr(s := xs)) = insert (s, x) (in_use st c fr)"
    using a x by (auto simp: in_use_def split: if_splits)
  ultimately show ?thesis
    using a x by (intro exI [of _ x] exI [of _ st']) (auto simp: in_use_def)
qed

theorem slab_alloc_fresh_witness:
  "\<exists>x st'. kmem_cache_alloc (Suc 0) 0x100 0 demo_slabst = Some (obj_addr demo_slabst 0x100 0x30005000 x, st') \<and>
     (0x30005000, x) \<notin> in_use demo_slabst 0x100 demo_fr \<and>
     (\<forall>(t, y) \<in> in_use demo_slabst 0x100 demo_fr.
        obj_bytes demo_slabst 0x100 0x30005000 x \<inter> obj_bytes demo_slabst 0x100 t y = {}) \<and>
     cache_ok 0x100 st' (demo_fr(0x30005000 := tl (demo_fr 0x30005000))) \<and>
     in_use st' 0x100 (demo_fr(0x30005000 := tl (demo_fr 0x30005000))) =
       insert (0x30005000, x) (in_use demo_slabst 0x100 demo_fr)"
  by (rule slab_alloc_fresh [OF demo_cache_ok]) (simp add: demo_slabst_def)

text \<open>
  C7. Object free. \<open>kmem_cache_free\<close> of an object in use finds its slab through the page, returns,
  puts the object at the front of that slab's free list and moves the slab to its place in the ring
  (partial slabs before the first not full one, empty slabs to the end): the cache stays well formed
  and exactly that object is no longer in use.
\<close>

theorem slab_free_restores:
  assumes "cache_ok c st fr" "areas_ok c st" "(s, x) \<in> in_use st c fr"
  shows "\<exists>st'. kmem_cache_free c (obj_addr st c s x) st = Some st' \<and>
     cache_ok c st' (fr(s := x # fr s)) \<and>
     in_use st' c (fr(s := x # fr s)) = in_use st c fr - {(s, x)}"
proof -
  have "page_slab st (unat (virt_to_page (obj_addr st c s x))) = s"
    using assms(2,3) by (auto simp: areas_ok_def in_use_def)
  with assms(1,3) obtain st' where st': "kmem_cache_free_one c (obj_addr st c s x) st = Some st'"
    "cache_ok c st' (fr(s := x # fr s))" "set (c_slabs (cache_at st' c)) = set (c_slabs (cache_at st c))"
    "c_num (cache_at st' c) = c_num (cache_at st c)"
    using free_one_ok [OF assms(1), of s x] by (auto simp: in_use_def)
  then show ?thesis using assms(3) by (auto simp: kmem_cache_free_def in_use_def split: if_splits)
qed


theorem slab_free_restores_witness:
  "\<exists>st'. kmem_cache_free 0x100 (obj_addr demo_slabst 0x100 0x30005000 0) demo_slabst = Some st' \<and>
     cache_ok 0x100 st' (demo_fr(0x30005000 := 0 # demo_fr 0x30005000)) \<and>
     in_use st' 0x100 (demo_fr(0x30005000 := 0 # demo_fr 0x30005000)) =
       in_use demo_slabst 0x100 demo_fr - {(0x30005000, 0)}"
  by (rule slab_free_restores [OF demo_cache_ok]) (simp add: in_use_def demo_slabst_def demo_fr_def)


definition demo_full :: slabst where
  "demo_full = demo_slabst\<lparr>cache_at := (\<lambda>_. (cache_at demo_slabst 0)\<lparr>c_slabs := [], c_firstnotfull := None\<rparr>)\<rparr>"




end
