(* ===== verification/Irq.thy ===== *)
theory Irq
  imports Prelude
begin

text \<open>
  Interrupts: the processor's interrupt mask, the critical sections and the descriptor table of
  \<^verbatim>\<open>src/kernel/interrupt.c\<close>, and the S3C24xx interrupt controller of
  \<^verbatim>\<open>src/arch/arm/s3c24xx_irq.c\<close>. A descriptor is named by its address, \<open>NULL\<close> in the table is an
  empty slot, and a handler is the address of its code; what a handler does is an argument of
  \<open>deliver_irq\<close>. A null dereference, an index outside the table and a call of \<open>panic\<close> (which never
  returns) are \<open>None\<close>. The rest of the kernel extends the record \<open>irqst\<close> by its own state.
\<close>

section \<open>State\<close>

definition MAX_IRQ_NUMBER :: int where "MAX_IRQ_NUMBER = 64"
definition EINVAL :: int where "EINVAL = 22"
definition ENOMEM :: int where "ENOMEM = 12"
definition EBUSY :: int where "EBUSY = 16"
definition IRQ_EINT3 :: u32 where "IRQ_EINT3 = 3"
definition IRQ_EINT4t7 :: u32 where "IRQ_EINT4t7 = 4"
definition IRQ_EINT8t23 :: u32 where "IRQ_EINT8t23 = 5"
definition IRQ_ADC :: u32 where "IRQ_ADC = 31"
definition IRQ_EINT4 :: u32 where "IRQ_EINT4 = 32"
definition IRQ_EINT7 :: u32 where "IRQ_EINT7 = 35"
definition IRQ_EINT23 :: u32 where "IRQ_EINT23 = 51"
definition EXTINT_OFFSET :: u32 where "EXTINT_OFFSET = IRQ_EINT4 - 4"

text \<open>The controller functions a descriptor points to: those of the external lines or the others.\<close>

datatype irq_chip = Irqext | Irqint

record irq_desc =
  d_irq_num :: u32
  d_priv :: addr
  d_irq_handler :: addr
  d_chip :: irq_chip
  d_flag :: u32
  d_count :: u32

record irqst =
  irq_on :: bool
  cirtical_lock :: u32
  OSIntNesting :: u32
  OS_RUNNING :: bool
  irq_desc_table :: "nat \<Rightarrow> addr"
  desc_at :: "addr \<Rightarrow> irq_desc"
  INTMSK :: u32
  EINTMASK :: u32

abbreviation upd_desc :: "addr \<Rightarrow> (irq_desc \<Rightarrow> irq_desc) \<Rightarrow> 'a irqst_scheme \<Rightarrow> 'a irqst_scheme" where
  "upd_desc d f s \<equiv> s\<lparr>desc_at := (desc_at s)(d := f (desc_at s d))\<rparr>"

section \<open>The interrupt mask and critical sections\<close>

definition disable_irq :: "'a irqst_scheme \<Rightarrow> 'a irqst_scheme" where
  "disable_irq s = s\<lparr>irq_on := False\<rparr>"

definition enable_irq :: "'a irqst_scheme \<Rightarrow> 'a irqst_scheme" where
  "enable_irq s = s\<lparr>irq_on := True\<rparr>"

definition arch_local_irq_save :: "'a irqst_scheme \<Rightarrow> bool \<times> 'a irqst_scheme" where
  "arch_local_irq_save s = (irq_on s, s\<lparr>irq_on := False\<rparr>)"

definition arch_local_irq_restore :: "bool \<Rightarrow> 'a irqst_scheme \<Rightarrow> 'a irqst_scheme" where
  "arch_local_irq_restore flags s = s\<lparr>irq_on := flags\<rparr>"

definition kernel_disable_irq :: "'a irqst_scheme \<Rightarrow> 'a irqst_scheme" where
  "kernel_disable_irq s = (if OSIntNesting s > 0 then s else disable_irq s)"

definition kernel_enable_irq :: "'a irqst_scheme \<Rightarrow> 'a irqst_scheme" where
  "kernel_enable_irq s = (if OSIntNesting s > 0 then s else enable_irq s)"

definition enter_critical :: "'a irqst_scheme \<Rightarrow> 'a irqst_scheme" where
  "enter_critical s =
     (if OSIntNesting s > 0 then s
      else disable_irq (s\<lparr>cirtical_lock := cirtical_lock s + 1\<rparr>))"

definition exit_critical :: "'a irqst_scheme \<Rightarrow> 'a irqst_scheme" where
  "exit_critical s =
     (if OSIntNesting s > 0 then s
      else
        let s1 = (if cirtical_lock s > 0 then s\<lparr>cirtical_lock := cirtical_lock s - 1\<rparr> else s)
        in if cirtical_lock s1 \<noteq> 0 then s1 else enable_irq s1)"

section \<open>The controller\<close>

definition s3c24xx_irq_mask :: "u32 \<Rightarrow> 'a irqst_scheme \<Rightarrow> 'a irqst_scheme" where
  "s3c24xx_irq_mask n s =
     (if n \<le> IRQ_ADC then s\<lparr>INTMSK := INTMSK s OR push_bit (unat n) 1\<rparr> else s)"

definition s3c24xx_irq_unmask :: "u32 \<Rightarrow> 'a irqst_scheme \<Rightarrow> 'a irqst_scheme" where
  "s3c24xx_irq_unmask n s =
     (if n \<le> IRQ_ADC then s\<lparr>INTMSK := INTMSK s AND NOT (push_bit (unat n) 1)\<rparr> else s)"

definition s3c24xx_irqext_mask :: "u32 \<Rightarrow> 'a irqst_scheme \<Rightarrow> 'a irqst_scheme" where
  "s3c24xx_irqext_mask n s =
     (if n \<le> IRQ_EINT3 then s\<lparr>INTMSK := INTMSK s OR push_bit (unat n) 1\<rparr>
      else if n \<ge> IRQ_EINT4 \<and> n \<le> IRQ_EINT23
      then s\<lparr>EINTMASK := EINTMASK s OR push_bit (unat (n - EXTINT_OFFSET)) 1\<rparr>
      else s)"

text \<open>The second branch of the source repeats the condition of the first, so it is never taken.\<close>

definition s3c24xx_irqext_unmask :: "u32 \<Rightarrow> 'a irqst_scheme \<Rightarrow> 'a irqst_scheme" where
  "s3c24xx_irqext_unmask n s =
     (if n \<le> IRQ_EINT3 then s\<lparr>INTMSK := INTMSK s AND NOT (push_bit (unat n) 1)\<rparr>
      else if n \<ge> IRQ_EINT4 \<and> n \<le> IRQ_EINT7
      then s\<lparr>INTMSK := INTMSK s AND NOT (push_bit 4 1),
             EINTMASK := EINTMASK s AND NOT (push_bit (unat (n - EXTINT_OFFSET)) 1)\<rparr>
      else if n \<ge> IRQ_EINT4 \<and> n \<le> IRQ_EINT7
      then s\<lparr>INTMSK := INTMSK s AND NOT (push_bit 5 1),
             EINTMASK := EINTMASK s AND NOT (push_bit (unat (n - EXTINT_OFFSET)) 1)\<rparr>
      else s)"

definition desc_mask :: "irq_chip \<Rightarrow> u32 \<Rightarrow> 'a irqst_scheme \<Rightarrow> 'a irqst_scheme" where
  "desc_mask c n s = (case c of Irqext \<Rightarrow> s3c24xx_irqext_mask n s | Irqint \<Rightarrow> s3c24xx_irq_mask n s)"

definition desc_unmask :: "irq_chip \<Rightarrow> u32 \<Rightarrow> 'a irqst_scheme \<Rightarrow> 'a irqst_scheme" where
  "desc_unmask c n s = (case c of Irqext \<Rightarrow> s3c24xx_irqext_unmask n s | Irqint \<Rightarrow> s3c24xx_irq_unmask n s)"

text \<open>\<open>common_irq_handler\<close>: which interrupt number the hardware offset stands for. The search over the
  pending external lines leaves \<open>oft\<close> as it was when none is pending.\<close>

fun eint_scan :: "nat list \<Rightarrow> u32 \<Rightarrow> u32 \<Rightarrow> u32" where
  "eint_scan [] eintpend oft = oft"
| "eint_scan (b # bs) eintpend oft =
     (if eintpend AND push_bit b 1 \<noteq> 0 then of_nat b else eint_scan bs eintpend oft)"

definition common_irq_number :: "u32 \<Rightarrow> u32 \<Rightarrow> u32" where
  "common_irq_number oft eintpend =
     (if oft = IRQ_EINT4t7 \<or> oft = IRQ_EINT8t23
      then eint_scan [4..<24] eintpend oft + EXTINT_OFFSET else oft)"

section \<open>Descriptors\<close>

text \<open>Interrupt numbers are signed in these functions and only compared with the upper bound; a
  negative one reads outside the table.\<close>

definition deliver_irq ::
  "(addr \<Rightarrow> addr \<Rightarrow> 'a irqst_scheme \<Rightarrow> 'a irqst_scheme) \<Rightarrow> int \<Rightarrow> 'a irqst_scheme \<Rightarrow> 'a irqst_scheme option" where
  "deliver_irq run irq_num s =
     (if \<not> OS_RUNNING s then None
      else if irq_num \<ge> MAX_IRQ_NUMBER then Some s
      else if irq_num < 0 then None
      else
        let d = irq_desc_table s (nat irq_num)
        in if d \<noteq> NULL \<and> d_irq_handler (desc_at s d) \<noteq> NULL
           then
             let s1 = s\<lparr>OSIntNesting := OSIntNesting s + 1\<rparr>;
                 s2 = upd_desc d (\<lambda>e. e\<lparr>d_count := d_count e + 1\<rparr>) s1;
                 s3 = run (d_irq_handler (desc_at s2 d)) (d_priv (desc_at s2 d)) s2
             in Some (s3\<lparr>OSIntNesting := OSIntNesting s3 - 1\<rparr>)
           else Some s)"

definition register_irq_desc :: "addr \<Rightarrow> 'a irqst_scheme \<Rightarrow> int \<times> 'a irqst_scheme" where
  "register_irq_desc d s =
     (if d = NULL then (- EINVAL, s)
      else if int (unat (d_irq_num (desc_at s d))) \<ge> MAX_IRQ_NUMBER then (- ENOMEM, s)
      else if irq_desc_table s (unat (d_irq_num (desc_at s d))) \<noteq> NULL then (- EBUSY, s)
      else (0, s\<lparr>irq_desc_table := (irq_desc_table s)(unat (d_irq_num (desc_at s d)) := d)\<rparr>))"

text \<open>\<open>unregister_irq_desc\<close> frees the descriptor and then reads its number from the freed memory;
  \<open>kfree\<close> leaves the bytes alone, so the entry is still found.\<close>

definition unregister_irq_desc ::
  "(addr \<Rightarrow> 'a irqst_scheme \<Rightarrow> 'a irqst_scheme option) \<Rightarrow> u32 \<Rightarrow> 'a irqst_scheme \<Rightarrow> 'a irqst_scheme option" where
  "unregister_irq_desc kfree irq_num s =
     (if int (unat irq_num) \<ge> MAX_IRQ_NUMBER then Some s
      else
        let d = irq_desc_table s (unat irq_num)
        in case kfree d s of
             None \<Rightarrow> None
           | Some s1 \<Rightarrow>
               if d = NULL then None
               else Some (s1\<lparr>irq_desc_table := (irq_desc_table s1)(unat (d_irq_num (desc_at s1 d)) := NULL)\<rparr>))"

definition request_irq :: "int \<Rightarrow> addr \<Rightarrow> u32 \<Rightarrow> addr \<Rightarrow> 'a irqst_scheme \<Rightarrow> (int \<times> 'a irqst_scheme) option" where
  "request_irq irq_num irq_handler flag priv s =
     (if irq_handler = NULL then Some (- EINVAL, s)
      else if irq_num \<ge> MAX_IRQ_NUMBER then Some (- ENOMEM, s)
      else if irq_num < 0 then None
      else
        let d = irq_desc_table s (nat irq_num)
        in if d = NULL then None
           else if d_irq_handler (desc_at s d) \<noteq> NULL then Some (- EBUSY, s)
           else
             let s1 = upd_desc d (\<lambda>e. e\<lparr>d_priv := priv, d_irq_handler := irq_handler\<rparr>) s
             in Some (0, desc_unmask (d_chip (desc_at s1 d)) (of_int irq_num) s1))"

definition free_irq :: "int \<Rightarrow> 'a irqst_scheme \<Rightarrow> 'a irqst_scheme option" where
  "free_irq irq_num s =
     (if irq_num \<ge> MAX_IRQ_NUMBER then Some s
      else if irq_num < 0 then None
      else
        let d = irq_desc_table s (nat irq_num)
        in if d = NULL then Some s
           else
             let s1 = desc_mask (d_chip (desc_at s d)) (of_int irq_num) s
             in Some (upd_desc d (\<lambda>e. e\<lparr>d_irq_handler := NULL, d_flag := 0, d_count := 0\<rparr>) s1))"

text \<open>\<open>s3c24xx_init_irq\<close> registers one descriptor per line; \<open>alloc\<close> is the \<open>kmalloc\<close> of the
  descriptor for a line, and \<open>panic\<close> on a failure is \<open>None\<close>.\<close>

definition init_desc :: "nat \<Rightarrow> irq_desc \<Rightarrow> irq_desc" where
  "init_desc n e =
     e\<lparr>d_irq_num := of_nat n,
       d_chip := (if of_nat n \<le> IRQ_EINT3 \<or> of_nat n \<ge> IRQ_EINT4 \<and> of_nat n \<le> IRQ_EINT23
                  then Irqext else Irqint)\<rparr>"

fun init_irq_loop :: "(nat \<Rightarrow> addr) \<Rightarrow> nat list \<Rightarrow> 'a irqst_scheme \<Rightarrow> 'a irqst_scheme option" where
  "init_irq_loop alloc [] s = Some s"
| "init_irq_loop alloc (n # ns) s =
     (if alloc n = NULL then None
      else case register_irq_desc (alloc n) (upd_desc (alloc n) (init_desc n) s) of
             (r, s1) \<Rightarrow> if r < 0 then None else init_irq_loop alloc ns s1)"

definition s3c24xx_init_irq :: "(nat \<Rightarrow> addr) \<Rightarrow> 'a irqst_scheme \<Rightarrow> 'a irqst_scheme option" where
  "s3c24xx_init_irq alloc s = init_irq_loop alloc [0..<Suc (unat IRQ_EINT23)] s"

section \<open>Lemmas\<close>

datatype crit = Enter | Exit

fun crit_run :: "crit list \<Rightarrow> 'a irqst_scheme \<Rightarrow> 'a irqst_scheme" where
  "crit_run [] s = s"
| "crit_run (Enter # ops) s = crit_run ops (enter_critical s)"
| "crit_run (Exit # ops) s = crit_run ops (exit_critical s)"

fun depth :: "crit list \<Rightarrow> nat \<Rightarrow> nat option" where
  "depth [] n = Some n"
| "depth (Enter # ops) n = depth ops (Suc n)"
| "depth (Exit # ops) n = (case n of 0 \<Rightarrow> None | Suc m \<Rightarrow> depth ops m)"

text \<open>Outside an interrupt the lock count is the depth and the mask is open exactly at depth 0.\<close>

definition crit_ok :: "nat \<Rightarrow> 'a irqst_scheme \<Rightarrow> bool" where
  "crit_ok n s \<longleftrightarrow> OSIntNesting s = 0 \<and> cirtical_lock s = of_nat n \<and> (irq_on s \<longleftrightarrow> n = 0)"

lemma crit_ok_enter [inv_pres]: "crit_ok n s \<Longrightarrow> crit_ok (Suc n) (enter_critical s)"
  by (simp add: crit_ok_def enter_critical_def disable_irq_def add.commute)

lemma crit_ok_exit [inv_pres]:
  assumes "crit_ok (Suc n) s" "Suc n < 2 ^ 32"
  shows "crit_ok n (exit_critical s)"
proof -
  have "unat (of_nat (Suc n) :: u32) = Suc n" "unat (of_nat n :: u32) = n"
    using assms(2) by (simp_all only: unat_of_nat_small)
  then have "(of_nat (Suc n) :: u32) > 0" "(of_nat n :: u32) = 0 \<longleftrightarrow> n = 0"
    by (simp_all add: word_less_nat_alt) (metis unat_0 word_unat_eq_iff of_nat_0)
  with assms(1) show ?thesis by (simp add: crit_ok_def exit_critical_def enable_irq_def Let_def)
qed

lemma crit_run_ok:
  "crit_ok n s \<Longrightarrow> depth ops n = Some d \<Longrightarrow> n + length ops < 2 ^ 32 \<Longrightarrow> crit_ok d (crit_run ops s)"
proof (induction ops arbitrary: n s)
  case (Cons a ops)
  show ?case
  proof (cases a)
    case Enter
    with Cons.prems Cons.IH [of "Suc n" "enter_critical s"] show ?thesis by (auto intro: inv_pres)
  next
    case Exit
    with Cons.prems obtain m where m: "n = Suc m" "depth ops m = Some d" by (cases n) auto
    with Cons.prems have "crit_ok m (exit_critical s)" by (intro crit_ok_exit) simp_all
    with m Cons.prems Exit Cons.IH [of m "exit_critical s"] show ?thesis by simp
  qed
qed simp

lemma crit_frame:
  "desc_at (enter_critical s) = desc_at s" "desc_at (exit_critical s) = desc_at s"
  "irq_desc_table (enter_critical s) = irq_desc_table s" "irq_desc_table (exit_critical s) = irq_desc_table s"
  "OSIntNesting (enter_critical s) = OSIntNesting s" "OSIntNesting (exit_critical s) = OSIntNesting s"
  by (simp_all add: enter_critical_def exit_critical_def disable_irq_def enable_irq_def Let_def)

lemma chip_frame [simp]:
  "desc_at (desc_mask c n s) = desc_at s" "desc_at (desc_unmask c n s) = desc_at s"
  "irq_desc_table (desc_mask c n s) = irq_desc_table s" "irq_desc_table (desc_unmask c n s) = irq_desc_table s"
  "OSIntNesting (desc_unmask c n s) = OSIntNesting s" "OS_RUNNING (desc_unmask c n s) = OS_RUNNING s"
  "OS_RUNNING (desc_mask c n s) = OS_RUNNING s"
  by (simp_all add: desc_mask_def desc_unmask_def s3c24xx_irqext_mask_def s3c24xx_irqext_unmask_def
      s3c24xx_irq_mask_def s3c24xx_irq_unmask_def split: irq_chip.splits)

definition demo_irq :: irqst where
  "demo_irq = \<lparr>irq_on = True, cirtical_lock = 0, OSIntNesting = 0, OS_RUNNING = True,
     irq_desc_table = (\<lambda>_. NULL), desc_at = (\<lambda>_. \<lparr>d_irq_num = 0, d_priv = 0, d_irq_handler = NULL,
       d_chip = Irqint, d_flag = 0, d_count = 0\<rparr>), INTMSK = 0xffffffff, EINTMASK = 0xffffffff\<rparr>"

definition line :: "nat \<Rightarrow> addr" where
  "line n = 0x30100000 + of_nat n * 64"

lemma line_not_null: "n < 64 \<Longrightarrow> line n \<noteq> NULL"
proof
  assume n: "n < 64" "line n = NULL"
  have "(0x30100000 + of_nat n * 64 :: u32) = of_nat (0x30100000 + n * 64)" by simp
  then have "unat (line n) = 0x30100000 + n * 64"
    using n(1) unat_of_nat_small [of "0x30100000 + n * 64"] by (simp add: line_def)
  with n(2) show False by simp
qed

section \<open>Properties\<close>

text \<open>
  C8. Critical sections nest. Outside an interrupt, after any sequence of \<open>enter_critical\<close> and
  \<open>exit_critical\<close> in which no exit lacks its enter, the lock count is the nesting depth and
  interrupts are enabled exactly when the depth is zero.
\<close>

theorem critical_sections_nest:
  assumes "OSIntNesting s = 0" "cirtical_lock s = of_nat n" "irq_on s \<longleftrightarrow> n = 0"
    and "depth ops n = Some d" "n + length ops < 2 ^ 32"
  shows "cirtical_lock (crit_run ops s) = of_nat d \<and> (irq_on (crit_run ops s) \<longleftrightarrow> d = 0)"
proof -
  have "crit_ok n s" using assms(1-3) by (simp add: crit_ok_def)
  from crit_run_ok [OF this assms(4,5)] show ?thesis by (simp add: crit_ok_def)
qed

theorem critical_sections_nest_witness:
  "cirtical_lock (crit_run [Enter, Enter, Exit] demo_irq) = of_nat 1 \<and>
   (irq_on (crit_run [Enter, Enter, Exit] demo_irq) \<longleftrightarrow> (1 :: nat) = 0)"
  by (rule critical_sections_nest [where n = 0]) (simp_all add: demo_irq_def)

text \<open>
  C28. Installing a handler. On a line that has a descriptor and no handler, \<open>request_irq\<close> succeeds;
  a second request for the line is refused with \<open>EBUSY\<close>; a delivery then runs that handler with
  its private pointer, inside an interrupt (nesting count one higher), with the line's count
  incremented, and a handler that leaves the nesting count alone finds it restored; after
  \<open>free_irq\<close> a delivery runs nothing.
\<close>

theorem request_deliver_free:
  assumes "0 \<le> n" "n < MAX_IRQ_NUMBER" "OS_RUNNING s" "h \<noteq> NULL"
    and "irq_desc_table s (nat n) = d" "d \<noteq> NULL" "d_irq_handler (desc_at s d) = NULL"
    and "\<And>t. OSIntNesting (run h priv t) = OSIntNesting t"
  shows "\<exists>s1 s2 s3. request_irq n h flag priv s = Some (0, s1) \<and>
     request_irq n h' flag' priv' s1 = (if h' = NULL then Some (- EINVAL, s1) else Some (- EBUSY, s1)) \<and>
     s2 = run h priv (upd_desc d (\<lambda>e. e\<lparr>d_count := d_count e + 1\<rparr>) (s1\<lparr>OSIntNesting := OSIntNesting s + 1\<rparr>)) \<and>
     deliver_irq run n s1 = Some (s2\<lparr>OSIntNesting := OSIntNesting s\<rparr>) \<and>
     free_irq n s1 = Some s3 \<and> deliver_irq run n s3 = Some s3"
proof -
  let ?s1 = "desc_unmask (d_chip (desc_at s d)) (of_int n) (upd_desc d (\<lambda>e. e\<lparr>d_priv := priv, d_irq_handler := h\<rparr>) s)"
  have 1: "request_irq n h flag priv s = Some (0, ?s1)"
    using assms by (simp add: request_irq_def Let_def)
  have h: "d_irq_handler (desc_at ?s1 d) = h" "d_priv (desc_at ?s1 d) = priv" "irq_desc_table ?s1 (nat n) = d"
    "OS_RUNNING ?s1" "OSIntNesting ?s1 = OSIntNesting s"
    using assms by simp_all
  have 2: "request_irq n h' flag' priv' ?s1 = (if h' = NULL then Some (- EINVAL, ?s1) else Some (- EBUSY, ?s1))"
    unfolding request_irq_def using assms(1,2,4,6) h by simp
  let ?t = "upd_desc d (\<lambda>e. e\<lparr>d_count := d_count e + 1\<rparr>) (?s1\<lparr>OSIntNesting := OSIntNesting s + 1\<rparr>)"
  have 3: "deliver_irq run n ?s1 = Some ((run h priv ?t)\<lparr>OSIntNesting := OSIntNesting s\<rparr>)"
    unfolding deliver_irq_def using assms(1,2,4,6) h assms(8) [of ?t] by (simp add: Let_def)
  let ?s3 = "upd_desc d (\<lambda>e. e\<lparr>d_irq_handler := NULL, d_flag := 0, d_count := 0\<rparr>)
    (desc_mask (d_chip (desc_at ?s1 d)) (of_int n) ?s1)"
  have 4: "free_irq n ?s1 = Some ?s3" unfolding free_irq_def using assms(1,2,6) h by (simp add: Let_def)
  have 5: "deliver_irq run n ?s3 = Some ?s3"
    unfolding deliver_irq_def using assms(1,2,6) h(3,4) by (simp add: Let_def)
  show ?thesis using 1 2 3 4 5 by blast
qed

theorem request_deliver_free_witness:
  "\<exists>s1 s2 s3. request_irq 10 0x8000 0 0x99 (demo_irq\<lparr>irq_desc_table := line\<rparr>) = Some (0, s1) \<and>
     request_irq 10 0x9000 0 0 s1 = (if (0x9000 :: addr) = NULL then Some (- EINVAL, s1) else Some (- EBUSY, s1)) \<and>
     s2 = upd_desc (line 10) (\<lambda>e. e\<lparr>d_count := d_count e + 1\<rparr>) (s1\<lparr>OSIntNesting := OSIntNesting (demo_irq\<lparr>irq_desc_table := line\<rparr>) + 1\<rparr>) \<and>
     deliver_irq (\<lambda>h p s. s) 10 s1 = Some (s2\<lparr>OSIntNesting := OSIntNesting (demo_irq\<lparr>irq_desc_table := line\<rparr>)\<rparr>) \<and>
     free_irq 10 s1 = Some s3 \<and> deliver_irq (\<lambda>h p s. s) 10 s3 = Some s3"
  by (rule request_deliver_free [where n = 10 and run = "\<lambda>h p s. s"])
    (simp_all add: MAX_IRQ_NUMBER_def demo_irq_def line_not_null)

text \<open>
  C29. Lines 36 to 51 (external interrupts 8 to 23) are never unmasked. \<open>request_irq\<close> on such a line
  reports success but leaves both mask registers as they were, because the second branch of
  \<open>s3c24xx_irqext_unmask\<close> repeats the condition of the first.
\<close>

theorem eint8_23_stays_masked:
  assumes "36 \<le> n" "n \<le> 51" "h \<noteq> NULL" "irq_desc_table s (nat n) = d" "d \<noteq> NULL"
    and "d_irq_handler (desc_at s d) = NULL" "d_chip (desc_at s d) = Irqext"
  shows "\<exists>s1. request_irq n h flag priv s = Some (0, s1) \<and> INTMSK s1 = INTMSK s \<and> EINTMASK s1 = EINTMASK s"
proof -
  define k where "k = nat n"
  have k: "n = int k" "36 \<le> k" "k \<le> 51" using assms(1,2) by (simp_all add: k_def)
  have n: "unat (of_int n :: u32) = k" using k unat_of_nat_small [of k] by simp
  have "\<not> of_int n \<le> IRQ_EINT3" "\<not> of_int n \<le> IRQ_EINT7"
    using k(2) by (simp_all add: word_le_nat_alt n IRQ_EINT3_def IRQ_EINT7_def)
  then show ?thesis
    using assms by (simp add: request_irq_def MAX_IRQ_NUMBER_def Let_def desc_unmask_def s3c24xx_irqext_unmask_def)
qed

theorem eint8_23_stays_masked_witness:
  "\<exists>s1. request_irq 40 0x8000 0 0 (demo_irq\<lparr>irq_desc_table := line, desc_at := (\<lambda>a. init_desc 40 (desc_at demo_irq a))\<rparr>) = Some (0, s1) \<and>
     INTMSK s1 = INTMSK (demo_irq\<lparr>irq_desc_table := line, desc_at := (\<lambda>a. init_desc 40 (desc_at demo_irq a))\<rparr>) \<and>
     EINTMASK s1 = EINTMASK (demo_irq\<lparr>irq_desc_table := line, desc_at := (\<lambda>a. init_desc 40 (desc_at demo_irq a))\<rparr>)"
  by (rule eint8_23_stays_masked [where d = "line 40"])
    (simp_all add: demo_irq_def line_not_null init_desc_def IRQ_EINT3_def IRQ_EINT4_def IRQ_EINT23_def)

end
