(* ===== verification/Timer.thy ===== *)
theory Timer
  imports Irq Lib_List
begin

text \<open>
  Kernel timers (\<^verbatim>\<open>src/driver/timer.c\<close>): a list of one-shot countdowns on the intrusive list of
  \<^verbatim>\<open>src/lib/list.c\<close>, walked once per clock tick. A timer is named by its address, its list node
  is the field \<open>list\<close> at offset 12. What a timer function does is the argument \<open>fire\<close>.
  The locale \<open>timer_callback\<close> states what a timer function must leave alone for a tick to be
  a plain pass over the list.
\<close>

section \<open>State and operations\<close>

record tmst = irqst +
  links :: lheap
  timer_list_head :: addr
  tm_expires :: "addr \<Rightarrow> u32"
  tm_data :: "addr \<Rightarrow> addr"
  tm_function :: "addr \<Rightarrow> addr"

definition timer_node :: "addr \<Rightarrow> addr" where
  "timer_node t = t + 12"

definition timer_entry :: "addr \<Rightarrow> addr" where
  "timer_entry l = l - 12"

lemma timer_entry_node [simp]: "timer_entry (timer_node t) = t" "timer_node (timer_entry l) = l"
  by (simp_all add: timer_node_def timer_entry_def)

lemma timer_node_inj [simp]: "timer_node t = timer_node u \<longleftrightarrow> t = u"
  by (simp add: timer_node_def)

partial_function (option) timer_search :: "lheap \<Rightarrow> addr \<Rightarrow> addr \<Rightarrow> addr \<Rightarrow> bool option" where
  "timer_search h head l timer =
     (if l = head then Some False
      else if timer_entry l = timer then Some True
      else timer_search h head (nxt h l) timer)"

definition add_timer :: "addr \<Rightarrow> 'a tmst_scheme \<Rightarrow> (int \<times> 'a tmst_scheme) option" where
  "add_timer timer s =
     (if timer = NULL then Some (- EINVAL, s)
      else
        let s1 = enter_critical s
        in case timer_search (links s1) (timer_list_head s1) (nxt (links s1) (timer_list_head s1)) timer of
             None \<Rightarrow> None
           | Some True \<Rightarrow> Some (0, s1)
           | Some False \<Rightarrow>
               Some (0, exit_critical
                 (s1\<lparr>links := list_add_tail (timer_node timer) (timer_list_head s1) (links s1)\<rparr>)))"

definition del_timer :: "addr \<Rightarrow> 'a tmst_scheme \<Rightarrow> 'a tmst_scheme option" where
  "del_timer timer s =
     (if timer = NULL then Some s
      else
        let s1 = enter_critical s
        in case list_del (timer_node timer) (links s1) of
             None \<Rightarrow> None
           | Some h \<Rightarrow> Some (exit_critical (s1\<lparr>links := INIT_LIST_HEAD (timer_node timer) h\<rparr>)))"

definition mod_timer :: "addr \<Rightarrow> u32 \<Rightarrow> 'a tmst_scheme \<Rightarrow> (int \<times> 'a tmst_scheme) option" where
  "mod_timer timer expires s =
     (if timer = NULL then Some (- EINVAL, s)
      else
        let s1 = enter_critical s
        in case timer_search (links s1) (timer_list_head s1) (nxt (links s1) (timer_list_head s1)) timer of
             None \<Rightarrow> None
           | Some True \<Rightarrow> Some (0, exit_critical (s1\<lparr>tm_expires := (tm_expires s1)(timer := expires)\<rparr>))
           | Some False \<Rightarrow> Some (- 1, exit_critical s1))"

definition timer_tick ::
  "(addr \<Rightarrow> addr \<Rightarrow> 'a tmst_scheme \<Rightarrow> 'a tmst_scheme) \<Rightarrow> addr \<Rightarrow> 'a tmst_scheme \<Rightarrow> 'a tmst_scheme" where
  "timer_tick fire t s =
     (if tm_expires s t > 0
      then
        let s1 = s\<lparr>tm_expires := (tm_expires s)(t := tm_expires s t - 1)\<rparr>
        in if tm_expires s1 t = 0 then fire (tm_function s1 t) (tm_data s1 t) s1 else s1
      else s)"

partial_function (option) timer_loop ::
  "(addr \<Rightarrow> addr \<Rightarrow> 'a tmst_scheme \<Rightarrow> 'a tmst_scheme) \<Rightarrow> addr \<Rightarrow> 'a tmst_scheme \<Rightarrow> 'a tmst_scheme option" where
  "timer_loop fire l s =
     (if l = timer_list_head s then Some s
      else timer_loop fire (nxt (links s) l) (timer_tick fire (timer_entry l) s))"

definition timer_list_process ::
  "(addr \<Rightarrow> addr \<Rightarrow> 'a tmst_scheme \<Rightarrow> 'a tmst_scheme) \<Rightarrow> 'a tmst_scheme \<Rightarrow> 'a tmst_scheme option" where
  "timer_list_process fire s =
     (if list_empty (timer_list_head s) (links s) then Some s
      else timer_loop fire (nxt (links s) (timer_list_head s)) s)"

definition timer_list_init :: "'a tmst_scheme \<Rightarrow> 'a tmst_scheme" where
  "timer_list_init s = s\<lparr>links := INIT_LIST_HEAD (timer_list_head s) (links s)\<rparr>"

section \<open>The pending timers\<close>

definition pending :: "'a tmst_scheme \<Rightarrow> addr list \<Rightarrow> bool" where
  "pending s ts \<longleftrightarrow> ring (links s) (timer_list_head s) (map timer_node ts)"

lemma crit_tmst [simp]:
  "links (enter_critical s) = links s" "links (exit_critical s) = links s"
  "timer_list_head (enter_critical s) = timer_list_head s" "timer_list_head (exit_critical s) = timer_list_head s"
  "tm_expires (enter_critical s) = tm_expires s" "tm_expires (exit_critical s) = tm_expires s"
  by (simp_all add: enter_critical_def exit_critical_def disable_irq_def enable_irq_def Let_def)

lemma crit_ok_update [simp]:
  "crit_ok n (s\<lparr>links := h\<rparr>) = crit_ok n s" "crit_ok n (s\<lparr>tm_expires := e\<rparr>) = crit_ok n s"
  by (simp_all add: crit_ok_def)

lemma timer_search_seg:
  "seg h a (map timer_node ts) head \<Longrightarrow> head \<notin> set (map timer_node ts) \<Longrightarrow>
   timer_search h head (nxt h a) t = Some (t \<in> set ts)"
proof (induction ts arbitrary: a)
  case Nil
  then show ?case by (subst timer_search.simps) simp
next
  case (Cons u ts)
  then have "nxt h a = timer_node u" "timer_node u \<noteq> head" by auto
  moreover have "timer_search h head (nxt h (timer_node u)) t = Some (t \<in> set ts)"
    using Cons by simp
  ultimately show ?case by (subst timer_search.simps) auto
qed

lemma timer_search_pending:
  "pending s ts \<Longrightarrow> timer_search (links s) (timer_list_head s) (nxt (links s) (timer_list_head s)) t = Some (t \<in> set ts)"
  by (rule timer_search_seg) (auto simp: pending_def ring_def)

lemma pending_init: "pending (timer_list_init s) []"
  by (simp add: pending_def timer_list_init_def ring_init)

lemma add_timer_new:
  assumes "pending s ts" "t \<noteq> NULL" "t \<notin> set ts" "timer_node t \<noteq> timer_list_head s"
  shows "\<exists>s'. add_timer t s = Some (0, s') \<and> pending s' (ts @ [t]) \<and> s' = exit_critical
     ((enter_critical s)\<lparr>links := list_add_tail (timer_node t) (timer_list_head s) (links s)\<rparr>)"
proof -
  have "pending (enter_critical s) ts" using assms(1) by (simp add: pending_def)
  from timer_search_pending [OF this, of t] assms have "add_timer t s = Some (0, exit_critical
     ((enter_critical s)\<lparr>links := list_add_tail (timer_node t) (timer_list_head s) (links s)\<rparr>))"
    by (simp add: add_timer_def Let_def)
  moreover have "ring (list_add_tail (timer_node t) (timer_list_head s) (links s)) (timer_list_head s) (map timer_node ts @ [timer_node t])"
    by (rule ring_list_add_tail) (use assms in \<open>auto simp: pending_def\<close>)
  ultimately show ?thesis by (simp add: pending_def)
qed

lemma add_timer_again:
  assumes "pending s ts" "t \<noteq> NULL" "t \<in> set ts"
  shows "add_timer t s = Some (0, enter_critical s)"
proof -
  have "pending (enter_critical s) ts" using assms(1) by (simp add: pending_def)
  from timer_search_pending [OF this, of t] assms show ?thesis by (simp add: add_timer_def Let_def)
qed

lemma del_timer_pending:
  assumes "pending s (ts @ t # us)" "t \<noteq> NULL" "check_addr (timer_node t)"
  shows "\<exists>s'. del_timer t s = Some s' \<and> pending s' (ts @ us)"
proof -
  have r: "ring (links s) (timer_list_head s) (map timer_node ts @ timer_node t # map timer_node us)"
    using assms(1) by (simp add: pending_def)
  from ring_list_del [OF r assms(3)] obtain h where
    h: "list_del (timer_node t) (links s) = Some h" "ring h (timer_list_head s) (map timer_node ts @ map timer_node us)"
      "ring h (timer_node t) []" by blast
  have "nxt h (timer_node t) = timer_node t" "prv h (timer_node t) = timer_node t"
    using h(3) by (simp_all add: ring_def)
  then have "INIT_LIST_HEAD (timer_node t) h = h" by (simp add: INIT_LIST_HEAD_def set_next_def set_prev_def fun_upd_idem)
  with h assms(2) show ?thesis by (simp add: del_timer_def Let_def pending_def)
qed

section \<open>One tick\<close>

text \<open>What a timer function may not touch: the timers and their list.\<close>

locale timer_callback =
  fixes fire :: "addr \<Rightarrow> addr \<Rightarrow> 'a tmst_scheme \<Rightarrow> 'a tmst_scheme"
  assumes fire_links: "links (fire f d s) = links s"
    and fire_head: "timer_list_head (fire f d s) = timer_list_head s"
    and fire_function: "tm_function (fire f d s) = tm_function s"
    and fire_data: "tm_data (fire f d s) = tm_data s"
    and fire_expires: "fire f d (s\<lparr>tm_expires := e\<rparr>) = (fire f d s)\<lparr>tm_expires := e\<rparr>"
begin

lemma fire_keeps_expires: "tm_expires (fire f d s) = tm_expires s"
proof -
  have "fire f d s = fire f d (s\<lparr>tm_expires := tm_expires s\<rparr>)" by simp
  also have "\<dots> = (fire f d s)\<lparr>tm_expires := tm_expires s\<rparr>" by (rule fire_expires)
  finally have "tm_expires (fire f d s) = tm_expires ((fire f d s)\<lparr>tm_expires := tm_expires s\<rparr>)" by (rule arg_cong)
  then show ?thesis by simp
qed

lemmas keeps = fire_links fire_head fire_function fire_data fire_keeps_expires

lemma tick_keeps:
  "links (timer_tick fire t s) = links s" "timer_list_head (timer_tick fire t s) = timer_list_head s"
  "tm_function (timer_tick fire t s) = tm_function s" "tm_data (timer_tick fire t s) = tm_data s"
  by (simp_all add: timer_tick_def Let_def keeps)

lemma loop_is_fold:
  "seg (links s) a (map timer_node ts) (timer_list_head s) \<Longrightarrow> timer_list_head s \<notin> set (map timer_node ts) \<Longrightarrow>
   timer_loop fire (nxt (links s) a) s = Some (fold (timer_tick fire) ts s)"
proof (induction ts arbitrary: a s)
  case Nil
  then show ?case by (subst timer_loop.simps) simp
next
  case (Cons t ts)
  then have "nxt (links s) a = timer_node t" "timer_node t \<noteq> timer_list_head s" by auto
  moreover have "timer_loop fire (nxt (links s) (timer_node t)) (timer_tick fire t s) = Some (fold (timer_tick fire) ts (timer_tick fire t s))"
    using Cons.IH [of "timer_tick fire t s" "timer_node t"] Cons.prems by (simp add: tick_keeps)
  ultimately show ?case by (subst timer_loop.simps) simp
qed

lemma process_is_fold:
  assumes "pending s ts"
  shows "timer_list_process fire s = Some (fold (timer_tick fire) ts s)"
proof -
  have "list_empty (timer_list_head s) (links s) \<longleftrightarrow> ts = []"
    using list_empty_ring [of "links s" "timer_list_head s" "map timer_node ts"] assms by (simp add: pending_def)
  moreover have "timer_loop fire (nxt (links s) (timer_list_head s)) s = Some (fold (timer_tick fire) ts s)"
    by (rule loop_is_fold) (use assms in \<open>auto simp: pending_def ring_def\<close>)
  ultimately show ?thesis by (simp add: timer_list_process_def)
qed

lemma fold_tick:
  "distinct ts \<Longrightarrow> fold (timer_tick fire) ts s =
     (fold (\<lambda>t u. fire (tm_function s t) (tm_data s t) u) (filter (\<lambda>t. tm_expires s t = 1) ts) s)
       \<lparr>tm_expires := (\<lambda>t. if t \<in> set ts then tm_expires s t - (if tm_expires s t > 0 then 1 else 0) else tm_expires s t)\<rparr>"
proof (induction ts arbitrary: s)
  case (Cons t ts)
  let ?e = "(tm_expires s)(t := tm_expires s t - (if tm_expires s t > 0 then 1 else 0))"
  define s1 where "s1 = (if tm_expires s t = 1 then fire (tm_function s t) (tm_data s t) s else s)"
  have tick: "timer_tick fire t s = s1\<lparr>tm_expires := ?e\<rparr>"
    by (auto simp: timer_tick_def Let_def s1_def fire_expires word_gt_0 fun_upd_idem)
  have s1: "tm_function s1 = tm_function s" "tm_data s1 = tm_data s" "tm_expires s1 = tm_expires s"
    by (simp_all add: s1_def keeps)
  have comm: "fold (\<lambda>t u. fire (tm_function s t) (tm_data s t) u) us (u\<lparr>tm_expires := e\<rparr>) =
     (fold (\<lambda>t u. fire (tm_function s t) (tm_data s t) u) us u)\<lparr>tm_expires := e\<rparr>" for us u e
    by (induction us arbitrary: u) (simp_all add: fire_expires)
  have same: "filter (\<lambda>u. ?e u = 1) ts = filter (\<lambda>u. tm_expires s u = 1) ts"
    by (rule filter_cong) (use Cons.prems in auto)
  have "fold (timer_tick fire) (t # ts) s = fold (timer_tick fire) ts (s1\<lparr>tm_expires := ?e\<rparr>)"
    by (simp add: tick)
  also have "\<dots> = (fold (\<lambda>t u. fire (tm_function s t) (tm_data s t) u) (filter (\<lambda>u. tm_expires s u = 1) ts) s1)
      \<lparr>tm_expires := (\<lambda>u. if u \<in> set (t # ts) then tm_expires s u - (if tm_expires s u > 0 then 1 else 0) else tm_expires s u)\<rparr>"
    using Cons.prems Cons.IH [of "s1\<lparr>tm_expires := ?e\<rparr>"] same
    by (auto simp: s1 comm fun_eq_iff intro!: arg_cong [of _ _ "\<lambda>e. _\<lparr>tm_expires := e\<rparr>"])
  finally show ?case by (simp add: s1_def)
qed simp

end

end
