(* ===== verification/Sched.thy ===== *)
theory Sched
  imports Timer
begin

text \<open>
  Tasks and the scheduler: \<^verbatim>\<open>src/proc/pcb.c\<close>, \<^verbatim>\<open>src/proc/preempt.c\<close> and the run queues, sleep list
  and clock tick of \<^verbatim>\<open>src/proc/proc.c\<close>. A task is named by the address of its \<open>task_struct\<close>. Each
  priority has a ring of tasks with a dummy head (pid -1) and a cursor; sleeping tasks are on a second
  ring. Both rings are heaps of links like those of \<open>Lib_List\<close>. A switch of context (assembly) is
  the assignment of \<open>current\<close>; \<open>panic\<close> never returns and is \<open>None\<close>.
\<close>

section \<open>State\<close>

definition PROCESS_READY :: u32 where "PROCESS_READY = 0"
definition PROCESS_SLEEP :: u32 where "PROCESS_SLEEP = 1"
definition PROCESS_WAIT :: u32 where "PROCESS_WAIT = 2"
definition PROCESS_PRIO_NORMAL :: nat where "PROCESS_PRIO_NORMAL = 2"
definition PROCESS_PRIO_BUTT :: nat where "PROCESS_PRIO_BUTT = 5"
definition MAX_TASK_NUM :: nat where "MAX_TASK_NUM = 128"
definition TASK_STACK_SIZE :: u32 where "TASK_STACK_SIZE = 0x2000"
definition HZ :: u32 where "HZ = 100"

record pt_regs =
  ARM_pc :: u32
  ARM_cpsr :: u32
  ARM_lr :: u32
  ARM_sp :: u32
  ARM_r :: "nat \<Rightarrow> u32"

record task =
  t_regs :: pt_regs
  t_sp :: u32
  t_sp_size :: u32
  t_pid :: int
  t_state :: u32
  t_sleep_time :: u32
  t_prio :: nat
  t_time_slice :: int
  t_ticks :: int
  t_preempt_count :: u32
  t_root :: addr
  t_pwd :: addr
  t_filp :: "nat \<Rightarrow> addr"
  t_mm :: addr

text \<open>\<open>pcb_addr\<close>, \<open>stack_addr\<close> and \<open>task_wq_list\<close> are the addresses of the elements of the static
  arrays \<open>task_pcb\<close> and \<open>task_sp\<close> and of the wait queue head inside a task.\<close>

record sched = tmst +
  task_at :: "addr \<Rightarrow> task"
  run_links :: lheap
  sleep_links :: lheap
  proc_head :: "nat \<Rightarrow> addr"
  proc_current :: "nat \<Rightarrow> addr"
  sleep_head :: addr
  current :: addr
  next_run :: addr
  old_task :: addr
  OS_TICKS :: u32
  next_pid :: u32
  cur_pcb :: nat
  cur_sp :: nat
  pcb_addr :: "nat \<Rightarrow> addr"
  stack_addr :: "nat \<Rightarrow> addr"
  task_wq_list :: "addr \<Rightarrow> addr"

abbreviation upd_task :: "addr \<Rightarrow> (task \<Rightarrow> task) \<Rightarrow> 'a sched_scheme \<Rightarrow> 'a sched_scheme" where
  "upd_task t f s \<equiv> s\<lparr>task_at := (task_at s)(t := f (task_at s t))\<rparr>"

section \<open>Creating tasks\<close>

definition alloc_pcb :: "'a sched_scheme \<Rightarrow> addr \<times> 'a sched_scheme" where
  "alloc_pcb s =
     (if cur_pcb s < MAX_TASK_NUM
      then (pcb_addr s (cur_pcb s),
            s\<lparr>links := INIT_LIST_HEAD (task_wq_list s (pcb_addr s (cur_pcb s))) (links s), cur_pcb := cur_pcb s + 1\<rparr>)
      else (NULL, s))"

definition alloc_stack :: "'a sched_scheme \<Rightarrow> addr \<times> 'a sched_scheme" where
  "alloc_stack s =
     (if cur_sp s < MAX_TASK_NUM then (stack_addr s (cur_sp s), s\<lparr>cur_sp := cur_sp s + 1\<rparr>) else (NULL, s))"

definition pcb_list_add :: "addr \<Rightarrow> addr \<Rightarrow> lheap \<Rightarrow> lheap" where
  "pcb_list_add head pcb h =
     (let h1 = set_next pcb (nxt h head) h;
          h2 = set_prev pcb head h1;
          h3 = set_prev (nxt h2 head) pcb h2
      in set_next head pcb h3)"

text \<open>The arguments of the thread are not stored: every thread starts with \<open>r0 = 0xa5\<close>.\<close>

definition DO_INIT_CONTEXT :: "addr \<Rightarrow> addr \<Rightarrow> addr \<Rightarrow> u32 \<Rightarrow> u32 \<Rightarrow> pt_regs" where
  "DO_INIT_CONTEXT fn args lr cpsr sp =
     \<lparr>ARM_pc = fn, ARM_cpsr = cpsr, ARM_lr = lr, ARM_sp = sp,
      ARM_r = (\<lambda>i. if i = 0 then 0xa5 else of_nat i)\<rparr>"

definition thread_task :: "addr \<Rightarrow> addr \<Rightarrow> addr \<Rightarrow> u32 \<Rightarrow> u32 \<Rightarrow> nat \<Rightarrow> task \<Rightarrow> 'a sched_scheme \<Rightarrow> task" where
  "thread_task f args thread_exit cpsr sp prio e s =
     e\<lparr>t_sp := sp + TASK_STACK_SIZE, t_sp_size := TASK_STACK_SIZE, t_prio := prio,
       t_pid := sint (next_pid s), t_time_slice := 5, t_ticks := 5,
       t_root := t_root (task_at s (current s)), t_pwd := t_pwd (task_at s (current s)),
       t_filp := t_filp (task_at s (current s)),
       t_regs := DO_INIT_CONTEXT f args thread_exit (0x1f AND cpsr) (sp + TASK_STACK_SIZE),
       t_mm := t_mm (task_at s (current s))\<rparr>"

definition kernel_thread :: "addr \<Rightarrow> addr \<Rightarrow> addr \<Rightarrow> u32 \<Rightarrow> 'a sched_scheme \<Rightarrow> int \<times> 'a sched_scheme" where
  "kernel_thread f args thread_exit cpsr s =
     (let (pcb, s1) = alloc_pcb s
      in if pcb = NULL then (- ENOMEM, s1)
         else
           let (sp, s2) = alloc_stack s1
           in if sp = NULL then (- ENOMEM, s2)
              else
                let s3 = upd_task pcb (\<lambda>e. thread_task f args thread_exit cpsr sp PROCESS_PRIO_NORMAL
                            (e\<lparr>t_preempt_count := 0\<rparr>) s2) s2;
                    s4 = s3\<lparr>next_pid := next_pid s3 + 1\<rparr>;
                    (flags, s5) = arch_local_irq_save s4;
                    s6 = s5\<lparr>run_links := pcb_list_add (proc_head s5 PROCESS_PRIO_NORMAL) pcb (run_links s5)\<rparr>
                in (0, arch_local_irq_restore flags s6))"

text \<open>\<open>prio\<close> is not checked; a priority outside the table indexes past it, so callers pass one below
  \<open>PROCESS_PRIO_BUTT\<close>.\<close>

definition kernel_thread_prio ::
  "addr \<Rightarrow> addr \<Rightarrow> nat \<Rightarrow> addr \<Rightarrow> u32 \<Rightarrow> 'a sched_scheme \<Rightarrow> (int \<times> 'a sched_scheme) option" where
  "kernel_thread_prio f args prio thread_exit cpsr s =
     (let (pcb, s1) = alloc_pcb s
      in if pcb = NULL then Some (- ENOMEM, s1)
         else
           let (sp, s2) = alloc_stack s1
           in if sp = NULL then Some (- ENOMEM, s2)
              else if prio \<ge> PROCESS_PRIO_BUTT then None
              else
                let s3 = upd_task pcb (\<lambda>e. thread_task f args thread_exit cpsr sp prio e s2) s2;
                    s4 = enter_critical (s3\<lparr>next_pid := next_pid s3 + 1\<rparr>);
                    s5 = s4\<lparr>run_links := pcb_list_add (proc_head s4 prio) pcb (run_links s4)\<rparr>
                in Some (0, exit_critical s5))"

definition add_task_struct :: "addr \<Rightarrow> 'a sched_scheme \<Rightarrow> 'a sched_scheme" where
  "add_task_struct p s =
     (let s1 = enter_critical s
      in exit_critical (s1\<lparr>run_links := pcb_list_add (proc_head s1 (t_prio (task_at s1 p))) p (run_links s1)\<rparr>))"

definition get_new_pid :: "'a sched_scheme \<Rightarrow> u32 \<times> 'a sched_scheme" where
  "get_new_pid s = (next_pid s, s\<lparr>next_pid := next_pid s + 1\<rparr>)"

text \<open>The part of \<open>OS_Init\<close> that sets up the rings.\<close>

primrec init_proc_lists :: "nat \<Rightarrow> 'a sched_scheme \<Rightarrow> 'a sched_scheme" where
  "init_proc_lists 0 s = s"
| "init_proc_lists (Suc prio) s =
     (let s1 = init_proc_lists prio s; hd = proc_head s1 prio
      in upd_task hd (\<lambda>e. e\<lparr>t_pid := - 1\<rparr>)
           (s1\<lparr>run_links := set_prev hd hd (set_next hd hd (run_links s1)),
               proc_current := (proc_current s1)(prio := hd)\<rparr>))"

definition OS_Init_lists :: "'a sched_scheme \<Rightarrow> 'a sched_scheme" where
  "OS_Init_lists s =
     (let h = sleep_head s;
          s1 = upd_task h (\<lambda>e. e\<lparr>t_pid := - 1\<rparr>)
                 (s\<lparr>sleep_links := set_prev h h (set_next h h (sleep_links s))\<rparr>)
      in init_proc_lists PROCESS_PRIO_BUTT s1)"

section \<open>Choosing the next task\<close>

definition selectable :: "'a sched_scheme \<Rightarrow> addr \<Rightarrow> bool" where
  "selectable s t \<longleftrightarrow> t_pid (task_at s t) \<noteq> - 1 \<and> t_state (task_at s t) = PROCESS_READY"

partial_function (option) ready_scan :: "'a sched_scheme \<Rightarrow> nat \<Rightarrow> addr \<Rightarrow> addr option option" where
  "ready_scan s prio tmp =
     (let t = nxt (run_links s) tmp
      in if selectable s t then Some (Some t)
         else if t = proc_current s prio then Some None
         else ready_scan s prio t)"

fun next_ready_from :: "nat list \<Rightarrow> 'a sched_scheme \<Rightarrow> (addr \<times> 'a sched_scheme) option" where
  "next_ready_from [] s = None"
| "next_ready_from (prio # prios) s =
     (case ready_scan s prio (proc_current s prio) of
        None \<Rightarrow> None
      | Some (Some t) \<Rightarrow>
          Some (t, s\<lparr>proc_current := (proc_current s)(prio := t), old_task := current s\<rparr>)
      | Some None \<Rightarrow> next_ready_from prios s)"

definition OS_GetNextReady :: "'a sched_scheme \<Rightarrow> (addr \<times> 'a sched_scheme) option" where
  "OS_GetNextReady s = next_ready_from [0..<PROCESS_PRIO_BUTT] s"

definition OS_IntSched :: "'a sched_scheme \<Rightarrow> 'a sched_scheme option" where
  "OS_IntSched s = map_option (\<lambda>(t, s1). s1\<lparr>current := t\<rparr>) (OS_GetNextReady s)"

text \<open>\<open>OS_Sched\<close> up to and after the switch in \<open>__soft_schedule\<close>, which makes \<open>next_run\<close> current.\<close>

definition OS_Sched :: "'a sched_scheme \<Rightarrow> 'a sched_scheme option" where
  "OS_Sched s =
     (if \<not> OS_RUNNING s then None
      else
        (case OS_GetNextReady (kernel_disable_irq s) of
           None \<Rightarrow> None
         | Some (t, s1) \<Rightarrow>
             let s2 = s1\<lparr>next_run := t\<rparr>; s3 = s2\<lparr>current := next_run s2\<rparr>
             in Some (kernel_enable_irq s3)))"

definition schedule :: "'a sched_scheme \<Rightarrow> 'a sched_scheme option" where
  "schedule s = (if OSIntNesting s > 0 then OS_IntSched s else OS_Sched s)"

section \<open>Task states and sleeping\<close>

definition set_task_state :: "addr \<Rightarrow> u32 \<Rightarrow> 'a sched_scheme \<Rightarrow> 'a sched_scheme" where
  "set_task_state t st s = exit_critical (upd_task t (\<lambda>e. e\<lparr>t_state := st\<rparr>) (enter_critical s))"

definition set_current_state :: "u32 \<Rightarrow> 'a sched_scheme \<Rightarrow> 'a sched_scheme" where
  "set_current_state st s = set_task_state (current s) st s"

definition clr_task_status :: "u32 \<Rightarrow> 'a sched_scheme \<Rightarrow> 'a sched_scheme" where
  "clr_task_status status s =
     (let s1 = enter_critical s
      in exit_critical (upd_task (current s1) (\<lambda>e. e\<lparr>t_state := t_state e AND NOT status\<rparr>) s1))"

definition process_timeout :: "addr \<Rightarrow> 'a sched_scheme \<Rightarrow> 'a sched_scheme" where
  "process_timeout data s = set_task_state data PROCESS_READY s"

definition add_current_to_sleep_list :: "'a sched_scheme \<Rightarrow> 'a sched_scheme" where
  "add_current_to_sleep_list s =
     (let c = current s; hd = sleep_head s;
          h1 = set_prev (nxt (sleep_links s) hd) c (sleep_links s);
          h2 = set_next c (nxt h1 hd) h1;
          h3 = set_prev c hd h2
      in s\<lparr>sleep_links := set_next hd c h3\<rparr>)"

definition process_sleep :: "u32 \<Rightarrow> 'a sched_scheme \<Rightarrow> 'a sched_scheme option" where
  "process_sleep sec s =
     (let s1 = enter_critical s;
          s2 = upd_task (current s1) (\<lambda>e. e\<lparr>t_state := t_state e OR PROCESS_SLEEP, t_sleep_time := sec * HZ\<rparr>) s1
      in OS_Sched (exit_critical (add_current_to_sleep_list s2)))"

definition process_msleep :: "u32 \<Rightarrow> 'a sched_scheme \<Rightarrow> 'a sched_scheme option" where
  "process_msleep m s =
     (let s1 = enter_critical s;
          st = m * HZ div 1000;
          s2 = upd_task (current s1) (\<lambda>e. e\<lparr>t_state := t_state e OR PROCESS_SLEEP,
                 t_sleep_time := (if st = 0 then 1 else st)\<rparr>) s1
      in OS_Sched (exit_critical (add_current_to_sleep_list s2)))"

text \<open>One sleeper of \<open>update_sleeping_proc\<close>: count down, and wake at zero.\<close>

definition sleeper_tick :: "addr \<Rightarrow> 'a sched_scheme \<Rightarrow> 'a sched_scheme" where
  "sleeper_tick t s =
     (let s1 = upd_task t (\<lambda>e. if t_sleep_time e > 0 then e\<lparr>t_sleep_time := t_sleep_time e - 1\<rparr> else e) s
      in if t_sleep_time (task_at s1 t) = 0
         then (upd_task t (\<lambda>e. e\<lparr>t_state := t_state e AND NOT PROCESS_SLEEP\<rparr>) s1)
                \<lparr>sleep_links := list_del_between (prv (sleep_links s1) t) (nxt (sleep_links s1) t) (sleep_links s1)\<rparr>
         else s1)"

partial_function (option) sleep_loop :: "addr \<Rightarrow> 'a sched_scheme \<Rightarrow> 'a sched_scheme option" where
  "sleep_loop tmp s =
     (if tmp = sleep_head s then Some s
      else let s1 = sleeper_tick tmp s in sleep_loop (nxt (sleep_links s1) tmp) s1)"

definition update_sleeping_proc :: "'a sched_scheme \<Rightarrow> 'a sched_scheme option" where
  "update_sleeping_proc s = sleep_loop (nxt (sleep_links s) (sleep_head s)) s"

text \<open>The clock interrupt. The count of nested interrupts is taken down here before the switch,
  because \<open>OS_IntSched\<close> does not return to \<open>deliver_irq\<close>.\<close>

definition OS_Clock_Tick ::
  "(addr \<Rightarrow> addr \<Rightarrow> 'a sched_scheme \<Rightarrow> 'a sched_scheme) \<Rightarrow> 'a sched_scheme \<Rightarrow> 'a sched_scheme option" where
  "OS_Clock_Tick fire s =
     (case timer_list_process fire (s\<lparr>OS_TICKS := OS_TICKS s + 1\<rparr>) of
        None \<Rightarrow> None
      | Some s1 \<Rightarrow>
          (case update_sleeping_proc s1 of
             None \<Rightarrow> None
           | Some s2 \<Rightarrow>
               let s3 = upd_task (current s2) (\<lambda>e. if t_ticks e > 0 then e\<lparr>t_ticks := t_ticks e - 1\<rparr> else e) s2
               in if t_ticks (task_at s3 (current s3)) > 0 then Some s3
                  else
                    let s4 = upd_task (current s3) (\<lambda>e. e\<lparr>t_ticks := t_time_slice e\<rparr>) s3
                    in OS_IntSched (s4\<lparr>OSIntNesting := OSIntNesting s4 - 1\<rparr>)))"

section \<open>Preemption counters and wait queues\<close>

definition add_preempt_count :: "u32 \<Rightarrow> 'a sched_scheme \<Rightarrow> 'a sched_scheme" where
  "add_preempt_count v s = upd_task (current s) (\<lambda>e. e\<lparr>t_preempt_count := t_preempt_count e + v\<rparr>) s"

definition sub_preempt_count :: "u32 \<Rightarrow> 'a sched_scheme \<Rightarrow> 'a sched_scheme" where
  "sub_preempt_count v s =
     upd_task (current s) (\<lambda>e. e\<lparr>t_preempt_count :=
        (if t_preempt_count e \<ge> v then t_preempt_count e - v else 0)\<rparr>) s"

text \<open>A wait queue entry holds the waiting task in \<open>priv\<close>; the functions return the entry's new \<open>priv\<close>.\<close>

definition prepare_to_wait :: "u32 \<Rightarrow> 'a sched_scheme \<Rightarrow> addr \<times> 'a sched_scheme" where
  "prepare_to_wait st s = (current s, upd_task (current s) (\<lambda>e. e\<lparr>t_state := t_state e OR st\<rparr>) s)"

definition finish_wait :: "addr \<Rightarrow> 'a sched_scheme \<Rightarrow> 'a sched_scheme" where
  "finish_wait priv s = (if priv = NULL then s else upd_task priv (\<lambda>e. e\<lparr>t_state := PROCESS_READY\<rparr>) s)"

definition wake_up_interruptible :: "addr \<Rightarrow> 'a sched_scheme \<Rightarrow> 'a sched_scheme" where
  "wake_up_interruptible priv s = (if priv = NULL then s else upd_task priv (\<lambda>e. e\<lparr>t_state := PROCESS_READY\<rparr>) s)"

end
