(* ===== verification/Sched_Inv.thy ===== *)
theory Sched_Inv
  imports Sched
begin

text \<open>
  What the scheduler guarantees: the task it picks, round-robin fairness within a priority, and the
  sleep list. \<open>runq\<close> says that the tasks of a priority form a well-linked ring with the cursor on it;
  \<open>sleepers\<close> says the same of the sleep list.
\<close>

section \<open>Walking a ring from its cursor\<close>

fun path :: "lheap \<Rightarrow> addr \<Rightarrow> addr list \<Rightarrow> bool" where
  "path h a [] = True"
| "path h a (x # xs) = (nxt h a = x \<and> path h x xs)"

lemma path_append: "path h a (xs @ ys) \<longleftrightarrow> path h a xs \<and> path h (last (a # xs)) ys"
  by (induction xs arbitrary: a) auto

lemma seg_path: "seg h a xs b \<Longrightarrow> path h a (xs @ [b])"
  by (induction xs arbitrary: a) auto

text \<open>The nodes of the ring \<open>rt # ts\<close> in the order in which they follow \<open>c\<close>, ending with \<open>c\<close>.\<close>

definition after :: "addr \<Rightarrow> addr list \<Rightarrow> addr \<Rightarrow> addr list" where
  "after rt ts c = tl (dropWhile (\<lambda>x. x \<noteq> c) (rt # ts)) @ takeWhile (\<lambda>x. x \<noteq> c) (rt # ts) @ [c]"

lemma after_split:
  assumes "rt # ts = xs @ c # ys" "c \<notin> set xs"
  shows "after rt ts c = ys @ xs @ [c]"
  unfolding after_def assms(1) takeWhile_upto [OF assms(2)] dropWhile_upto [OF assms(2)] by simp

lemma split_unique: "a @ u # b = us @ u # vs \<Longrightarrow> u \<notin> set a \<Longrightarrow> u \<notin> set us \<Longrightarrow> us = a \<and> vs = b"
proof (induction a arbitrary: us)
  case Nil
  then show ?case by (cases us) auto
next
  case (Cons x a)
  then show ?case by (cases us) auto
qed

lemma ring_split:
  assumes "ring h rt ts" "c \<in> set (rt # ts)"
  obtains xs ys where "rt # ts = xs @ c # ys" "c \<notin> set xs" "c \<notin> set ys" "after rt ts c = ys @ xs @ [c]"
    "distinct (xs @ c # ys)"
proof -
  obtain xs ys where s: "rt # ts = xs @ c # ys" "c \<notin> set xs" using assms(2) by (meson split_list_first)
  have d: "distinct (xs @ c # ys)" using ring_distinct [OF assms(1)] by (simp only: s(1))
  then have "c \<notin> set ys" by simp
  from that [OF s this after_split [OF s] d] show thesis .
qed

lemma set_after: "ring h rt ts \<Longrightarrow> c \<in> set (rt # ts) \<Longrightarrow> set (after rt ts c) = set (rt # ts)"
proof -
  assume a: "ring h rt ts" "c \<in> set (rt # ts)"
  obtain xs ys where s: "rt # ts = xs @ c # ys" "after rt ts c = ys @ xs @ [c]" using ring_split [OF a] by metis
  show ?thesis unfolding s by auto
qed

lemma after_path:
  assumes r: "ring h rt ts" and c: "c \<in> set (rt # ts)"
  shows "path h c (after rt ts c)"
proof -
  obtain xs ys where s: "rt # ts = xs @ c # ys" "after rt ts c = ys @ xs @ [c]"
    using ring_split [OF r c] by metis
  have p: "path h rt (ts @ [rt])" using r by (auto simp: ring_def intro: seg_path)
  show ?thesis
  proof (cases xs)
    case Nil
    then show ?thesis using s p by simp
  next
    case (Cons x xs')
    then have "x = rt" "ts = xs' @ c # ys" using s(1) by simp_all
    then show ?thesis using p s(2) Cons by (simp add: path_append split: if_splits)
  qed
qed

text \<open>Moving the cursor to a later node rotates the order.\<close>

lemma after_from_pick:
  assumes r: "ring h rt ts" and c: "c \<in> set (rt # ts)" and L: "after rt ts c = us @ u # vs"
  shows "after rt ts u = vs @ us @ [u]"
proof -
  obtain xs ys where s: "rt # ts = xs @ c # ys" "after rt ts c = ys @ xs @ [c]" and d: "distinct (xs @ c # ys)"
    using ring_split [OF r c] by metis
  have eq: "ys @ xs @ [c] = us @ u # vs" using s(2) L by simp
  have "distinct (us @ u # vs)" unfolding eq [symmetric] using d by auto
  then have us: "u \<notin> set us" by simp
  have "u \<in> set (ys @ xs @ [c])" unfolding eq by simp
  then consider "u \<in> set ys" | "u \<in> set xs" | "u = c" by auto
  then show ?thesis
  proof cases
    case 1
    then obtain a b where y: "ys = a @ u # b" "u \<notin> set a" by (meson split_list_first)
    then have "us = a \<and> vs = b @ xs @ [c]" using eq us by (intro split_unique) simp_all
    moreover have "after rt ts u = b @ (xs @ c # a) @ [u]"
      by (rule after_split) (use s(1) y d in auto)
    ultimately show ?thesis by simp
  next
    case 2
    then obtain a b where x: "xs = a @ u # b" "u \<notin> set a" by (meson split_list_first)
    then have "us = ys @ a \<and> vs = b @ [c]"
      using eq us d by (intro split_unique) auto
    moreover have "after rt ts u = (b @ c # ys) @ a @ [u]"
      by (rule after_split) (use s(1) x d in auto)
    ultimately show ?thesis by simp
  next
    case 3
    then have "us = ys @ xs \<and> vs = []"
      using eq us d by (intro split_unique) auto
    then show ?thesis using 3 s(2) by simp
  qed
qed

lemma scan_path:
  assumes "path (run_links s) a (L @ [proc_current s p])" "proc_current s p \<notin> set L"
  shows "ready_scan s p a = Some (find (selectable s) (L @ [proc_current s p]))"
  using assms
proof (induction L arbitrary: a)
  case Nil
  then show ?case by (subst ready_scan.simps) simp
next
  case (Cons x L)
  then show ?case by (subst ready_scan.simps) auto
qed

section \<open>The run queues\<close>

definition runq :: "'a sched_scheme \<Rightarrow> nat \<Rightarrow> addr list \<Rightarrow> bool" where
  "runq s p ts \<longleftrightarrow> ring (run_links s) (proc_head s p) ts \<and> proc_current s p \<in> set (proc_head s p # ts) \<and>
     t_pid (task_at s (proc_head s p)) = - 1 \<and> (\<forall>t \<in> set ts. t_pid (task_at s t) \<noteq> - 1)"

definition ready :: "'a sched_scheme \<Rightarrow> addr \<Rightarrow> bool" where
  "ready s t \<longleftrightarrow> t_state (task_at s t) = PROCESS_READY"

definition order_at :: "'a sched_scheme \<Rightarrow> nat \<Rightarrow> addr list \<Rightarrow> addr list" where
  "order_at s p ts = after (proc_head s p) ts (proc_current s p)"

lemma runqD:
  "runq s p ts \<Longrightarrow> ring (run_links s) (proc_head s p) ts" "runq s p ts \<Longrightarrow> proc_current s p \<in> set (proc_head s p # ts)"
  by (auto simp: runq_def)

lemma selectable_ready:
  "runq s p ts \<Longrightarrow> t \<in> set (proc_head s p # ts) \<Longrightarrow> selectable s t \<longleftrightarrow> t \<in> set ts \<and> ready s t"
  by (auto simp: runq_def selectable_def ready_def ring_def)

lemma set_order: "runq s p ts \<Longrightarrow> set (order_at s p ts) = set (proc_head s p # ts)"
  unfolding order_at_def by (rule set_after [OF runqD])

lemma scan_runq:
  assumes "runq s p ts"
  shows "ready_scan s p (proc_current s p) = Some (find (selectable s) (order_at s p ts))"
proof -
  obtain xs ys where s: "order_at s p ts = ys @ xs @ [proc_current s p]"
    "proc_current s p \<notin> set xs" "proc_current s p \<notin> set ys"
    using ring_split [OF runqD(1) [OF assms] runqD(2) [OF assms]] unfolding order_at_def by metis
  have "path (run_links s) (proc_current s p) (order_at s p ts)"
    unfolding order_at_def by (rule after_path [OF runqD(1) [OF assms] runqD(2) [OF assms]])
  then show ?thesis unfolding s(1) using scan_path [of s "proc_current s p" "ys @ xs" p] s by simp
qed

lemma find_None_iff_set: "find P xs = None \<longleftrightarrow> (\<forall>x \<in> set xs. \<not> P x)"
  by (induction xs) auto

lemma find_Some_split: "find P xs = Some x \<Longrightarrow> \<exists>us vs. xs = us @ x # vs \<and> P x \<and> (\<forall>u \<in> set us. \<not> P u)"
proof (induction xs)
  case (Cons a xs)
  show ?case
  proof (cases "P a")
    case True
    then show ?thesis using Cons.prems by (intro exI [of _ "[]"] exI [of _ xs]) simp
  next
    case False
    then obtain us vs where "xs = us @ x # vs" "P x" "\<forall>u \<in> set us. \<not> P u" using Cons by auto
    then show ?thesis using False by (intro exI [of _ "a # us"] exI [of _ vs]) simp
  qed
qed simp

lemma scan_None_iff:
  assumes "runq s p ts"
  shows "find (selectable s) (order_at s p ts) = None \<longleftrightarrow> (\<forall>t \<in> set ts. \<not> ready s t)"
  using set_order [OF assms] selectable_ready [OF assms] by (auto simp: find_None_iff_set)

lemma next_ready_step:
  assumes "runq s p ts"
  shows "next_ready_from (p # ps) s =
     (case find (selectable s) (order_at s p ts) of
        None \<Rightarrow> next_ready_from ps s
      | Some t \<Rightarrow> Some (t, s\<lparr>proc_current := (proc_current s)(p := t), old_task := current s\<rparr>))"
  using scan_runq [OF assms] by (simp split: option.splits)

lemma next_ready_None:
  assumes "\<And>p. p \<in> set ps \<Longrightarrow> runq s p (q p)"
  shows "next_ready_from ps s = None \<longleftrightarrow> (\<forall>p \<in> set ps. \<forall>t \<in> set (q p). \<not> ready s t)"
  using assms
proof (induction ps)
  case (Cons p ps)
  have r: "runq s p (q p)" using Cons.prems by simp
  have IH: "next_ready_from ps s = None \<longleftrightarrow> (\<forall>p \<in> set ps. \<forall>t \<in> set (q p). \<not> ready s t)"
    by (rule Cons.IH) (simp add: Cons.prems)
  show ?case
    using next_ready_step [OF r, of ps] scan_None_iff [OF r] IH
    by (cases "find (selectable s) (order_at s p (q p))") auto
qed simp

text \<open>\<open>picked\<close>: the first ready task of the ring order, at the first priority that has one.\<close>

definition picked :: "'a sched_scheme \<Rightarrow> nat \<Rightarrow> addr list \<Rightarrow> addr \<Rightarrow> bool" where
  "picked s p ts t \<longleftrightarrow> t \<in> set ts \<and> ready s t \<and>
     (\<exists>us vs. order_at s p ts = us @ t # vs \<and> (\<forall>u \<in> set us. \<not> (u \<in> set ts \<and> ready s u)))"

lemma find_picked:
  assumes r: "runq s p ts" and f: "find (selectable s) (order_at s p ts) = Some t"
  shows "picked s p ts t"
proof -
  obtain us vs where sp: "order_at s p ts = us @ t # vs" "selectable s t" "\<forall>x \<in> set us. \<not> selectable s x"
    using find_Some_split [OF f] by blast
  have sub: "set us \<subseteq> set (proc_head s p # ts)" "t \<in> set (proc_head s p # ts)"
    unfolding set_order [OF r, symmetric] sp(1) by auto
  have "t \<in> set ts \<and> ready s t" using sp(2) selectable_ready [OF r sub(2)] by simp
  moreover have "\<not> (x \<in> set ts \<and> ready s x)" if "x \<in> set us" for x
    using sp(3) that sub(1) selectable_ready [OF r, of x] by blast
  ultimately show ?thesis using sp(1) by (auto simp: picked_def)
qed

lemma next_ready_Some:
  assumes "\<And>p. p \<in> set ps \<Longrightarrow> runq s p (q p)" "next_ready_from ps s = Some (t, s')"
  shows "\<exists>xs p ys. ps = xs @ p # ys \<and> (\<forall>p' \<in> set xs. \<forall>u \<in> set (q p'). \<not> ready s u) \<and> picked s p (q p) t \<and>
     s' = s\<lparr>proc_current := (proc_current s)(p := t), old_task := current s\<rparr>"
  using assms
proof (induction ps)
  case (Cons p ps)
  have r: "runq s p (q p)" using Cons.prems(1) by simp
  show ?case
  proof (cases "find (selectable s) (order_at s p (q p))")
    case None
    have "next_ready_from ps s = Some (t, s')" using next_ready_step [OF r, of ps] None Cons.prems(2) by simp
    then obtain xs p' ys where "ps = xs @ p' # ys" "\<forall>p' \<in> set xs. \<forall>u \<in> set (q p'). \<not> ready s u"
      "picked s p' (q p') t" "s' = s\<lparr>proc_current := (proc_current s)(p' := t), old_task := current s\<rparr>"
      using Cons.IH Cons.prems(1) by (metis list.set_intros(2))
    moreover have "\<forall>u \<in> set (q p). \<not> ready s u" using None scan_None_iff [OF r] by simp
    ultimately show ?thesis
      by - (rule exI [of _ "p # xs"], rule exI [of _ p'], rule exI [of _ ys], simp add: fun_upd_def)
  next
    case (Some u)
    then have "t = u" "s' = s\<lparr>proc_current := (proc_current s)(p := t), old_task := current s\<rparr>"
      using next_ready_step [OF r, of ps] Cons.prems(2) by auto
    then show ?thesis using find_picked [OF r Some]
      by - (rule exI [of _ "[]"], rule exI [of _ p], rule exI [of _ ps], simp add: fun_upd_def)
  qed
qed simp

lemma OS_GetNextReady_Some:
  assumes "\<And>p. p < PROCESS_PRIO_BUTT \<Longrightarrow> runq s p (q p)" "OS_GetNextReady s = Some (t, s')"
  shows "\<exists>p < PROCESS_PRIO_BUTT. (\<forall>p' < p. \<forall>u \<in> set (q p'). \<not> ready s u) \<and> picked s p (q p) t \<and>
     s' = s\<lparr>proc_current := (proc_current s)(p := t), old_task := current s\<rparr>"
proof -
  obtain xs p ys where x: "[0..<PROCESS_PRIO_BUTT] = xs @ p # ys" "\<forall>p' \<in> set xs. \<forall>u \<in> set (q p'). \<not> ready s u"
    "picked s p (q p) t" "s' = s\<lparr>proc_current := (proc_current s)(p := t), old_task := current s\<rparr>"
    using next_ready_Some [of "[0..<PROCESS_PRIO_BUTT]" s q t s'] assms by (auto simp: OS_GetNextReady_def)
  have len: "length xs < PROCESS_PRIO_BUTT" using arg_cong [OF x(1), of length] by simp
  have "p = [0..<PROCESS_PRIO_BUTT] ! length xs" unfolding x(1) by simp
  then have p: "p = length xs" using len by simp
  have "xs = take (length xs) [0..<PROCESS_PRIO_BUTT]" unfolding x(1) by simp
  then have "xs = [0..<p]" using len p by simp
  note this len [folded p]
  then show ?thesis using x by auto
qed

text \<open>Moving a cursor to a task of its ring keeps every queue and every state.\<close>

lemma ready_move [simp]: "ready (s\<lparr>proc_current := c, old_task := o'\<rparr>) = ready s"
  by (simp add: ready_def fun_eq_iff)

lemma runq_move:
  "runq s p' ts' \<Longrightarrow> (p' = p \<Longrightarrow> t \<in> set ts') \<Longrightarrow>
   runq (s\<lparr>proc_current := (proc_current s)(p := t), old_task := o'\<rparr>) p' ts'"
  by (auto simp: runq_def)

fun picks :: "nat \<Rightarrow> 'a sched_scheme \<Rightarrow> addr list option" where
  "picks 0 s = Some []"
| "picks (Suc n) s =
     (case OS_GetNextReady s of None \<Rightarrow> None | Some (t, s1) \<Rightarrow> map_option (Cons t) (picks n s1))"

lemma pick_step:
  assumes q: "\<And>p. p < PROCESS_PRIO_BUTT \<Longrightarrow> runq s p (q p)" and p: "p < PROCESS_PRIO_BUTT"
    and t: "t \<in> set (q p)" "ready s t" and no: "\<forall>p' < p. \<forall>u \<in> set (q p'). \<not> ready s u"
  obtains u where "picked s p (q p) u"
    "OS_GetNextReady s = Some (u, s\<lparr>proc_current := (proc_current s)(p := u), old_task := current s\<rparr>)"
proof -
  have "next_ready_from [0..<PROCESS_PRIO_BUTT] s \<noteq> None"
    using next_ready_None [of "[0..<PROCESS_PRIO_BUTT]" s q] q p t by auto
  then obtain u s' where g: "OS_GetNextReady s = Some (u, s')" by (auto simp: OS_GetNextReady_def)
  from OS_GetNextReady_Some [OF q this] obtain p' where p': "p' < PROCESS_PRIO_BUTT"
    "\<forall>p'' < p'. \<forall>u \<in> set (q p''). \<not> ready s u" "picked s p' (q p') u"
    "s' = s\<lparr>proc_current := (proc_current s)(p' := u), old_task := current s\<rparr>" by auto
  have "\<not> p < p'" using p'(2) t by blast
  moreover have "\<not> p' < p" using no p'(3) by (auto simp: picked_def)
  ultimately have "p' = p" by simp
  then show thesis using that p' g by blast
qed

lemma pick_within:
  assumes "\<And>p. p < PROCESS_PRIO_BUTT \<Longrightarrow> runq s p (q p)" "p < PROCESS_PRIO_BUTT"
    and "t \<in> set (q p)" "ready s t" "\<forall>p' < p. \<forall>u \<in> set (q p'). \<not> ready s u"
    and "order_at s p (q p) = us @ t # vs"
  shows "\<exists>k L. k \<le> length us \<and> picks (Suc k) s = Some L \<and> t \<in> set L"
  using assms
proof (induction us arbitrary: s vs rule: length_induct)
  case (1 us)
  obtain u where u: "picked s p (q p) u"
    "OS_GetNextReady s = Some (u, s\<lparr>proc_current := (proc_current s)(p := u), old_task := current s\<rparr>)"
    using pick_step [of s q p t] "1.prems" by metis
  let ?s = "s\<lparr>proc_current := (proc_current s)(p := u), old_task := current s\<rparr>"
  show ?case
  proof (cases "u = t")
    case True
    then show ?thesis using u(2) by (intro exI [of _ 0] exI [of _ "[t]"]) simp
  next
    case False
    obtain us1 vs1 where o: "order_at s p (q p) = us1 @ u # vs1" "\<forall>x \<in> set us1. \<not> (x \<in> set (q p) \<and> ready s x)"
      and um: "u \<in> set (q p)" using u(1) by (auto simp: picked_def)
    have "t \<notin> set us1" using o(2) "1.prems"(3,4) by blast
    then have "t \<in> set vs1" using o(1) "1.prems"(6) False by (metis UnE in_set_conv_decomp set_ConsD set_append)
    then obtain a b where ab: "vs1 = a @ t # b" "t \<notin> set a" by (meson split_list_first)
    have r: "ring (run_links s) (proc_head s p) (q p)" "proc_current s p \<in> set (proc_head s p # q p)"
      using "1.prems"(1,2) runqD by metis+
    have d: "distinct (order_at s p (q p))"
      by (rule ring_split [OF r]) (auto simp: order_at_def)
    have "distinct (us @ t # vs)" using d by (simp only: "1.prems"(6))
    then have "t \<notin> set us" by simp
    then have us: "us = us1 @ u # a"
      using split_unique [of us t vs "us1 @ u # a" b] o(1) ab d "1.prems"(6) by auto
    have new: "order_at ?s p (q p) = a @ t # (b @ us1 @ [u])"
      using after_from_pick [OF r, of us1 u vs1] o(1) ab(1) by (simp add: order_at_def)
    have "\<exists>k L. k \<le> length a \<and> picks (Suc k) ?s = Some L \<and> t \<in> set L"
    proof (rule "1.IH" [rule_format, of a ?s "b @ us1 @ [u]"])
      show "length a < length us" by (simp add: us)
      show "runq ?s p' (q p')" if "p' < PROCESS_PRIO_BUTT" for p'
        by (rule runq_move) (use "1.prems"(1) that um in auto)
    qed (use "1.prems"(2-5) new in auto)
    then obtain k L where "k \<le> length a" "picks (Suc k) ?s = Some L" "t \<in> set L" by blast
    then show ?thesis using u(2) by (intro exI [of _ "Suc k"] exI [of _ "u # L"]) (simp add: us)
  qed
qed

section \<open>The sleep list\<close>

definition sleepers :: "'a sched_scheme \<Rightarrow> addr list \<Rightarrow> bool" where
  "sleepers s ss \<longleftrightarrow> ring (sleep_links s) (sleep_head s) ss"

definition slept :: "task \<Rightarrow> task" where
  "slept e = (let e1 = (if t_sleep_time e > 0 then e\<lparr>t_sleep_time := t_sleep_time e - 1\<rparr> else e)
     in if t_sleep_time e1 = 0 then e1\<lparr>t_state := t_state e1 AND NOT PROCESS_SLEEP\<rparr> else e1)"

definition stays :: "task \<Rightarrow> bool" where
  "stays e \<longleftrightarrow> t_sleep_time e > 1"

lemma word_gt_1: "(x :: u32) > 1 \<longleftrightarrow> x \<noteq> 0 \<and> x \<noteq> 1"
proof -
  have "1 < unat x \<longleftrightarrow> unat x \<noteq> unat (0 :: u32) \<and> unat x \<noteq> unat (1 :: u32)" by simp linarith
  then show ?thesis by (simp only: word_less_nat_alt word_unat_eq_iff unat_1)
qed

lemma slept_stays: "stays e \<longleftrightarrow> t_sleep_time (slept e) \<noteq> 0"
  by (auto simp: stays_def slept_def Let_def word_gt_1 word_gt_0)

lemma sleeper_tick_eq:
  "sleeper_tick t s = s\<lparr>task_at := (task_at s)(t := slept (task_at s t)),
     sleep_links := (if stays (task_at s t) then sleep_links s
       else list_del_between (prv (sleep_links s) t) (nxt (sleep_links s) t) (sleep_links s))\<rparr>"
  by (auto simp: sleeper_tick_def slept_def stays_def Let_def word_gt_1 word_gt_0)

lemma sleeper_tick_sel:
  "sleep_head (sleeper_tick t s) = sleep_head s"
  "task_at (sleeper_tick t s) u = (if u = t then slept (task_at s t) else task_at s u)"
  "sleep_links (sleeper_tick t s) = (if stays (task_at s t) then sleep_links s
       else list_del_between (prv (sleep_links s) t) (nxt (sleep_links s) t) (sleep_links s))"
  "(sleeper_tick t s)\<lparr>task_at := e, sleep_links := h\<rparr> = s\<lparr>task_at := e, sleep_links := h\<rparr>"
  by (simp_all add: sleeper_tick_eq)

lemma ring_unlink:
  assumes "ring h rt (as @ t # bs)"
  shows "ring (list_del_between (prv h t) (nxt h t) h) rt (as @ bs)"
    and "nxt (list_del_between (prv h t) (nxt h t) h) t = nxt h t"
proof -
  have sg: "seg h rt (as @ t # bs) rt" and d: "distinct (rt # as @ t # bs)" using assms by (auto simp: ring_def)
  show "ring (list_del_between (prv h t) (nxt h t) h) rt (as @ bs)"
    using seg_unlink [OF sg] d by (auto simp: ring_def)
  have "prv h t = (if as = [] then rt else last as)" using sg by (auto dest: seg_last)
  then have "prv h t \<noteq> t" using d by auto
  then show "nxt (list_del_between (prv h t) (nxt h t) h) t = nxt h t" by (simp add: list_del_between_def)
qed

lemma ring_nxt: "ring h rt (as @ t # bs) \<Longrightarrow> nxt h t = (case bs of [] \<Rightarrow> rt | b # _ \<Rightarrow> b)"
  by (auto simp: ring_def dest: seg_first)

lemma sleep_loop_ok:
  assumes "sleepers s (as @ bs)"
  shows "\<exists>h. sleep_loop (case bs of [] \<Rightarrow> sleep_head s | b # _ \<Rightarrow> b) s =
     Some (s\<lparr>task_at := (\<lambda>t. if t \<in> set bs then slept (task_at s t) else task_at s t), sleep_links := h\<rparr>) \<and>
     ring h (sleep_head s) (as @ filter (\<lambda>t. stays (task_at s t)) bs)"
  using assms
proof (induction bs arbitrary: s as)
  case Nil
  then show ?case by (subst sleep_loop.simps) (auto simp: sleepers_def intro!: exI [of _ "sleep_links s"])
next
  case (Cons b bs)
  let ?s = "sleeper_tick b s"
  have r: "ring (sleep_links s) (sleep_head s) (as @ b # bs)" using Cons.prems by (simp add: sleepers_def)
  have d: "b \<noteq> sleep_head s" "b \<notin> set bs" using ring_distinct [OF r] by auto
  note hd = sleeper_tick_sel(1) [of b s]
  have nx: "nxt (sleep_links ?s) b = (case bs of [] \<Rightarrow> sleep_head s | c # _ \<Rightarrow> c)"
    using ring_nxt [OF r] ring_unlink(2) [OF r] by (simp add: sleeper_tick_sel(3))
  define as' where "as' = (if stays (task_at s b) then as @ [b] else as)"
  have "sleepers ?s (as' @ bs)"
    using r ring_unlink(1) [OF r] by (simp add: sleepers_def sleeper_tick_sel(1,3) as'_def)
  from Cons.IH [OF this, unfolded hd] obtain h where h:
    "sleep_loop (case bs of [] \<Rightarrow> sleep_head s | b # _ \<Rightarrow> b) ?s =
       Some (?s\<lparr>task_at := (\<lambda>t. if t \<in> set bs then slept (task_at ?s t) else task_at ?s t), sleep_links := h\<rparr>)"
    "ring h (sleep_head s) (as' @ filter (\<lambda>t. stays (task_at ?s t)) bs)" by blast
  have f: "filter (\<lambda>t. stays (task_at ?s t)) bs = filter (\<lambda>t. stays (task_at s t)) bs"
    by (rule filter_cong) (use d in \<open>auto simp: sleeper_tick_sel(2)\<close>)
  have t: "(\<lambda>t. if t \<in> set bs then slept (task_at ?s t) else task_at ?s t) =
      (\<lambda>t. if t \<in> set (b # bs) then slept (task_at s t) else task_at s t)"
    using d by (auto simp: sleeper_tick_sel(2) fun_eq_iff)
  have "sleep_loop b s = sleep_loop (nxt (sleep_links ?s) b) ?s"
    using d(1) by (subst sleep_loop.simps) (simp add: Let_def)
  also have "\<dots> = Some (s\<lparr>task_at := (\<lambda>t. if t \<in> set (b # bs) then slept (task_at s t) else task_at s t), sleep_links := h\<rparr>)"
    unfolding nx h(1) t by (simp only: sleeper_tick_sel(4))
  finally have "sleep_loop b s = Some (s\<lparr>task_at := (\<lambda>t. if t \<in> set (b # bs) then slept (task_at s t) else task_at s t), sleep_links := h\<rparr>)" .
  moreover have "as' @ filter (\<lambda>t. stays (task_at s t)) bs = as @ filter (\<lambda>t. stays (task_at s t)) (b # bs)"
    by (simp add: as'_def)
  ultimately show ?case using h(2) unfolding f by (simp only: list.case) blast
qed

lemma update_sleeping_ok:
  assumes "sleepers s ss"
  shows "\<exists>h. update_sleeping_proc s =
     Some (s\<lparr>task_at := (\<lambda>t. if t \<in> set ss then slept (task_at s t) else task_at s t), sleep_links := h\<rparr>) \<and>
     ring h (sleep_head s) (filter (\<lambda>t. stays (task_at s t)) ss)"
proof -
  have "nxt (sleep_links s) (sleep_head s) = (case ss of [] \<Rightarrow> sleep_head s | b # _ \<Rightarrow> b)"
    using assms by (auto simp: sleepers_def ring_def dest: seg_first)
  then show ?thesis using sleep_loop_ok [of s "[]" ss] assms by (simp add: update_sleeping_proc_def)
qed

primrec sleep_ticks :: "nat \<Rightarrow> 'a sched_scheme \<Rightarrow> 'a sched_scheme option" where
  "sleep_ticks 0 s = Some s"
| "sleep_ticks (Suc n) s = (case sleep_ticks n s of None \<Rightarrow> None | Some s1 \<Rightarrow> update_sleeping_proc s1)"

text \<open>A sleeper seen after some ticks: how long it still sleeps, and its state.\<close>

definition slept_for :: "nat \<Rightarrow> task \<Rightarrow> task \<Rightarrow> bool" where
  "slept_for k e e' \<longleftrightarrow>
     (if k < unat (t_sleep_time e) then unat (t_sleep_time e') = unat (t_sleep_time e) - k \<and> t_state e' = t_state e
      else t_state e' = t_state e AND NOT PROCESS_SLEEP)"

lemma sleep_ticks_ok:
  assumes "sleepers s ss" "\<forall>t \<in> set ss. 0 < unat (t_sleep_time (task_at s t))"
  shows "\<exists>s'. sleep_ticks k s = Some s' \<and>
     sleepers s' (filter (\<lambda>t. k < unat (t_sleep_time (task_at s t))) ss) \<and>
     (\<forall>t \<in> set ss. slept_for k (task_at s t) (task_at s' t))"
proof (induction k)
  case 0
  have "filter (\<lambda>t. 0 < unat (t_sleep_time (task_at s t))) ss = ss"
    using assms(2) by (rule filter_True)
  then show ?case using assms by (simp add: slept_for_def)
next
  case (Suc k)
  then obtain s1 where s1: "sleep_ticks k s = Some s1"
    "sleepers s1 (filter (\<lambda>t. k < unat (t_sleep_time (task_at s t))) ss)"
    "\<forall>t \<in> set ss. slept_for k (task_at s t) (task_at s1 t)" by blast
  let ?ss = "filter (\<lambda>t. k < unat (t_sleep_time (task_at s t))) ss"
  from update_sleeping_ok [OF s1(2)] obtain h where h:
    "update_sleeping_proc s1 = Some (s1\<lparr>task_at := (\<lambda>t. if t \<in> set ?ss then slept (task_at s1 t) else task_at s1 t), sleep_links := h\<rparr>)"
    "ring h (sleep_head s1) (filter (\<lambda>t. stays (task_at s1 t)) ?ss)" by blast
  have left: "unat (t_sleep_time (task_at s1 t)) = unat (t_sleep_time (task_at s t)) - k"
    "t_state (task_at s1 t) = t_state (task_at s t)" if "t \<in> set ?ss" for t
    using s1(3) that by (auto simp: slept_for_def)
  have st: "stays (task_at s1 t) \<longleftrightarrow> Suc k < unat (t_sleep_time (task_at s t))" if "t \<in> set ?ss" for t
    using left(1) [OF that] that by (simp add: stays_def word_less_nat_alt, linarith)
  have "filter (\<lambda>t. stays (task_at s1 t)) ?ss = filter (\<lambda>t. Suc k < unat (t_sleep_time (task_at s t))) ?ss"
    by (rule filter_cong) (use st in auto)
  also have "\<dots> = filter (\<lambda>t. Suc k < unat (t_sleep_time (task_at s t))) ss"
    by (auto intro!: filter_cong)
  finally have ring': "ring h (sleep_head s1) (filter (\<lambda>t. Suc k < unat (t_sleep_time (task_at s t))) ss)"
    using h(2) by simp
  have "slept_for (Suc k) (task_at s t) (if t \<in> set ?ss then slept (task_at s1 t) else task_at s1 t)" if t: "t \<in> set ss" for t
  proof (cases "t \<in> set ?ss")
    case True
    note l = left [OF True]
    have pos: "t_sleep_time (task_at s1 t) > 0"
      using l(1) True by (simp only: word_less_nat_alt unat_0 set_filter mem_Collect_eq zero_less_diff)
    then have u: "unat (t_sleep_time (task_at s1 t) - 1) = unat (t_sleep_time (task_at s1 t)) - 1"
      by (simp add: unat_minus_one)
    have sl: "t_sleep_time (slept (task_at s1 t)) = t_sleep_time (task_at s1 t) - 1"
      "t_state (slept (task_at s1 t)) = (if stays (task_at s1 t) then t_state (task_at s1 t) else t_state (task_at s1 t) AND NOT PROCESS_SLEEP)"
      using pos by (auto simp: slept_def Let_def stays_def word_gt_1)
    show ?thesis
      using True by (simp add: slept_for_def sl u l st [OF True])
  next
    case False
    then show ?thesis using s1(3) t by (auto simp: slept_for_def)
  qed
  then show ?case using s1(1) h(1) ring' by (auto simp: sleepers_def)
qed

section \<open>Timers and new tasks\<close>

lemma crit_sched [simp]:
  "task_at (enter_critical s) = task_at s" "task_at (exit_critical s) = task_at s"
  "current (enter_critical s) = current s" "current (exit_critical s) = current s"
  "run_links (enter_critical s) = run_links s" "run_links (exit_critical s) = run_links s"
  "sleep_links (enter_critical s) = sleep_links s" "sleep_links (exit_critical s) = sleep_links s"
  "sleep_head (enter_critical s) = sleep_head s" "sleep_head (exit_critical s) = sleep_head s"
  "proc_head (enter_critical s) = proc_head s" "proc_head (exit_critical s) = proc_head s"
  "proc_current (enter_critical s) = proc_current s" "proc_current (exit_critical s) = proc_current s"
  by (simp_all add: enter_critical_def exit_critical_def disable_irq_def enable_irq_def Let_def)

lemma process_timeout_eq:
  "process_timeout d s = (exit_critical (enter_critical s))\<lparr>task_at := (task_at s)(d := (task_at s d)\<lparr>t_state := PROCESS_READY\<rparr>)\<rparr>"
  by (simp add: process_timeout_def set_task_state_def enter_critical_def exit_critical_def disable_irq_def enable_irq_def Let_def)

interpretation wake: timer_callback "\<lambda>f d. process_timeout d"
  by unfold_locales
    (simp_all add: process_timeout_eq enter_critical_def exit_critical_def disable_irq_def enable_irq_def Let_def)

lemma ring_pcb_list_add:
  assumes "ring h rt ts" "t \<notin> set (rt # ts)"
  shows "ring (pcb_list_add rt t h) rt (t # ts)"
proof -
  have n: "nxt h rt = (case ts of [] \<Rightarrow> rt | b # _ \<Rightarrow> b)" using assms(1) by (auto simp: ring_def dest: seg_first)
  then have "nxt h rt \<noteq> t" using assms(2) by (auto split: list.splits)
  then have "pcb_list_add rt t h = list_add t rt h"
    using assms(2) by (auto simp: pcb_list_add_def Let_def list_add_def list_add_between_def set_next_def set_prev_def fun_upd_twist)
  then show ?thesis using ring_list_add [OF assms] by simp
qed

lemma ring_add_current:
  assumes "sleepers s ss" "current s \<notin> set (sleep_head s # ss)"
  shows "sleepers (add_current_to_sleep_list s) (current s # ss)"
proof -
  let ?h = "sleep_links s" and ?c = "current s" and ?r = "sleep_head s"
  have r: "ring ?h ?r ss" using assms(1) by (simp add: sleepers_def)
  have n: "nxt ?h ?r = (case ss of [] \<Rightarrow> ?r | b # _ \<Rightarrow> b)" using r by (auto simp: ring_def dest: seg_first)
  then have "nxt ?h ?r \<noteq> ?c" using assms(2) by (auto split: list.splits)
  then have "sleep_links (add_current_to_sleep_list s) = list_add ?c ?r ?h"
    by (simp add: add_current_to_sleep_list_def Let_def list_add_def list_add_between_def)
  moreover have "sleep_head (add_current_to_sleep_list s) = ?r"
    by (simp add: add_current_to_sleep_list_def Let_def)
  ultimately show ?thesis using ring_list_add [OF r assms(2)] by (simp add: sleepers_def)
qed

lemma OS_Sched_keeps:
  assumes "OS_Sched s = Some s'"
  shows "task_at s' = task_at s" "sleep_links s' = sleep_links s" "sleep_head s' = sleep_head s"
proof -
  have k: "task_at (kernel_disable_irq s) = task_at s" "sleep_links (kernel_disable_irq s) = sleep_links s"
    "sleep_head (kernel_disable_irq s) = sleep_head s"
    by (simp_all add: kernel_disable_irq_def disable_irq_def)
  obtain t s1 where g: "next_ready_from [0..<PROCESS_PRIO_BUTT] (kernel_disable_irq s) = Some (t, s1)"
    and s': "s' = kernel_enable_irq (s1\<lparr>next_run := t, current := t\<rparr>)"
    using assms by (auto simp: OS_Sched_def OS_GetNextReady_def Let_def split: if_splits option.splits)
  have "next_ready_from ps u = Some (t, u') \<Longrightarrow> task_at u' = task_at u \<and> sleep_links u' = sleep_links u \<and> sleep_head u' = sleep_head u"
    for ps and u u' :: "'a sched_scheme"
    by (induction ps) (auto split: option.splits)
  from this [OF g] show "task_at s' = task_at s" "sleep_links s' = sleep_links s" "sleep_head s' = sleep_head s"
    using k by (simp_all add: s' kernel_enable_irq_def enable_irq_def)
qed

section \<open>An example state\<close>

definition demo_sched :: sched where
  "demo_sched = \<lparr>irq_on = True, cirtical_lock = 0, OSIntNesting = 0, OS_RUNNING = True,
     irq_desc_table = (\<lambda>_. NULL), desc_at = (\<lambda>_. \<lparr>d_irq_num = 0, d_priv = 0, d_irq_handler = NULL,
       d_chip = Irqint, d_flag = 0, d_count = 0\<rparr>), INTMSK = 0xffffffff, EINTMASK = 0xffffffff,
     links = \<lparr>nxt = (\<lambda>x. if x = 0x200 then 0x30200c else if x = 0x30200c then 0x200 else x),
       prv = (\<lambda>x. if x = 0x200 then 0x30200c else if x = 0x30200c then 0x200 else x)\<rparr>,
     timer_list_head = 0x200,
     tm_expires = (\<lambda>_. 1), tm_data = (\<lambda>_. 0x1000), tm_function = (\<lambda>_. 0x8000),
     task_at = (\<lambda>t. \<lparr>t_regs = \<lparr>ARM_pc = 0, ARM_cpsr = 0, ARM_lr = 0, ARM_sp = 0, ARM_r = (\<lambda>_. 0)\<rparr>,
       t_sp = 0, t_sp_size = 0, t_pid = (if t = 0x1000 then 7 else if t = 0x2000 then 8 else - 1),
       t_state = 0, t_sleep_time = 0,
       t_prio = 2, t_time_slice = 5, t_ticks = 5, t_preempt_count = 0, t_root = 0, t_pwd = 0,
       t_filp = (\<lambda>_. 0), t_mm = 0\<rparr>),
     run_links = \<lparr>nxt = (\<lambda>x. if x = 2 then 0x1000 else if x = 0x1000 then 2 else if x = 4 then 0x2000
                              else if x = 0x2000 then 4 else x),
                  prv = (\<lambda>x. if x = 2 then 0x1000 else if x = 0x1000 then 2 else if x = 4 then 0x2000
                              else if x = 0x2000 then 4 else x)\<rparr>,
     sleep_links = \<lparr>nxt = (\<lambda>x. x), prv = (\<lambda>x. x)\<rparr>,
     proc_head = of_nat, proc_current = of_nat, sleep_head = 0x100, current = 0x1000,
     next_run = 0, old_task = 0, OS_TICKS = 0, next_pid = 9, cur_pcb = 0, cur_sp = 0,
     pcb_addr = (\<lambda>i. 0x5000), stack_addr = (\<lambda>i. 0x9000), task_wq_list = (\<lambda>t. t + 64)\<rparr>"

definition demo_q :: "nat \<Rightarrow> addr list" where
  "demo_q p = (if p = 2 then [0x1000] else if p = 4 then [0x2000] else [])"

lemma demo_runq: "p < PROCESS_PRIO_BUTT \<Longrightarrow> runq demo_sched p (demo_q p)"
proof -
  assume "p < PROCESS_PRIO_BUTT"
  then have "p = 0 \<or> p = 1 \<or> p = 2 \<or> p = 3 \<or> p = 4" by (auto simp: PROCESS_PRIO_BUTT_def)
  then show ?thesis
    by (elim disjE) (simp_all add: runq_def demo_sched_def demo_q_def ring_def)
qed

lemma demo_ready: "ready demo_sched t"
  by (simp add: ready_def demo_sched_def PROCESS_READY_def)

section \<open>Properties\<close>

text \<open>
  C5. What the scheduler picks. With well-linked run queues, \<open>OS_GetNextReady\<close> does not return
  exactly when no task is ready; otherwise it picks a ready task of the highest priority that has one,
  the first ready one in ring order after that priority's cursor, and moves only this cursor.
\<close>

theorem next_ready_highest:
  assumes "\<And>p. p < PROCESS_PRIO_BUTT \<Longrightarrow> runq s p (q p)"
  shows "(OS_GetNextReady s = None \<longleftrightarrow> (\<forall>p < PROCESS_PRIO_BUTT. \<forall>t \<in> set (q p). \<not> ready s t)) \<and>
     (\<forall>t s'. OS_GetNextReady s = Some (t, s') \<longrightarrow>
        (\<exists>p < PROCESS_PRIO_BUTT. (\<forall>p' < p. \<forall>u \<in> set (q p'). \<not> ready s u) \<and> picked s p (q p) t \<and>
           s' = s\<lparr>proc_current := (proc_current s)(p := t), old_task := current s\<rparr>))"
proof (intro conjI allI impI)
  show "OS_GetNextReady s = None \<longleftrightarrow> (\<forall>p < PROCESS_PRIO_BUTT. \<forall>t \<in> set (q p). \<not> ready s t)"
    using next_ready_None [of "[0..<PROCESS_PRIO_BUTT]" s q] assms by (auto simp: OS_GetNextReady_def)
  fix t s' assume "OS_GetNextReady s = Some (t, s')"
  with assms show "\<exists>p < PROCESS_PRIO_BUTT. (\<forall>p' < p. \<forall>u \<in> set (q p'). \<not> ready s u) \<and> picked s p (q p) t \<and>
     s' = s\<lparr>proc_current := (proc_current s)(p := t), old_task := current s\<rparr>"
    by (rule OS_GetNextReady_Some)
qed

theorem next_ready_highest_witness:
  "OS_GetNextReady demo_sched =
     Some (0x1000, demo_sched\<lparr>proc_current := (proc_current demo_sched)(2 := 0x1000), old_task := current demo_sched\<rparr>)"
proof -
  note * = next_ready_highest [of demo_sched demo_q, OF demo_runq]
  have "OS_GetNextReady demo_sched \<noteq> None"
    using * demo_ready by (auto simp: PROCESS_PRIO_BUTT_def demo_q_def)
  then obtain t s' where t: "OS_GetNextReady demo_sched = Some (t, s')" by auto
  then obtain p where p: "\<forall>p' < p. \<forall>u \<in> set (demo_q p'). \<not> ready demo_sched u" "picked demo_sched p (demo_q p) t"
      "s' = demo_sched\<lparr>proc_current := (proc_current demo_sched)(p := t), old_task := current demo_sched\<rparr>"
    using * by blast
  have "t \<in> set (demo_q p)" using p(2) by (auto simp: picked_def order_at_def)
  moreover have "\<not> 2 < p" using p(1) demo_ready by (auto simp: demo_q_def)
  ultimately have "p = 2 \<and> t = 0x1000" by (auto simp: demo_q_def split: if_splits)
  then show ?thesis using t p(3) by simp
qed

text \<open>
  C12. Round robin. A ready task whose priority is the highest with a ready task is picked within as
  many calls of \<open>OS_GetNextReady\<close> as its queue has nodes, whatever the other tasks of the queue are.
\<close>

theorem round_robin_fair:
  assumes "\<And>p. p < PROCESS_PRIO_BUTT \<Longrightarrow> runq s p (q p)" "p < PROCESS_PRIO_BUTT"
    and "t \<in> set (q p)" "ready s t" "\<forall>p' < p. \<forall>u \<in> set (q p'). \<not> ready s u"
  shows "\<exists>k L. k \<le> length (q p) \<and> picks (Suc k) s = Some L \<and> t \<in> set L"
proof -
  have r: "runq s p (q p)" using assms(1,2) by simp
  have "t \<in> set (order_at s p (q p))" using set_order [OF r] assms(3) by simp
  then obtain us vs where o: "order_at s p (q p) = us @ t # vs" by (meson split_list)
  have "length (order_at s p (q p)) = Suc (length (q p))"
  proof -
    obtain xs ys where x: "proc_head s p # q p = xs @ proc_current s p # ys" "order_at s p (q p) = ys @ xs @ [proc_current s p]"
      using ring_split [OF runqD(1) [OF r] runqD(2) [OF r]] unfolding order_at_def by metis
    show ?thesis using arg_cong [OF x(1), of length] by (simp add: x(2))
  qed
  then have "length us \<le> length (q p)" using o by simp
  moreover from pick_within [OF assms o] obtain k L where "k \<le> length us" "picks (Suc k) s = Some L" "t \<in> set L" by blast
  ultimately show ?thesis by (meson le_trans)
qed

theorem round_robin_fair_witness:
  "\<exists>k L. k \<le> length (demo_q 2) \<and> picks (Suc k) demo_sched = Some L \<and> 0x1000 \<in> set L"
proof (rule round_robin_fair)
  show "\<forall>p' < 2. \<forall>u \<in> set (demo_q p'). \<not> ready demo_sched u" by (simp add: demo_q_def)
qed (simp_all add: demo_runq demo_ready PROCESS_PRIO_BUTT_def, simp add: demo_q_def)

text \<open>
  C13. Sleeping. A task that calls \<open>process_msleep m\<close> with \<open>m * 100\<close> below \<open>2^32\<close> joins the sleep list
  for \<open>max 1 (m div 10)\<close> ticks: before that many ticks it is on the list with its sleep bit as it was,
  at that tick and later it is off the list and the bit is clear; the other sleepers count down alike.
\<close>

theorem msleep_on_time:
  assumes "sleepers s ss" "current s \<notin> set (sleep_head s # ss)" "unat m * 100 < 2 ^ 32"
    and "\<forall>t \<in> set ss. 0 < unat (t_sleep_time (task_at s t))" "process_msleep m s = Some s1"
  shows "\<exists>s2. sleep_ticks k s1 = Some s2 \<and>
     sleepers s2 ((if k < max 1 (unat m div 10) then [current s] else []) @
        filter (\<lambda>t. k < unat (t_sleep_time (task_at s t))) ss) \<and>
     t_state (task_at s2 (current s)) = (if k < max 1 (unat m div 10) then t_state (task_at s (current s)) OR PROCESS_SLEEP
        else (t_state (task_at s (current s)) OR PROCESS_SLEEP) AND NOT PROCESS_SLEEP)"
proof -
  let ?c = "current s" and ?n = "m * HZ div 1000"
  define e where "e = (task_at s ?c)\<lparr>t_state := t_state (task_at s ?c) OR PROCESS_SLEEP, t_sleep_time := (if ?n = 0 then 1 else ?n)\<rparr>"
  define sa where "sa = upd_task ?c (\<lambda>_. e) (enter_critical s)"
  have "OS_Sched (exit_critical (add_current_to_sleep_list sa)) = Some s1"
    using assms(5) by (simp add: process_msleep_def Let_def sa_def e_def)
  note keeps = OS_Sched_keeps [OF this]
  have "sleepers sa ss" "current sa = ?c" "sleep_head sa = sleep_head s"
    using assms(1) by (simp_all add: sleepers_def sa_def)
  then have "sleepers (add_current_to_sleep_list sa) (?c # ss)" using ring_add_current [of sa ss] assms(2) by simp
  then have sl: "sleepers s1 (?c # ss)" using keeps by (simp add: sleepers_def)
  have ta: "task_at s1 = (task_at s)(?c := e)"
    using keeps by (simp add: add_current_to_sleep_list_def Let_def sa_def)
  have "unat (m * HZ) = unat m * 100"
    using assms(3) unat_of_nat_small [of "unat m * 100"] by (simp add: HZ_def)
  then have "unat ?n = unat m div 10" by (simp add: unat_div)
  then have n: "unat (t_sleep_time e) = max 1 (unat m div 10)"
    by (auto simp: e_def max_def unat_eq_zero [symmetric])
  have other: "t_sleep_time (task_at s1 t) = t_sleep_time (task_at s t)" if "t \<in> set ss" for t
    using assms(2) that by (auto simp: ta)
  have pos: "\<forall>t \<in> set (?c # ss). 0 < unat (t_sleep_time (task_at s1 t))"
    using assms(4) other n by (auto simp: ta)
  have f: "filter (\<lambda>t. k < unat (t_sleep_time (task_at s1 t))) (?c # ss) =
     (if k < max 1 (unat m div 10) then [?c] else []) @ filter (\<lambda>t. k < unat (t_sleep_time (task_at s t))) ss"
    using assms(2) n by (auto simp: ta intro!: filter_cong)
  from sleep_ticks_ok [OF sl pos, of k] obtain s2 where s2: "sleep_ticks k s1 = Some s2"
    "sleepers s2 ((if k < max 1 (unat m div 10) then [?c] else []) @ filter (\<lambda>t. k < unat (t_sleep_time (task_at s t))) ss)"
    "slept_for k (task_at s1 ?c) (task_at s2 ?c)" unfolding f by auto
  have "t_state (task_at s2 ?c) = (if k < max 1 (unat m div 10) then t_state e else t_state e AND NOT PROCESS_SLEEP)"
    using s2(3) n by (auto simp: slept_for_def ta split: if_splits)
  then show ?thesis using s2 by (auto simp: e_def)
qed

lemma demo_msleep: "process_msleep 50 demo_sched \<noteq> None"
proof -
  let ?s = "exit_critical (add_current_to_sleep_list (upd_task 0x1000 (\<lambda>e. e\<lparr>t_state := t_state e OR PROCESS_SLEEP,
      t_sleep_time := 5\<rparr>) (enter_critical demo_sched)))"
  have "runq (kernel_disable_irq ?s) p (demo_q p)" if "p < PROCESS_PRIO_BUTT" for p
    using demo_runq [OF that]
    by (auto simp: runq_def kernel_disable_irq_def disable_irq_def add_current_to_sleep_list_def Let_def)
  moreover have "ready (kernel_disable_irq ?s) 0x2000"
    by (simp add: ready_def kernel_disable_irq_def disable_irq_def add_current_to_sleep_list_def Let_def demo_sched_def PROCESS_READY_def)
  moreover have four: "(4 :: nat) < PROCESS_PRIO_BUTT" "0x2000 \<in> set (demo_q 4)"
    by (simp_all add: PROCESS_PRIO_BUTT_def demo_q_def)
  ultimately have "next_ready_from [0..<PROCESS_PRIO_BUTT] (kernel_disable_irq ?s) \<noteq> None"
    using next_ready_None [of "[0..<PROCESS_PRIO_BUTT]" "kernel_disable_irq ?s" demo_q] four by auto
  moreover have "OS_RUNNING ?s" "process_msleep 50 demo_sched = OS_Sched ?s"
    by (simp_all add: process_msleep_def HZ_def Let_def add_current_to_sleep_list_def)
      (simp_all add: demo_sched_def enter_critical_def exit_critical_def disable_irq_def enable_irq_def)
  ultimately show ?thesis by (auto simp: OS_Sched_def OS_GetNextReady_def Let_def)
qed

theorem msleep_on_time_witness:
  "\<exists>s2. sleep_ticks 5 (the (process_msleep 50 demo_sched)) = Some s2 \<and>
     sleepers s2 ((if 5 < max 1 (unat (50 :: u32) div 10) then [current demo_sched] else []) @
        filter (\<lambda>t. 5 < unat (t_sleep_time (task_at demo_sched t))) []) \<and>
     t_state (task_at s2 (current demo_sched)) =
       (if 5 < max 1 (unat (50 :: u32) div 10) then t_state (task_at demo_sched (current demo_sched)) OR PROCESS_SLEEP
        else (t_state (task_at demo_sched (current demo_sched)) OR PROCESS_SLEEP) AND NOT PROCESS_SLEEP)"
proof (rule msleep_on_time)
  show "process_msleep 50 demo_sched = Some (the (process_msleep 50 demo_sched))" using demo_msleep by simp
qed (simp_all add: sleepers_def demo_sched_def ring_def)

text \<open>
  C30. One timer tick. When the pending timers wake tasks (\<open>process_timeout\<close>), a pass of
  \<open>timer_list_process\<close> returns, takes one off every countdown that is not zero, and makes ready
  exactly the tasks of the timers whose countdown was one, in list order.
\<close>

theorem timer_tick_fires:
  assumes "pending s ts"
  shows "timer_list_process (\<lambda>f d. process_timeout d) s =
     Some ((fold (\<lambda>t. process_timeout (tm_data s t)) (filter (\<lambda>t. tm_expires s t = 1) ts) s)
       \<lparr>tm_expires := (\<lambda>t. if t \<in> set ts then tm_expires s t - (if tm_expires s t > 0 then 1 else 0) else tm_expires s t)\<rparr>)"
proof -
  have "distinct ts" using assms by (auto simp: pending_def ring_def distinct_map)
  then show ?thesis using wake.process_is_fold [OF assms] wake.fold_tick [of ts s] by simp
qed

theorem timer_tick_fires_witness:
  "timer_list_process (\<lambda>f d. process_timeout d) demo_sched =
     Some ((fold (\<lambda>t. process_timeout (tm_data demo_sched t)) (filter (\<lambda>t. tm_expires demo_sched t = 1) [0x302000]) demo_sched)
       \<lparr>tm_expires := (\<lambda>t. if t \<in> set [0x302000] then tm_expires demo_sched t - (if tm_expires demo_sched t > 0 then 1 else 0) else tm_expires demo_sched t)\<rparr>)"
  by (rule timer_tick_fires) (simp add: pending_def ring_def timer_node_def demo_sched_def)

text \<open>
  C31. A new kernel thread. When a task slot and a stack are left, \<open>kernel_thread\<close> returns 0, puts the
  new task at the front of the normal queue with the next pid, its stack and its entry point, and
  leaves the interrupt mask as it was. The thread's arguments are lost: its \<open>r0\<close> is \<open>0xa5\<close>, not \<open>args\<close>.
\<close>

theorem kernel_thread_starts:
  assumes "runq s PROCESS_PRIO_NORMAL ts" "cur_pcb s < MAX_TASK_NUM" "cur_sp s < MAX_TASK_NUM"
    and "pcb_addr s (cur_pcb s) = t" "t \<noteq> NULL" "stack_addr s (cur_sp s) = sp" "sp \<noteq> NULL"
    and "t \<notin> set (proc_head s PROCESS_PRIO_NORMAL # ts)" "sint (next_pid s) \<noteq> - 1"
  shows "\<exists>s'. kernel_thread f args lr cpsr s = (0, s') \<and> runq s' PROCESS_PRIO_NORMAL (t # ts) \<and>
     irq_on s' = irq_on s \<and> next_pid s' = next_pid s + 1 \<and> t_pid (task_at s' t) = sint (next_pid s) \<and>
     ARM_pc (t_regs (task_at s' t)) = f \<and> ARM_sp (t_regs (task_at s' t)) = sp + TASK_STACK_SIZE \<and>
     ARM_r (t_regs (task_at s' t)) 0 = 0xa5"
proof -
  have r: "ring (run_links s) (proc_head s PROCESS_PRIO_NORMAL) ts" using assms(1) by (rule runqD)
  have "t \<notin> set ts" "t \<noteq> proc_head s PROCESS_PRIO_NORMAL" using assms(8) by auto
  then show ?thesis
    using assms ring_pcb_list_add [OF r assms(8)]
    by (auto simp: kernel_thread_def alloc_pcb_def alloc_stack_def Let_def arch_local_irq_save_def
        arch_local_irq_restore_def runq_def thread_task_def DO_INIT_CONTEXT_def)
qed

theorem kernel_thread_starts_witness:
  "\<exists>s'. kernel_thread 0x8000 0x77 0x8100 0x1f demo_sched = (0, s') \<and> runq s' PROCESS_PRIO_NORMAL (0x5000 # demo_q PROCESS_PRIO_NORMAL) \<and>
     irq_on s' = irq_on demo_sched \<and> next_pid s' = next_pid demo_sched + 1 \<and> t_pid (task_at s' 0x5000) = sint (next_pid demo_sched) \<and>
     ARM_pc (t_regs (task_at s' 0x5000)) = 0x8000 \<and> ARM_sp (t_regs (task_at s' 0x5000)) = 0x9000 + TASK_STACK_SIZE \<and>
     ARM_r (t_regs (task_at s' 0x5000)) 0 = 0xa5"
proof (rule kernel_thread_starts)
  show "runq demo_sched PROCESS_PRIO_NORMAL (demo_q PROCESS_PRIO_NORMAL)"
    by (rule demo_runq) (simp add: PROCESS_PRIO_NORMAL_def PROCESS_PRIO_BUTT_def)
qed (simp_all add: PROCESS_PRIO_NORMAL_def MAX_TASK_NUM_def demo_q_def demo_sched_def)

text \<open>
  C32. Adding a timer twice. Outside critical sections, \<open>add_timer\<close> of a new timer appends it and
  leaves interrupts on; adding a timer that is already pending returns 0 without leaving the critical
  section: interrupts stay off and the lock count stays at one.
\<close>

theorem add_timer_leaves_irqs_off:
  assumes "pending s ts" "t \<noteq> NULL" "timer_node t \<noteq> timer_list_head s" "OSIntNesting s = 0" "cirtical_lock s = 0" "irq_on s"
  shows "\<exists>s'. add_timer t s = Some (0, s') \<and> pending s' (if t \<in> set ts then ts else ts @ [t]) \<and>
     irq_on s' = (t \<notin> set ts) \<and> cirtical_lock s' = (if t \<in> set ts then 1 else 0)"
proof (cases "t \<in> set ts")
  case True
  have "pending (enter_critical s) ts" using assms(1) by (simp add: pending_def)
  then show ?thesis
    using add_timer_again [OF assms(1,2) True] True assms(4,5)
    by (simp add: enter_critical_def disable_irq_def)
next
  case False
  from add_timer_new [OF assms(1,2) False assms(3)] obtain s' where s': "add_timer t s = Some (0, s')"
    "pending s' (ts @ [t])" "s' = exit_critical ((enter_critical s)\<lparr>links := list_add_tail (timer_node t) (timer_list_head s) (links s)\<rparr>)"
    by blast
  have "irq_on s'" "cirtical_lock s' = 0"
    using assms(4-6) by (simp_all add: s'(3) enter_critical_def exit_critical_def disable_irq_def enable_irq_def Let_def)
  then show ?thesis using s'(1,2) False by simp
qed

theorem add_timer_leaves_irqs_off_witness:
  "\<exists>s'. add_timer 0x302000 demo_sched = Some (0, s') \<and>
     pending s' (if 0x302000 \<in> set [0x302000 :: addr] then [0x302000] else [0x302000] @ [0x302000]) \<and>
     irq_on s' = (0x302000 \<notin> set [0x302000 :: addr]) \<and> cirtical_lock s' = (if 0x302000 \<in> set [0x302000 :: addr] then 1 else 0)"
  by (rule add_timer_leaves_irqs_off)
    (simp_all add: pending_def ring_def timer_node_def, simp_all add: demo_sched_def)

end
