(* ===== verification/Completion.thy ===== *)
theory Completion
  imports Sched_Inv
begin

text \<open>
  Completions (\<^verbatim>\<open>wait_for_completion\<close>, \<^verbatim>\<open>complete\<close> and \<^verbatim>\<open>schedule_timeout\<close> in
  \<^verbatim>\<open>src/proc/proc.c\<close>). A waiter is the pair of its wait-queue node, which lies on the waiter's
  stack, and its task; the queue of a completion is the list of its waiters (see \<open>Lib_List\<close> for the
  ring that holds it). A wait is cut at the call of \<open>schedule\<close>: \<open>wait_enter\<close> runs up to it and
  \<open>wait_resume\<close> goes on when the task runs again, so that other tasks can run in between.
\<close>

definition MAX_SCHEDULE_TIMEOUT :: int where "MAX_SCHEDULE_TIMEOUT = 0xfffffff"

record completion =
  c_done :: u32
  c_waiters :: "(addr \<times> addr) list"

definition init_completion :: completion where
  "init_completion = \<lparr>c_done = 0, c_waiters = []\<rparr>"

datatype wait_outcome = Blocked | Returns int

definition wait_enter ::
  "addr \<Rightarrow> int \<Rightarrow> u32 \<Rightarrow> completion \<Rightarrow> 'a sched_scheme \<Rightarrow> wait_outcome \<times> completion \<times> 'a sched_scheme" where
  "wait_enter node timeout state x s =
     (if c_done x = 0
      then (Blocked, x\<lparr>c_waiters := c_waiters x @ [(node, current s)]\<rparr>, set_current_state state s)
      else (Returns (if timeout \<noteq> 0 then 1 else 0), x\<lparr>c_done := c_done x - 1\<rparr>, s))"

text \<open>\<open>timeout\<close> is what \<open>schedule_timeout\<close> returned; the task that resumes is \<open>current\<close>.\<close>

definition wait_resume ::
  "int \<Rightarrow> u32 \<Rightarrow> completion \<Rightarrow> 'a sched_scheme \<Rightarrow> wait_outcome \<times> completion \<times> 'a sched_scheme" where
  "wait_resume timeout state x s =
     (if c_done x = 0 \<and> timeout \<noteq> 0 then (Blocked, x, set_current_state state s)
      else if c_done x = 0 then (Returns timeout, x, s)
      else (Returns (if timeout \<noteq> 0 then 1 else 0), x\<lparr>c_done := c_done x - 1\<rparr>, s))"

definition complete :: "completion \<Rightarrow> 'a sched_scheme \<Rightarrow> (completion \<times> 'a sched_scheme) option" where
  "complete x s =
     (let x1 = x\<lparr>c_done := c_done x + 1\<rparr>
      in case c_waiters x1 of
           [] \<Rightarrow> Some (x1, s)
         | (node, task) # ws \<Rightarrow>
             if check_addr node then Some (x1\<lparr>c_waiters := ws\<rparr>, set_task_state task PROCESS_READY s) else None)"

text \<open>\<open>schedule_timeout\<close> before and after its call of \<open>schedule\<close>; \<open>timer\<close> is on the stack.\<close>

definition schedule_timeout_arm :: "addr \<Rightarrow> addr \<Rightarrow> int \<Rightarrow> 'a sched_scheme \<Rightarrow> (u32 \<times> 'a sched_scheme) option" where
  "schedule_timeout_arm pt_addr timer timeout s =
     (if timeout = MAX_SCHEDULE_TIMEOUT then Some (0, s)
      else
        let expire = OS_TICKS s + of_int timeout;
            s1 = s\<lparr>tm_function := (tm_function s)(timer := pt_addr),
                   tm_data := (tm_data s)(timer := current s),
                   tm_expires := (tm_expires s)(timer := of_int timeout)\<rparr>
        in map_option (\<lambda>(r, s2). (expire, s2)) (add_timer timer s1))"

definition schedule_timeout_end :: "addr \<Rightarrow> int \<Rightarrow> u32 \<Rightarrow> 'a sched_scheme \<Rightarrow> (int \<times> 'a sched_scheme) option" where
  "schedule_timeout_end timer timeout expire s =
     (if timeout = MAX_SCHEDULE_TIMEOUT then Some (if timeout < 0 then 0 else timeout, s)
      else map_option (\<lambda>s1. (let left = sint (expire - OS_TICKS s1) in if left < 0 then 0 else left, s1))
             (del_timer timer s))"

section \<open>Lemmas\<close>

lemma set_task_state_at:
  "t_state (task_at (set_task_state t st s) u) = (if u = t then st else t_state (task_at s u))"
  by (simp add: set_task_state_def)

text \<open>Further completions, with the tasks on the queue when they happen.\<close>

fun complete_n :: "nat \<Rightarrow> completion \<Rightarrow> 'a sched_scheme \<Rightarrow> (completion \<times> 'a sched_scheme) option" where
  "complete_n 0 x s = Some (x, s)"
| "complete_n (Suc n) x s = (case complete x s of None \<Rightarrow> None | Some (x1, s1) \<Rightarrow> complete_n n x1 s1)"

lemma complete_skips:
  assumes "complete x s = Some (x', s')" "w \<notin> snd ` set (c_waiters x)"
  shows "t_state (task_at s' w) = t_state (task_at s w)" "w \<notin> snd ` set (c_waiters x')"
  using assms by (auto simp: complete_def Let_def set_task_state_at image_iff Bex_def split: list.splits if_splits)

lemma complete_n_skips:
  "complete_n n x s = Some (x', s') \<Longrightarrow> w \<notin> snd ` set (c_waiters x) \<Longrightarrow>
   t_state (task_at s' w) = t_state (task_at s w)"
proof (induction n arbitrary: x s)
  case (Suc n)
  then obtain x1 s1 where c: "complete x s = Some (x1, s1)" "complete_n n x1 s1 = Some (x', s')"
    by (auto split: option.splits)
  then show ?case using Suc.IH [OF c(2)] complete_skips [OF c(1) Suc.prems(2)] by simp
qed simp

section \<open>Properties\<close>

text \<open>
  C9. Handshake. A task that waits on a completion with nothing pending blocks; \<open>complete\<close> makes it
  ready, and when it resumes it returns 1, with the count and the queue as they were before.
\<close>

theorem completion_handshake:
  assumes "c_done x = 0" "c_waiters x = []" "check_addr node" "state \<noteq> PROCESS_READY"
  shows "\<exists>x1 s1 x2 s2. wait_enter node MAX_SCHEDULE_TIMEOUT state x s = (Blocked, x1, s1) \<and>
     t_state (task_at s1 (current s)) = state \<and>
     complete x1 s1 = Some (x2, s2) \<and> ready s2 (current s) \<and>
     wait_resume MAX_SCHEDULE_TIMEOUT state x2 s2 = (Returns 1, x, s2)"
  using assms
  by (auto simp: wait_enter_def complete_def Let_def wait_resume_def set_current_state_def set_task_state_at
      ready_def MAX_SCHEDULE_TIMEOUT_def)

theorem completion_handshake_witness:
  "\<exists>x1 s1 x2 s2. wait_enter 0x30001000 MAX_SCHEDULE_TIMEOUT PROCESS_WAIT init_completion demo_sched = (Blocked, x1, s1) \<and>
     t_state (task_at s1 (current demo_sched)) = PROCESS_WAIT \<and>
     complete x1 s1 = Some (x2, s2) \<and> ready s2 (current demo_sched) \<and>
     wait_resume MAX_SCHEDULE_TIMEOUT PROCESS_WAIT x2 s2 = (Returns 1, init_completion, s2)"
  by (rule completion_handshake)
    (simp_all add: init_completion_def check_addr_def PROCESS_WAIT_def PROCESS_READY_def)

text \<open>
  C33. A stolen wake-up strands the waiter. If, after \<open>complete\<close> woke the only waiter \<open>w\<close> and before \<open>w\<close>
  runs, another task waits, that task takes the count; \<open>w\<close> resumes, finds the count zero and waits
  again, but it is no longer queued: it stays in its waiting state whatever number of times
  \<open>complete\<close> is called afterwards.
\<close>

theorem completion_stolen_wakeup:
  assumes "c_done x = 0" "c_waiters x = [(node, w)]" "check_addr node"
    and "complete x s = Some (x1, s1)"
    and "wait_enter node' MAX_SCHEDULE_TIMEOUT PROCESS_WAIT x1 s1 = (r, x2, s2)"
    and "wait_resume MAX_SCHEDULE_TIMEOUT PROCESS_WAIT x2 (s2\<lparr>current := w\<rparr>) = (r', x3, s3)"
    and "complete_n n x3 s3 = Some (x4, s4)"
  shows "r = Returns 1 \<and> r' = Blocked \<and> t_state (task_at s4 w) = PROCESS_WAIT"
proof -
  have x1: "x1 = \<lparr>c_done = 1, c_waiters = []\<rparr>"
    using assms(1-4) by (cases x) (auto simp: complete_def Let_def)
  then have x2: "r = Returns 1" "x2 = \<lparr>c_done = 0, c_waiters = []\<rparr>" "s2 = s1"
    using assms(5) by (auto simp: wait_enter_def MAX_SCHEDULE_TIMEOUT_def)
  then have x3: "r' = Blocked" "x3 = x2" "s3 = set_current_state PROCESS_WAIT (s1\<lparr>current := w\<rparr>)"
    using assms(6) by (auto simp: wait_resume_def MAX_SCHEDULE_TIMEOUT_def)
  then have "t_state (task_at s3 w) = PROCESS_WAIT" "w \<notin> snd ` set (c_waiters x3)"
    by (simp_all add: set_current_state_def set_task_state_at x2)
  with complete_n_skips [OF assms(7)] x2 x3 show ?thesis by simp
qed

theorem completion_stolen_wakeup_witness:
  "\<exists>r r' s4. r = Returns 1 \<and> r' = Blocked \<and> t_state (task_at s4 0x1000) = PROCESS_WAIT \<and>
     complete_n 3 init_completion (set_current_state PROCESS_WAIT
       ((set_task_state 0x1000 PROCESS_READY demo_sched)\<lparr>current := 0x1000\<rparr>)) = Some (\<lparr>c_done = 3, c_waiters = []\<rparr>, s4)"
proof -
  let ?s1 = "set_task_state 0x1000 PROCESS_READY demo_sched"
  let ?s3 = "set_current_state PROCESS_WAIT (?s1\<lparr>current := 0x1000\<rparr>)"
  have "Returns 1 = Returns 1 \<and> Blocked = Blocked \<and> t_state (task_at ?s3 0x1000) = PROCESS_WAIT"
    by (rule completion_stolen_wakeup [where x = "\<lparr>c_done = 0, c_waiters = [(0x30001000, 0x1000)]\<rparr>" and s = demo_sched
          and node = "0x30001000" and n = "3"
          and ?x1.0 = "\<lparr>c_done = 1, c_waiters = []\<rparr>" and ?x2.0 = init_completion and ?x3.0 = init_completion
          and ?x4.0 = "\<lparr>c_done = 3, c_waiters = []\<rparr>" and ?s1.0 = ?s1 and ?s2.0 = ?s1 and ?s3.0 = ?s3])
      (simp_all add: check_addr_def complete_def wait_enter_def wait_resume_def MAX_SCHEDULE_TIMEOUT_def init_completion_def numeral_3_eq_3)
  moreover have "complete_n 3 init_completion ?s3 = Some (\<lparr>c_done = 3, c_waiters = []\<rparr>, ?s3)"
    by (simp add: numeral_3_eq_3 complete_def init_completion_def)
  ultimately show ?thesis by blast
qed

end
