(* ===== verification/Pgtable.thy ===== *)
theory Pgtable
  imports Buddy_Inv
begin

text \<open>
  Page tables and page faults: \<^verbatim>\<open>src/arch/arm/pgtable.c\<close>, \<^verbatim>\<open>src/arch/arm/pagealloc.c\<close> and
  \<^verbatim>\<open>src/mm/memory.c\<close>. Tables live in the RAM of the page allocator as little-endian words; a first
  level of 4096 entries points to tables of 256 entries, and the middle level is folded into the
  first. Kernel addresses are physical addresses. A page is its index in \<open>mem_map\<close>. The functions that
  change the resident-set counter of an address space take and return it. Swapping, TLB and cache
  maintenance are compiled out or commented out; no page carries the swap-cache flag, so a page with
  two users is always copied.
\<close>

section \<open>Words in memory\<close>

definition ldw :: "memory \<Rightarrow> addr \<Rightarrow> u32" where
  "ldw m a = ucast (m a) OR push_bit 8 (ucast (m (a + 1))) OR push_bit 16 (ucast (m (a + 2))) OR
     push_bit 24 (ucast (m (a + 3)))"

definition stw :: "addr \<Rightarrow> u32 \<Rightarrow> memory \<Rightarrow> memory" where
  "stw a v m = m(a := ucast v, a + 1 := ucast (drop_bit 8 v), a + 2 := ucast (drop_bit 16 v),
     a + 3 := ucast (drop_bit 24 v))"

abbreviation rdw :: "pgalloc \<Rightarrow> addr \<Rightarrow> u32" where
  "rdw s a \<equiv> ldw (ram s) a"

section \<open>Entries\<close>

definition PGDIR_SIZE :: u32 where "PGDIR_SIZE = 0x100000"
definition PGDIR_MASK :: u32 where "PGDIR_MASK = NOT (PGDIR_SIZE - 1)"
definition GFP_HIGHUSER :: nat where "GFP_HIGHUSER = 5"
definition GFP_KERNEL_pt :: nat where "GFP_KERNEL_pt = 7"

definition set_pmd :: "addr \<Rightarrow> u32 \<Rightarrow> pgalloc \<Rightarrow> pgalloc" where
  "set_pmd pmd entry s = s\<lparr>ram := stw pmd ((entry AND NOT 0x1ff) OR push_bit 5 3 OR 1) (ram s)\<rparr>"

definition set_pte :: "addr \<Rightarrow> u32 \<Rightarrow> pgalloc \<Rightarrow> pgalloc" where
  "set_pte pte_table entry s =
     s\<lparr>ram := stw pte_table ((entry AND NOT 0xfff) OR 0xff0 OR push_bit 2 1 OR push_bit 3 1 OR 2) (ram s)\<rparr>"

definition pte_present :: "u32 \<Rightarrow> bool" where "pte_present e \<longleftrightarrow> e AND 3 \<noteq> 0"
definition pte_none :: "u32 \<Rightarrow> bool" where "pte_none e \<longleftrightarrow> e = 0"
definition pmd_none :: "u32 \<Rightarrow> bool" where "pmd_none e \<longleftrightarrow> e = 0"
definition pmd_bad :: "u32 \<Rightarrow> bool" where "pmd_bad e \<longleftrightarrow> e AND 2 \<noteq> 0"
definition pmd_page :: "u32 \<Rightarrow> addr" where "pmd_page e = e AND NOT 0xfff AND NOT 1"
definition pte_wrprotect :: "u32 \<Rightarrow> u32" where "pte_wrprotect e = e OR 2"
definition pte_mkclean :: "u32 \<Rightarrow> u32" where "pte_mkclean e = e OR 0x10"
definition pte_mkold :: "u32 \<Rightarrow> u32" where "pte_mkold e = e OR 8"
definition pte_mkwrite :: "u32 \<Rightarrow> u32" where "pte_mkwrite e = e AND NOT 2"
definition pte_mkdirty :: "u32 \<Rightarrow> u32" where "pte_mkdirty e = e AND NOT 0x10"
definition pte_mkyoung :: "u32 \<Rightarrow> u32" where "pte_mkyoung e = e AND NOT 8"
definition pte_page :: "u32 \<Rightarrow> u32" where "pte_page e = virt_to_page e"
definition mk_pte :: "nat \<Rightarrow> u32 \<Rightarrow> pgalloc \<Rightarrow> u32" where "mk_pte page prot s = page_address (Some page) s + prot"

definition pmd_clear :: "addr \<Rightarrow> pgalloc \<Rightarrow> pgalloc" where
  "pmd_clear pmd s = set_pmd pmd 0 s"

definition ptep_get_and_clear :: "addr \<Rightarrow> pgalloc \<Rightarrow> u32 \<times> pgalloc" where
  "ptep_get_and_clear ptep s = (rdw s ptep, set_pte ptep 0 s)"

definition ptep_set_wrprotect :: "addr \<Rightarrow> pgalloc \<Rightarrow> pgalloc" where
  "ptep_set_wrprotect ptep s = set_pte ptep (pte_wrprotect (rdw s ptep)) s"

definition pgd_offset :: "addr \<Rightarrow> addr \<Rightarrow> addr" where
  "pgd_offset pgd address = pgd + 4 * drop_bit 20 address"

definition pte_index :: "addr \<Rightarrow> u32" where
  "pte_index address = drop_bit 12 address AND 255"

definition pte_offset :: "addr \<Rightarrow> addr \<Rightarrow> pgalloc \<Rightarrow> addr" where
  "pte_offset dir address s = pmd_page (rdw s dir) + 4 * pte_index address"

section \<open>Allocating tables\<close>

definition handle_bad_pmd :: "addr \<Rightarrow> pgalloc \<Rightarrow> pgalloc" where
  "handle_bad_pmd pmd s = set_pmd pmd NULL s"

definition get_pte_slow :: "addr \<Rightarrow> u32 \<Rightarrow> pgalloc \<Rightarrow> (addr \<times> pgalloc) option" where
  "get_pte_slow pmd offset s =
     (let (pte, s1) = get_free_pages GFP_KERNEL_pt 0 s
      in if pmd_none (rdw s1 pmd)
         then (if pte \<noteq> NULL then Some (pte + 4 * offset, set_pmd pmd pte s1)
               else Some (NULL, set_pmd pmd NULL s1))
         else (case free_pages pte 0 s1 of
                 None \<Rightarrow> None
               | Some s2 \<Rightarrow>
                   if pmd_bad (rdw s2 pmd) then Some (NULL, handle_bad_pmd pmd s2)
                   else Some (pmd_page (rdw s2 pmd) + 4 * offset, s2)))"

definition pte_alloc :: "addr \<Rightarrow> addr \<Rightarrow> pgalloc \<Rightarrow> (addr \<times> pgalloc) option" where
  "pte_alloc pmd address s =
     (if pmd_none (rdw s pmd) then get_pte_slow pmd (pte_index address) s
      else if pmd_bad (rdw s pmd) then Some (NULL, handle_bad_pmd pmd s)
      else Some (pmd_page (rdw s pmd) + 4 * pte_index address, s))"

definition pte_free :: "addr \<Rightarrow> pgalloc \<Rightarrow> pgalloc option" where
  "pte_free pte s = free_pages pte 0 s"

definition pmd_alloc :: "addr \<Rightarrow> addr \<Rightarrow> addr" where
  "pmd_alloc pgd address = pgd"

definition pgd_alloc :: "pgalloc \<Rightarrow> addr \<times> pgalloc" where
  "pgd_alloc s = get_free_pages GFP_KERNEL_pt 2 s"

section \<open>Removing pages\<close>

text \<open>\<open>pte_dirty\<close> is always false (\<open>L_PTE_DIRTY\<close> is 0), so no page is marked dirty here.\<close>

definition free_pte :: "u32 \<Rightarrow> pgalloc \<Rightarrow> (nat \<times> pgalloc) option" where
  "free_pte pte s =
     (if pte_present pte
      then let page = pte_page pte
           in if \<not> VALID_PAGE page s \<or> PageReserved (mem_map s (unat page)) then Some (0, s)
              else map_option (Pair 1) (free_pages_count (unat page) 0 s)
      else Some (0, s))"

fun zap_pte_loop :: "nat \<Rightarrow> addr \<Rightarrow> nat \<Rightarrow> pgalloc \<Rightarrow> (nat \<times> pgalloc) option" where
  "zap_pte_loop 0 pte freed s = Some (freed, s)"
| "zap_pte_loop (Suc n) pte freed s =
     (let (page, s1) = ptep_get_and_clear pte s
      in if pte_none page then zap_pte_loop n (pte + 4) freed s1
         else (case free_pte page s1 of
                 None \<Rightarrow> None
               | Some (k, s2) \<Rightarrow> zap_pte_loop n (pte + 4) (freed + k) s2))"

definition zap_pte_range :: "addr \<Rightarrow> addr \<Rightarrow> u32 \<Rightarrow> pgalloc \<Rightarrow> (nat \<times> pgalloc) option" where
  "zap_pte_range pmd address sz s =
     (if pmd_none (rdw s pmd) then Some (0, s)
      else if pmd_bad (rdw s pmd) then Some (0, pmd_clear pmd s)
      else
        let pte = pte_offset pmd address s;
            a = address AND NOT PGDIR_MASK;
            sz1 = (if a + sz > PGDIR_SIZE then PGDIR_SIZE - a else sz)
        in zap_pte_loop (unat (drop_bit 12 sz1)) pte 0 s)"

partial_function (option) zap_pmd_loop ::
  "addr \<Rightarrow> addr \<Rightarrow> u32 \<Rightarrow> nat \<Rightarrow> pgalloc \<Rightarrow> (nat \<times> pgalloc) option" where
  "zap_pmd_loop pmd address end' freed s =
     (case zap_pte_range pmd address (end' - address) s of
        None \<Rightarrow> None
      | Some (k, s1) \<Rightarrow>
          let a = (address + PGDIR_SIZE) AND PGDIR_MASK
          in if a < end' then zap_pmd_loop (pmd + 4) a end' (freed + k) s1 else Some (freed + k, s1))"

definition zap_pmd_range :: "addr \<Rightarrow> addr \<Rightarrow> u32 \<Rightarrow> pgalloc \<Rightarrow> (nat \<times> pgalloc) option" where
  "zap_pmd_range dir address sz s =
     (let a = address AND NOT PGDIR_MASK;
          e = (if a + sz > PGDIR_SIZE then PGDIR_SIZE else a + sz)
      in zap_pmd_loop dir a e 0 s)"

partial_function (option) zap_page_loop ::
  "addr \<Rightarrow> addr \<Rightarrow> addr \<Rightarrow> nat \<Rightarrow> pgalloc \<Rightarrow> (nat \<times> pgalloc) option" where
  "zap_page_loop dir address end' freed s =
     (case zap_pmd_range dir address (end' - address) s of
        None \<Rightarrow> None
      | Some (k, s1) \<Rightarrow>
          let a = (address + PGDIR_SIZE) AND PGDIR_MASK
          in if a \<noteq> 0 \<and> a < end' then zap_page_loop (dir + 4) a end' (freed + k) s1
             else Some (freed + k, s1))"

definition zap_page_range :: "addr \<Rightarrow> addr \<Rightarrow> u32 \<Rightarrow> u32 \<Rightarrow> pgalloc \<Rightarrow> (u32 \<times> pgalloc) option" where
  "zap_page_range pgd address sz rss s =
     map_option (\<lambda>(freed, s1). (if unat rss > freed then rss - of_nat freed else 0, s1))
       (zap_page_loop (pgd_offset pgd address) address (address + sz) 0 s)"

section \<open>Page faults\<close>

text \<open>\<open>vm_ops->nopage\<close> of an area: no page (SIGBUS), out of memory, or a page.\<close>

datatype nopage_result = SIGBUS | OOM | NewPage nat

type_synonym nopage = "(addr \<Rightarrow> int \<Rightarrow> pgalloc \<Rightarrow> nopage_result \<times> pgalloc) option"

definition VM_WRITE :: u32 where "VM_WRITE = 2"
definition VM_SHARED :: u32 where "VM_SHARED = 8"
definition VM_MAYWRITE :: u32 where "VM_MAYWRITE = 0x20"

definition break_cow :: "nat \<Rightarrow> nat \<Rightarrow> addr \<Rightarrow> u32 \<Rightarrow> pgalloc \<Rightarrow> pgalloc" where
  "break_cow old_page new_page page_table prot s =
     (let s1 = s\<lparr>ram := snd (memcpy (page_address (Some new_page) s) (page_address (Some old_page) s) 4096 (ram s))\<rparr>
      in set_pte page_table (pte_mkwrite (pte_mkdirty (mk_pte new_page prot s1))) s1)"

definition do_wp_page :: "addr \<Rightarrow> u32 \<Rightarrow> u32 \<Rightarrow> u32 \<Rightarrow> pgalloc \<Rightarrow> (int \<times> u32 \<times> pgalloc) option" where
  "do_wp_page page_table pte prot rss s =
     (let old_page = pte_page pte
      in if \<not> VALID_PAGE old_page s then Some (- 1, rss, s)
         else if pg_count (mem_map s (unat old_page)) = 1
         then Some (1, rss, set_pte page_table (pte_mkyoung (pte_mkdirty (pte_mkwrite pte))) s)
         else
           (case alloc_pages GFP_HIGHUSER 0 s of
              (None, s1) \<Rightarrow> Some (- 1, rss, s1)
            | (Some new_page, s1) \<Rightarrow>
                if rdw s1 page_table = pte
                then let rss1 = (if PageReserved (mem_map s1 (unat old_page)) then rss + 1 else rss);
                         s2 = break_cow (unat old_page) new_page page_table prot s1
                     in map_option (\<lambda>s3. (1, rss1, s3)) (free_pages_count (unat old_page) 0 s2)
                else map_option (\<lambda>s3. (1, rss, s3)) (free_pages_count new_page 0 s1)))"

definition do_anonymous_page :: "addr \<Rightarrow> u32 \<Rightarrow> int \<Rightarrow> nat \<Rightarrow> u32 \<Rightarrow> pgalloc \<Rightarrow> int \<times> u32 \<times> pgalloc" where
  "do_anonymous_page page_table prot write_access zero_page rss s =
     (let entry = pte_wrprotect (mk_pte zero_page prot s)
      in if write_access \<noteq> 0
         then (case alloc_pages GFP_HIGHUSER 0 s of
                 (None, s1) \<Rightarrow> (- 1, rss, s1)
               | (Some page, s1) \<Rightarrow>
                   (1, rss + 1, set_pte page_table (pte_mkwrite (pte_mkdirty (mk_pte page prot s1))) s1))
         else (1, rss, set_pte page_table entry s))"

definition do_no_page ::
  "nopage \<Rightarrow> addr \<Rightarrow> u32 \<Rightarrow> u32 \<Rightarrow> int \<Rightarrow> addr \<Rightarrow> nat \<Rightarrow> u32 \<Rightarrow> pgalloc \<Rightarrow> int \<times> u32 \<times> pgalloc" where
  "do_no_page np address flags prot write_access page_table zero_page rss s =
     (case np of
        None \<Rightarrow> do_anonymous_page page_table prot write_access zero_page rss s
      | Some f \<Rightarrow>
          (case f (address AND NOT 0xfff) (if flags AND VM_SHARED \<noteq> 0 then 0 else write_access) s of
             (SIGBUS, s1) \<Rightarrow> (0, rss, s1)
           | (OOM, s1) \<Rightarrow> (- 1, rss, s1)
           | (NewPage page, s1) \<Rightarrow>
               let e0 = mk_pte page prot s1;
                   e = (if write_access \<noteq> 0 then pte_mkwrite (pte_mkdirty e0)
                        else if pg_count (mem_map s1 page) > 1 \<and> flags AND VM_SHARED = 0 then pte_wrprotect e0
                        else e0)
               in (2, rss + 1, set_pte page_table e s1)))"

definition handle_pte_fault ::
  "nopage \<Rightarrow> u32 \<Rightarrow> u32 \<Rightarrow> addr \<Rightarrow> int \<Rightarrow> addr \<Rightarrow> nat \<Rightarrow> u32 \<Rightarrow> pgalloc \<Rightarrow> (int \<times> u32 \<times> pgalloc) option" where
  "handle_pte_fault np flags prot address write_access pte zero_page rss s =
     (let entry = rdw s pte
      in if \<not> pte_present entry \<and> pte_none entry
         then Some (do_no_page np address flags prot write_access pte zero_page rss s)
         else if write_access \<noteq> 0 then do_wp_page pte entry prot rss s
         else Some (1, rss, set_pte pte (pte_mkyoung entry) s))"

definition handle_mm_fault ::
  "nopage \<Rightarrow> u32 \<Rightarrow> u32 \<Rightarrow> addr \<Rightarrow> addr \<Rightarrow> int \<Rightarrow> nat \<Rightarrow> u32 \<Rightarrow> pgalloc \<Rightarrow> (int \<times> u32 \<times> pgalloc) option" where
  "handle_mm_fault np flags prot pgd address write_access zero_page rss s =
     (let pmd = pmd_alloc (pgd_offset pgd address) address
      in if pmd = NULL then Some (- 1, rss, s)
         else (case pte_alloc pmd address s of
                 None \<Rightarrow> None
               | Some (pte, s1) \<Rightarrow>
                   if pte = NULL then Some (- 1, rss, s1)
                   else handle_pte_fault np flags prot address write_access pte zero_page rss s1))"

text \<open>The loop of \<open>make_pages_present\<close> over an area with the given flags.\<close>

partial_function (option) present_loop ::
  "nopage \<Rightarrow> u32 \<Rightarrow> u32 \<Rightarrow> addr \<Rightarrow> int \<Rightarrow> nat \<Rightarrow> addr \<Rightarrow> addr \<Rightarrow> u32 \<Rightarrow> pgalloc \<Rightarrow> (int \<times> u32 \<times> pgalloc) option" where
  "present_loop np flags prot pgd write zero_page addr end' rss s =
     (case handle_mm_fault np flags prot pgd addr write zero_page rss s of
        None \<Rightarrow> None
      | Some (r, rss1, s1) \<Rightarrow>
          if r < 0 then Some (- 1, rss1, s1)
          else if addr + 4096 < end' then present_loop np flags prot pgd write zero_page (addr + 4096) end' rss1 s1
          else Some (0, rss1, s1))"

section \<open>Copying an area\<close>

text \<open>One entry of \<open>copy_page_range\<close>. For a private writable area the child's page is copied at once by
  a write fault in the child.\<close>

definition copy_one_pte ::
  "nopage \<Rightarrow> u32 \<Rightarrow> u32 \<Rightarrow> addr \<Rightarrow> addr \<Rightarrow> addr \<Rightarrow> addr \<Rightarrow> nat \<Rightarrow> u32 \<Rightarrow> pgalloc \<Rightarrow> (u32 \<times> pgalloc) option" where
  "copy_one_pte np flags prot dst_pgd address src_pte dst_pte zero_page rss s =
     (let pte = rdw s src_pte;
          ptepage = pte_page pte
      in if pte_none pte then Some (rss, s)
         else if \<not> pte_present pte \<or> \<not> VALID_PAGE ptepage s \<or> PageReserved (mem_map s (unat ptepage))
         then Some (rss, set_pte dst_pte pte s)
         else
           let cow = (flags AND (VM_SHARED OR VM_MAYWRITE) = VM_MAYWRITE);
               s1 = (if cow then ptep_set_wrprotect src_pte s else s);
               pte1 = (if cow then rdw s1 src_pte else pte);
               pte2 = (if flags AND VM_SHARED \<noteq> 0 then pte_mkclean pte1 else pte1);
               pte3 = pte_mkold pte2;
               s2 = s1\<lparr>mem_map := (mem_map s1)(unat ptepage := (mem_map s1 (unat ptepage))
                        \<lparr>pg_count := pg_count (mem_map s1 (unat ptepage)) + 1\<rparr>)\<rparr>;
               s3 = set_pte dst_pte pte3 s2
           in if cow
              then map_option (\<lambda>(r, rss1, s4). (rss1, s4)) (handle_mm_fault np flags prot dst_pgd address 1 zero_page rss s3)
              else Some (rss, s3))"

text \<open>The loop over the entries of one table: \<open>Inl\<close> when the end of the area is reached, \<open>Inr\<close> the next
  address when the table is done.\<close>

partial_function (option) copy_pte_loop ::
  "nopage \<Rightarrow> u32 \<Rightarrow> u32 \<Rightarrow> addr \<Rightarrow> addr \<Rightarrow> addr \<Rightarrow> addr \<Rightarrow> addr \<Rightarrow> nat \<Rightarrow> u32 \<Rightarrow> pgalloc \<Rightarrow>
     ((unit + addr) \<times> u32 \<times> pgalloc) option" where
  "copy_pte_loop np flags prot dst_pgd end' address src_pte dst_pte zero_page rss s =
     (case copy_one_pte np flags prot dst_pgd address src_pte dst_pte zero_page rss s of
        None \<Rightarrow> None
      | Some (rss1, s1) \<Rightarrow>
          let a = address + 4096
          in if a \<ge> end' then Some (Inl (), rss1, s1)
             else if (src_pte + 4) AND 0x3fc \<noteq> 0
             then copy_pte_loop np flags prot dst_pgd end' a (src_pte + 4) (dst_pte + 4) zero_page rss1 s1
             else Some (Inr a, rss1, s1))"

definition ENOMEM_pt :: int where "ENOMEM_pt = 12"

partial_function (option) copy_pgd_loop ::
  "nopage \<Rightarrow> u32 \<Rightarrow> u32 \<Rightarrow> addr \<Rightarrow> addr \<Rightarrow> addr \<Rightarrow> addr \<Rightarrow> addr \<Rightarrow> nat \<Rightarrow> u32 \<Rightarrow> pgalloc \<Rightarrow>
     (int \<times> u32 \<times> pgalloc) option" where
  "copy_pgd_loop np flags prot dst_pgd end' address src_pmd dst_pmd zero_page rss s =
     (if pmd_none (rdw s src_pmd) \<or> pmd_bad (rdw s src_pmd)
      then
        let s1 = (if pmd_none (rdw s src_pmd) then s else pmd_clear src_pmd s);
            a = (address + PGDIR_SIZE) AND PGDIR_MASK
        in if a \<ge> end' then Some (0, rss, s1)
           else copy_pgd_loop np flags prot dst_pgd end' a (src_pmd + 4) (dst_pmd + 4) zero_page rss s1
      else
        (case (if pmd_none (rdw s dst_pmd) then pte_alloc dst_pmd 0 s else Some (1, s)) of
           None \<Rightarrow> None
         | Some (p, s1) \<Rightarrow>
             if p = NULL then Some (- ENOMEM_pt, rss, s1)
             else
               (case copy_pte_loop np flags prot dst_pgd end' address (pte_offset src_pmd address s1)
                       (pte_offset dst_pmd address s1) zero_page rss s1 of
                  None \<Rightarrow> None
                | Some (Inl _, rss1, s2) \<Rightarrow> Some (0, rss1, s2)
                | Some (Inr a, rss1, s2) \<Rightarrow>
                    copy_pgd_loop np flags prot dst_pgd end' a (src_pmd + 4) (dst_pmd + 4) zero_page rss1 s2)))"

definition copy_page_range ::
  "nopage \<Rightarrow> u32 \<Rightarrow> u32 \<Rightarrow> addr \<Rightarrow> addr \<Rightarrow> addr \<Rightarrow> addr \<Rightarrow> nat \<Rightarrow> u32 \<Rightarrow> pgalloc \<Rightarrow> (int \<times> u32 \<times> pgalloc) option" where
  "copy_page_range np flags prot dst_pgd src_pgd vm_start vm_end zero_page rss s =
     copy_pgd_loop np flags prot dst_pgd vm_end vm_start (pgd_offset src_pgd vm_start)
       (pgd_offset dst_pgd vm_start) zero_page rss s"

section \<open>Freeing tables\<close>

definition free_one_pmd :: "addr \<Rightarrow> pgalloc \<Rightarrow> pgalloc option" where
  "free_one_pmd dir s =
     (if pmd_none (rdw s dir) then Some s
      else if pmd_bad (rdw s dir) then Some (pmd_clear dir s)
      else pte_free (pte_offset dir 0 s) (pmd_clear dir s))"

definition free_one_pgd :: "addr \<Rightarrow> pgalloc \<Rightarrow> pgalloc option" where
  "free_one_pgd dir s = free_one_pmd dir s"

text \<open>The count is decremented before it is tested: \<open>nr = 0\<close> would go round \<open>2^32\<close> times.\<close>

partial_function (option) clear_tables_loop :: "addr \<Rightarrow> u32 \<Rightarrow> pgalloc \<Rightarrow> pgalloc option" where
  "clear_tables_loop page_dir nr s =
     (case free_one_pgd page_dir s of
        None \<Rightarrow> None
      | Some s1 \<Rightarrow> if nr - 1 \<noteq> 0 then clear_tables_loop (page_dir + 4) (nr - 1) s1 else Some s1)"

definition clear_page_tables :: "addr \<Rightarrow> u32 \<Rightarrow> u32 \<Rightarrow> pgalloc \<Rightarrow> pgalloc option" where
  "clear_page_tables pgd first nr s = clear_tables_loop (pgd + 4 * first) nr s"

end
