(* ===== verification/Pgtable_Inv.thy ===== *)
theory Pgtable_Inv
  imports Pgtable
begin

text \<open>
  What page faults and copies do to the tables and to memory. Addresses are compared by their page
  frame; the tables, the old page and a newly allocated page lie in different frames.
\<close>

section \<open>Words and frames\<close>

lemma ldw_stw_same [simp]: "ldw (stw a v m) a = v"
proof (rule bit_word_eqI)
  fix n assume "n < LENGTH(32)"
  then have "n < 32" by simp
  then consider "n < 8" | "8 \<le> n \<and> n < 16" | "16 \<le> n \<and> n < 24" | "24 \<le> n \<and> n < 32" by linarith
  then show "bit (ldw (stw a v m) a) n = bit v n"
    by cases (auto simp: ldw_def stw_def bit_simps)
qed

definition fno :: "addr \<Rightarrow> nat" where
  "fno a = unat a div 4096"

lemma in_page:
  assumes "unat p mod 4096 = 0"
  shows "in_range a p 4096 \<longleftrightarrow> fno a = fno p"
proof -
  define k where "k = unat p div 4096"
  have "4096 dvd unat p" using assms by (rule mod_0_imp_dvd)
  then have p: "unat p = 4096 * k" by (simp add: k_def)
  have bd: "unat a < 4294967296" "unat p < 4294967296" by (rule unat_le_max_word32)+
  then have k: "k < 1048576" using p by simp
  have "unat (a - p) < 4096 \<longleftrightarrow> unat a div 4096 = k"
  proof (cases "unat p \<le> unat a")
    case True
    then have "unat (a - p) = unat a - 4096 * k" using p by (simp add: unat_sub_if_size)
    moreover define q r where "q = unat a div 4096" and "r = unat a mod 4096"
    then have "unat a = 4096 * q + r" "r < 4096" by simp_all
    ultimately show ?thesis using True p unfolding q_def [symmetric] by linarith
  next
    case False
    then have "unat (a - p) = unat a + 4294967296 - 4096 * k" using p by (simp add: unat_sub_if_size word_size)
    moreover have "unat a div 4096 < k" using False p by (simp add: less_mult_imp_div_less mult.commute)
    ultimately show ?thesis using k by simp
  qed
  then show ?thesis by (simp add: in_range_def fno_def k_def)
qed

lemma drop12_and: "drop_bit 12 (e :: u32) AND 0xfffff = drop_bit 12 e"
proof -
  have m: "(0xfffff :: u32) = mask 20" by (simp add: mask_eq_exp_minus_1)
  show ?thesis unfolding m
    by (intro bit_word_eqI) (auto simp: bit_simps dest: bit_imp_le_length)
qed

lemma entry_low [simp]:
  "drop_bit 12 (pte_mkwrite e) = drop_bit 12 e" "drop_bit 12 (pte_mkdirty e) = drop_bit 12 e"
  "drop_bit 12 (pte_mkyoung e) = drop_bit 12 e" "drop_bit 12 (pte_mkold e) = drop_bit 12 e"
  "drop_bit 12 (pte_mkclean e) = drop_bit 12 e" "drop_bit 12 (pte_wrprotect e) = drop_bit 12 e"
  by (simp_all add: pte_mkwrite_def pte_mkdirty_def pte_mkyoung_def pte_mkold_def pte_mkclean_def pte_wrprotect_def
      drop12_and drop_bit_and drop_bit_or)

text \<open>What an entry looks like once it is stored.\<close>

definition stored :: "u32 \<Rightarrow> u32" where
  "stored e = push_bit 12 (drop_bit 12 e) OR 0xffe"

lemma and_not_fff: "(e :: u32) AND - 4096 = push_bit 12 (drop_bit 12 e)"
proof -
  have m: "(- 4096 :: u32) = NOT (mask 12)" by (simp add: mask_eq_exp_minus_1 not_eq_complement)
  show ?thesis unfolding m by (intro bit_word_eqI) (auto simp: bit_simps)
qed

lemma rdw_set_pte [simp]: "rdw (set_pte p e s) p = stored e"
  by (simp add: set_pte_def stored_def and_not_fff or.assoc)

lemma set_pte_stored: "set_pte p e s = s\<lparr>ram := stw p (stored e) (ram s)\<rparr>"
  by (simp add: set_pte_def stored_def and_not_fff or.assoc)

lemma drop12_stored [simp]: "drop_bit 12 (stored e) = drop_bit 12 e"
  by (simp add: stored_def drop_bit_or) (intro bit_word_eqI, auto simp: bit_simps dest: bit_imp_le_length)

lemma stored_present [simp]: "pte_present (stored e)" "\<not> pte_none (stored e)" "stored e \<noteq> 0"
proof -
  have m: "(3 :: u32) = mask 2" by (simp add: mask_eq_exp_minus_1)
  have "push_bit 12 (drop_bit 12 e) AND 3 = 0" unfolding m by (intro bit_word_eqI) (auto simp: bit_simps)
  then have "stored e AND 3 = 2" by (simp add: stored_def bit.conj_disj_distrib2)
  then show "pte_present (stored e)" "\<not> pte_none (stored e)" "stored e \<noteq> 0"
    by (auto simp: pte_present_def pte_none_def)
qed

lemma pte_page_stored [simp]: "pte_page (stored e) = pte_page e"
  by (simp add: pte_page_def virt_to_page_def)

lemma stored_cong: "drop_bit 12 e = drop_bit 12 e' \<Longrightarrow> stored e = stored e'"
  by (simp add: stored_def)

section \<open>Separate words\<close>

definition waligned :: "addr \<Rightarrow> bool" where
  "waligned p \<longleftrightarrow> unat p mod 4 = 0"

lemma waligned_add: "waligned p \<Longrightarrow> i < 4 \<Longrightarrow> unat (p + of_nat i) = unat p + i"
proof -
  assume p: "waligned p" "i < 4"
  define k where "k = unat p div 4"
  have "4 dvd unat p" using p(1) by (simp add: waligned_def mod_0_imp_dvd)
  then have k: "unat p = 4 * k" by (simp add: k_def)
  have "k < 1073741824" using unat_le_max_word32 [of p] k by simp
  then have "unat p + i < 2 ^ 32" using k p(2) by simp
  then show ?thesis using unat_of_nat_small [of "unat p + i"] by simp
qed

lemma waligned_bytes: "waligned p \<Longrightarrow> unat (p + 1) = unat p + 1 \<and> unat (p + 2) = unat p + 2 \<and> unat (p + 3) = unat p + 3"
  using waligned_add [of p 1] waligned_add [of p 2] waligned_add [of p 3] by simp

lemma word_in_frame:
  assumes "waligned p"
  shows "fno (p + 1) = fno p" "fno (p + 2) = fno p" "fno (p + 3) = fno p"
proof -
  define q r where "q = unat p div 4" and "r = unat p mod 4"
  have k: "unat p = 4 * q" using assms by (simp add: q_def waligned_def mod_0_imp_dvd)
  have "(4 * q + i) div 4096 = q div 1024" if "i < 4" for i
  proof -
    have "(4 * q + i) div 4096 = (4 * q + i) div 4 div 1024" by (simp add: div_mult2_eq)
    then show ?thesis using that by simp
  qed
  from this [of 1] this [of 2] this [of 3] this [of 0] waligned_bytes [OF assms]
  show "fno (p + 1) = fno p" "fno (p + 2) = fno p" "fno (p + 3) = fno p"
    by (simp_all add: fno_def k)
qed

lemma ldw_cong_frame:
  assumes "waligned p" "\<And>a. fno a = fno p \<Longrightarrow> m' a = m a"
  shows "ldw m' p = ldw m p"
  using assms(2) [of p] assms(2) [of "p + 1"] assms(2) [of "p + 2"] assms(2) [of "p + 3"] word_in_frame [OF assms(1)]
  by (simp add: ldw_def)

lemma stw_other_frame: "waligned p \<Longrightarrow> fno a \<noteq> fno p \<Longrightarrow> stw p v m a = m a"
  using word_in_frame [of p] by (auto simp: stw_def)

lemma ldw_stw_other:
  assumes "waligned p" "waligned q" "p \<noteq> q"
  shows "ldw (stw p v m) q = ldw m q"
proof -
  have neq: "q + of_nat j \<noteq> p + of_nat i" if "i < 4" "j < 4" for i j
  proof
    assume "q + of_nat j = p + of_nat i"
    then have "unat q + j = unat p + i" using waligned_add assms(1,2) that by metis
    moreover obtain a b where "unat p = 4 * a" "unat q = 4 * b"
      using assms(1,2) by (metis waligned_def mod_0_imp_dvd dvdE)
    ultimately have "unat p = unat q" using that by simp
    then show False using assms(3) by (simp add: word_unat_eq_iff)
  qed
  have at: "stw p v m (q + of_nat j) = m (q + of_nat j)" if "j < 4" for j
    using neq [of 0 j] neq [of 1 j] neq [of 2 j] neq [of 3 j] that by (simp add: stw_def)
  show ?thesis using at [of 0] at [of 1] at [of 2] at [of 3] by (simp add: ldw_def)
qed

section \<open>Page addresses\<close>

definition paddr :: "nat \<Rightarrow> addr" where
  "paddr n = push_bit 12 (of_nat n + ARCH_PFN_OFFSET)"

lemma page_address_Some [simp]: "page_address (Some n) s = paddr n"
  by (simp add: page_address_def paddr_def)

lemma paddr_unat:
  assumes "n < 0xd0000"
  shows "unat (paddr n) = 4096 * (n + 0x30000)"
proof -
  have "paddr n = of_nat (4096 * (n + 0x30000))"
    by (simp add: paddr_def ARCH_PFN_OFFSET_def push_bit_eq_mult algebra_simps)
  then show ?thesis using assms unat_of_nat_small [of "4096 * (n + 0x30000)"] by simp
qed

lemma fno_paddr: "n < 0xd0000 \<Longrightarrow> fno (paddr n) = n + 0x30000"
  by (simp add: fno_def paddr_unat)

lemma in_paddr: "n < 0xd0000 \<Longrightarrow> in_range a (paddr n) 4096 \<longleftrightarrow> fno a = n + 0x30000"
  using in_page [of "paddr n" a] by (simp add: paddr_unat fno_paddr)

lemma paddr_not_null: "n < 0xd0000 \<Longrightarrow> paddr n \<noteq> NULL"
  using paddr_unat [of n] by auto

lemma stored_mk_pte:
  assumes "n < 0xd0000" "unat prot < 4096"
  shows "stored (mk_pte n prot s) = paddr n OR 0xffe"
proof -
  have u: "unat (paddr n + prot) = 4096 * (n + 0x30000) + unat prot"
  proof -
    have "paddr n + prot = of_nat (4096 * (n + 0x30000) + unat prot)"
      by (simp add: paddr_def ARCH_PFN_OFFSET_def push_bit_eq_mult algebra_simps)
    then show ?thesis using assms unat_of_nat_small [of "4096 * (n + 0x30000) + unat prot"] by simp
  qed
  have "unat (drop_bit 12 (paddr n + prot)) = n + 0x30000"
    using u assms(2) by (simp add: unat_drop_bit_eq) (simp add: drop_bit_eq_div)
  moreover have "unat (of_nat (n + 0x30000) :: u32) = n + 0x30000" using assms(1) by (intro unat_of_nat_small) simp
  ultimately have "drop_bit 12 (paddr n + prot) = of_nat n + ARCH_PFN_OFFSET"
    by (simp add: word_unat_eq_iff ARCH_PFN_OFFSET_def)
  then show ?thesis by (simp add: stored_def mk_pte_def paddr_def)
qed

section \<open>Allocation of a page\<close>

lemma rmqueue_frame:
  "rmqueue zid order (s\<lparr>ram := r, mem_map := m\<rparr>) =
     (case rmqueue zid order s of
        (None, s') \<Rightarrow> (None, s'\<lparr>ram := r, mem_map := m\<rparr>)
      | (Some p, s') \<Rightarrow> (Some p, s'\<lparr>ram := r, mem_map := m(p := (m p)\<lparr>pg_count := 1\<rparr>)\<rparr>))"
  by (simp add: rmqueue_def Let_def split: option.splits prod.splits)

lemma alloc_from_zones_frame:
  "alloc_from_zones zs order (s\<lparr>ram := r, mem_map := m\<rparr>) =
     (case alloc_from_zones zs order s of
        (None, s') \<Rightarrow> (None, s'\<lparr>ram := r, mem_map := m\<rparr>)
      | (Some p, s') \<Rightarrow> (Some p, s'\<lparr>ram := r, mem_map := m(p := (m p)\<lparr>pg_count := 1\<rparr>)\<rparr>))"
proof (induction zs arbitrary: s)
  case (Cons z zs)
  show ?case
    using Cons.IH [of "snd (rmqueue z order s)"] Cons.IH [of s]
    by (auto simp: rmqueue_frame fun_upd_def split: option.splits prod.splits)
qed simp

text \<open>\<open>pick_page\<close>: the page the next allocation of one page returns, whatever memory and counts are.\<close>

definition pick_page :: "pgalloc \<Rightarrow> nat option" where
  "pick_page s = fst (alloc_pages_zonelist (node_zonelists s GFP_HIGHUSER) 0 s)"

lemma alloc_from_zones_keeps:
  "alloc_from_zones zs order s = (r, s') \<Longrightarrow> ram s' = ram s \<and> max_mapnr s' = max_mapnr s \<and> null_va s' = null_va s \<and>
     (case r of None \<Rightarrow> mem_map s' = mem_map s | Some p \<Rightarrow> mem_map s' = (mem_map s)(p := (mem_map s p)\<lparr>pg_count := 1\<rparr>))"
proof (induction zs arbitrary: s)
  case (Cons z zs)
  obtain q t where q: "rmqueue z order s = (q, t)" by (cases "rmqueue z order s")
  have "ram t = ram s \<and> max_mapnr t = max_mapnr s \<and> null_va t = null_va s \<and>
     (case q of None \<Rightarrow> mem_map t = mem_map s | Some p \<Rightarrow> mem_map t = (mem_map s)(p := (mem_map s p)\<lparr>pg_count := 1\<rparr>))"
    using q by (auto simp: rmqueue_def Let_def split: option.splits prod.splits)
  then show ?case using Cons.IH [of t] Cons.IH [of s] Cons.prems q
    by (cases q; cases r) (auto split: if_splits)
qed auto

lemma alloc_one_page:
  assumes "pick_page s = Some n" "n < 0xd0000"
  shows "\<exists>s'. alloc_pages GFP_HIGHUSER 0 (s\<lparr>ram := r, mem_map := m\<rparr>) = (Some n, s') \<and>
     mem_map s' = m(n := (m n)\<lparr>pg_count := 1\<rparr>) \<and> max_mapnr s' = max_mapnr s \<and>
     ram s' = (\<lambda>a. if fno a = n + 0x30000 then 0 else r a)"
proof -
  let ?zs = "node_zonelists s GFP_HIGHUSER" and ?s = "s\<lparr>memory_pressure := memory_pressure s + 1\<rparr>"
  obtain t where t: "alloc_from_zones ?zs 0 ?s = (Some n, t)"
    using assms(1) by (cases "alloc_from_zones ?zs 0 ?s") (auto simp: pick_page_def alloc_pages_zonelist_def)
  have "alloc_from_zones ?zs 0 (?s\<lparr>ram := r, mem_map := m\<rparr>) = (Some n, t\<lparr>ram := r, mem_map := m(n := (m n)\<lparr>pg_count := 1\<rparr>)\<rparr>)"
    unfolding alloc_from_zones_frame t by simp
  moreover have "?s\<lparr>ram := r, mem_map := m\<rparr> = (s\<lparr>ram := r, mem_map := m\<rparr>)\<lparr>memory_pressure := memory_pressure s + 1\<rparr>" by simp
  ultimately have "alloc_pages GFP_HIGHUSER 0 (s\<lparr>ram := r, mem_map := m\<rparr>) =
      (Some n, t\<lparr>mem_map := m(n := (m n)\<lparr>pg_count := 1\<rparr>), ram := memset (paddr n) 0 4096 r\<rparr>)"
    by (simp add: alloc_pages_def alloc_pages_zonelist_def clear_block_def)
  moreover have "memset (paddr n) 0 4096 r = (\<lambda>a. if fno a = n + 0x30000 then 0 else r a)"
    using assms(2) by (auto simp: memset_apply paddr_not_null in_paddr fun_eq_iff)
  moreover have "max_mapnr t = max_mapnr s" using alloc_from_zones_keeps [OF t] by simp
  ultimately show ?thesis by simp
qed

lemma pick_page_frame [simp]: "pick_page (s\<lparr>ram := r, mem_map := m\<rparr>) = pick_page s"
proof -
  let ?s = "s\<lparr>memory_pressure := memory_pressure s + 1\<rparr>"
  have eq: "(s\<lparr>ram := r, mem_map := m\<rparr>)\<lparr>memory_pressure := memory_pressure s + 1\<rparr> = ?s\<lparr>ram := r, mem_map := m\<rparr>" by simp
  have "alloc_pages_zonelist zs 0 (s\<lparr>ram := r, mem_map := m\<rparr>) = alloc_from_zones zs 0 (?s\<lparr>ram := r, mem_map := m\<rparr>)" for zs
    unfolding eq [symmetric] alloc_pages_zonelist_def by simp
  then show ?thesis
    unfolding pick_page_def alloc_from_zones_frame
    by (simp add: alloc_pages_zonelist_def split: prod.splits option.splits)
qed

lemma reserved_count [simp]: "PageReserved (p\<lparr>pg_count := c\<rparr>) = PageReserved p"
  by (simp add: PageReserved_def page_words_def test_bit_def PG_reserved_def wtst_def)

section \<open>Copying a page on a write fault\<close>

lemma not_in_new_page:
  assumes "n < 0xd0000" "o' < 0xd0000" "n \<noteq> o'" "i < 4096"
  shows "\<not> in_range (paddr o' + of_nat i) (paddr n) 4096"
proof -
  have "in_range (paddr o' + of_nat i) (paddr o') 4096" using assms(4) by (simp add: in_range_offset)
  then show ?thesis using assms(1-3) by (simp add: in_paddr)
qed

lemma break_cow_effect:
  assumes "n < 0xd0000" "o' < 0xd0000" "n \<noteq> o'" "waligned p" "fno p \<noteq> n + 0x30000" "unat prot < 4096"
  shows "\<exists>r. break_cow o' n p prot s = s\<lparr>ram := r\<rparr> \<and> ldw r p = paddr n OR 0xffe \<and>
     bytes_at r (paddr n) 4096 = bytes_at (ram s) (paddr o') 4096 \<and>
     (\<forall>a. fno a \<noteq> fno p \<and> fno a \<noteq> n + 0x30000 \<longrightarrow> r a = ram s a) \<and>
     (\<forall>q. waligned q \<and> q \<noteq> p \<and> fno q \<noteq> n + 0x30000 \<longrightarrow> ldw r q = rdw s q)"
proof -
  define m where "m = snd (memcpy (paddr n) (paddr o') 4096 (ram s))"
  have sep: "\<not> in_range (paddr o' + of_nat i) (paddr n) (unat (4096 :: u32))" if "i < unat (4096 :: u32)" for i
    using not_in_new_page [OF assms(1-3)] that by simp
  note mc = memcpy_bytes [OF paddr_not_null [OF assms(1)] paddr_not_null [OF assms(2)] sep, where m = "ram s"]
  have m: "bytes_at m (paddr n) 4096 = bytes_at (ram s) (paddr o') 4096"
    "\<And>a. fno a \<noteq> n + 0x30000 \<Longrightarrow> m a = ram s a"
    using mc by (simp_all add: m_def in_paddr [OF assms(1)])
  define r where "r = stw p (paddr n OR 0xffe) m"
  have "ldw m q = rdw s q" if "waligned q" "fno q \<noteq> n + 0x30000" for q
    using that by (intro ldw_cong_frame) (simp_all add: m(2))
  then have "ldw r q = rdw s q" if "waligned q" "q \<noteq> p" "fno q \<noteq> n + 0x30000" for q
    using ldw_stw_other [OF assms(4)] that by (simp add: r_def)
  moreover have "bytes_at r (paddr n) 4096 = bytes_at m (paddr n) 4096"
  proof (rule bytes_at_cong)
    fix i :: nat assume "i < 4096"
    then have "in_range (paddr n + of_nat i) (paddr n) 4096" by (simp add: in_range_offset)
    then have "fno (paddr n + of_nat i) = n + 0x30000" by (simp add: in_paddr [OF assms(1)])
    then show "r (paddr n + of_nat i) = m (paddr n + of_nat i)"
      using assms(4,5) by (simp add: r_def stw_other_frame)
  qed
  moreover have "break_cow o' n p prot s = s\<lparr>ram := r\<rparr>"
  proof -
    have "stored (pte_mkwrite (pte_mkdirty (mk_pte n prot (s\<lparr>ram := m\<rparr>)))) = paddr n OR 0xffe"
      using stored_mk_pte [OF assms(1,6), of "s\<lparr>ram := m\<rparr>"] entry_low
      by (simp add: stored_def)
    then show ?thesis
      by (simp add: break_cow_def set_pte_stored r_def m_def)
  qed
  ultimately show ?thesis using m assms(4) by (intro exI [of _ r]) (auto simp: r_def stw_other_frame)
qed

lemma paddr_pte_page:
  assumes "unat (pte_page e) < 0xd0000"
  shows "fno e = unat (pte_page e) + 0x30000"
proof -
  have f: "unat (drop_bit 12 e) = fno e" by (simp add: unat_drop_bit_eq fno_def) (simp add: drop_bit_eq_div)
  have "drop_bit 12 e = of_nat (unat (pte_page e)) + ARCH_PFN_OFFSET" by (simp add: pte_page_def virt_to_page_def)
  then have "drop_bit 12 e = of_nat (unat (pte_page e) + 0x30000)" by (simp add: ARCH_PFN_OFFSET_def)
  then show ?thesis using assms f unat_of_nat_small [of "unat (pte_page e) + 0x30000"] by simp
qed

lemma count_after:
  fixes c :: u32
  assumes "c \<noteq> 0" "c \<noteq> - 1"
  shows "c + 1 \<noteq> 1" "c + 1 \<noteq> 0"
  using assms by (auto simp: eq_neg_iff_add_eq_0)

lemma do_wp_page_copies:
  assumes e: "rdw s p = e" and o: "unat (pte_page e) = o'" "o' < 0xd0000" "o' < max_mapnr s"
    and c: "pg_count (mem_map s o') = c + 1" "c \<noteq> 0" "c \<noteq> - 1" "\<not> PageReserved (mem_map s o')"
    and n: "pick_page s = Some n" "n < 0xd0000" "n \<noteq> o'"
    and p: "waligned p" "fno p \<noteq> n + 0x30000" "fno p \<noteq> o' + 0x30000" and prot: "unat prot < 4096"
  shows "\<exists>s'. do_wp_page p e prot rss s = Some (1, rss, s') \<and> rdw s' p = paddr n OR 0xffe \<and>
     bytes_at (ram s') (paddr n) 4096 = bytes_at (ram s) (paddr o') 4096 \<and>
     (\<forall>a. fno a \<noteq> fno p \<and> fno a \<noteq> n + 0x30000 \<longrightarrow> ram s' a = ram s a) \<and>
     (\<forall>q. waligned q \<and> q \<noteq> p \<and> fno q \<noteq> n + 0x30000 \<longrightarrow> rdw s' q = rdw s q) \<and>
     pg_count (mem_map s' o') = c \<and> pg_count (mem_map s' n) = 1"
proof -
  have "s\<lparr>ram := ram s, mem_map := mem_map s\<rparr> = s" by simp
  then obtain s1 where s1: "alloc_pages GFP_HIGHUSER 0 s = (Some n, s1)"
      "mem_map s1 = (mem_map s)(n := (mem_map s n)\<lparr>pg_count := 1\<rparr>)" "max_mapnr s1 = max_mapnr s"
      "ram s1 = (\<lambda>a. if fno a = n + 0x30000 then 0 else ram s a)"
    using alloc_one_page [OF n(1,2), where r = "ram s" and m = "mem_map s"] by auto
  have kept: "rdw s1 q = rdw s q" if "waligned q" "fno q \<noteq> n + 0x30000" for q
    using that by (intro ldw_cong_frame) (simp_all add: s1(4))
  obtain r where r: "break_cow o' n p prot s1 = s1\<lparr>ram := r\<rparr>" "ldw r p = paddr n OR 0xffe"
     "bytes_at r (paddr n) 4096 = bytes_at (ram s1) (paddr o') 4096"
     "\<And>a. fno a \<noteq> fno p \<Longrightarrow> fno a \<noteq> n + 0x30000 \<Longrightarrow> r a = ram s1 a"
     "\<And>q. waligned q \<Longrightarrow> q \<noteq> p \<Longrightarrow> fno q \<noteq> n + 0x30000 \<Longrightarrow> ldw r q = rdw s1 q"
    using break_cow_effect [OF n(2) o(2) n(3) p(1,2) prot, of s1] by blast
  have old: "bytes_at (ram s1) (paddr o') 4096 = bytes_at (ram s) (paddr o') 4096"
  proof (rule bytes_at_cong)
    fix i :: nat assume "i < 4096"
    then have "in_range (paddr o' + of_nat i) (paddr o') 4096" by (simp add: in_range_offset)
    then show "ram s1 (paddr o' + of_nat i) = ram s (paddr o' + of_nat i)"
      using n(3) by (simp add: s1(4) in_paddr [OF o(2)])
  qed
  have res: "\<not> PageReserved (mem_map s1 o')" "pg_count (mem_map s1 o') = c + 1" using c n(3) by (simp_all add: s1(2))
  have "do_wp_page p e prot rss s =
      Some (1, rss, (s1\<lparr>ram := r\<rparr>)\<lparr>mem_map := (mem_map s1)(o' := (mem_map s1 o')\<lparr>pg_count := c\<rparr>)\<rparr>)"
    using s1(1) kept [OF p(1,2)] e o c(1) count_after [OF c(2,3)] res c(2)
    by (simp add: do_wp_page_def Let_def VALID_PAGE_def free_pages_count_def r(1) atomic_dec_and_test_def)
  then show ?thesis
    using r(2-5) old s1(4) kept n(3) by (auto simp: s1(2))
qed

section \<open>Properties\<close>

text \<open>\<open>table_at\<close>: the table of \<open>address\<close> is installed and its entry is at \<open>pte\<close>.\<close>

definition table_at :: "addr \<Rightarrow> addr \<Rightarrow> addr \<Rightarrow> pgalloc \<Rightarrow> bool" where
  "table_at pgd address pte s \<longleftrightarrow>
     pgd_offset pgd address \<noteq> NULL \<and> \<not> pmd_none (rdw s (pgd_offset pgd address)) \<and>
     \<not> pmd_bad (rdw s (pgd_offset pgd address)) \<and>
     pte = pte_offset (pgd_offset pgd address) address s \<and> pte \<noteq> NULL"

lemma handle_mm_fault_table:
  "table_at pgd address pte s \<Longrightarrow>
   handle_mm_fault np flags prot pgd address w zero_page rss s = handle_pte_fault np flags prot address w pte zero_page rss s"
  by (auto simp: table_at_def handle_mm_fault_def pmd_alloc_def pte_alloc_def pte_offset_def Let_def)

lemma table_at_cong:
  "rdw s' (pgd_offset pgd address) = rdw s (pgd_offset pgd address) \<Longrightarrow> table_at pgd address pte s' = table_at pgd address pte s"
  by (simp add: table_at_def pte_offset_def)

definition demo_pt :: pgalloc where
  "demo_pt = \<lparr>mem_map = (\<lambda>_. \<lparr>pg_count = 1, pg_flags = 0, pg_age = 0, pg_zone = 1\<rparr>),
     node_zones = (\<lambda>_. \<lparr>z_offset = 0, z_size = 1024, z_free_pages = 1, z_pages_min = 0, z_pages_low = 0,
       z_pages_high = 0, free_list = (\<lambda>k. if k = 0 then [8] else []), z_map = (\<lambda>_ _. 0)\<rparr>),
     node_zonelists = (\<lambda>_. [1]), memory_pressure = 0, max_mapnr = 1024,
     ram = stw 0x30006000 0x30007ffe (stw 0x30004000 0x30005061 (\<lambda>_. 0)), null_va = 0x1000\<rparr>"

lemma demo_pt_words:
  "rdw demo_pt 0x30004000 = 0x30005061" "rdw demo_pt 0x30006000 = 0x30007ffe" "rdw demo_pt 0x30005000 = 0"
  "max_mapnr demo_pt = 1024"
  by (simp_all add: demo_pt_def ldw_stw_other waligned_def) (simp add: ldw_def)

lemma demo_pt_table: "table_at 0x30004000 0 0x30005000 demo_pt"
  by (simp add: table_at_def pgd_offset_def pte_offset_def demo_pt_words pmd_none_def pmd_bad_def pmd_page_def pte_index_def)

lemma demo_pt_pick: "pick_page demo_pt = Some 8"
  by (simp add: pick_page_def alloc_pages_zonelist_def demo_pt_def rmqueue_def rmqueue_loop.simps Let_def memlist_del_def MARK_USED_def split: prod.splits)

text \<open>C34. A write to a page of an anonymous area that has no page yet gets one: the fault handler
  returns 1, takes a page from the allocator, clears it, makes the entry map it, counts it once, adds one to the
  resident set and leaves every other word of memory outside the new page as it was.\<close>

theorem anonymous_write_maps_page:
  assumes "table_at pgd address pte s" "rdw s pte = 0" "waligned pte"
    and "pick_page s = Some n" "n < 0xd0000" "fno pte \<noteq> n + 0x30000" "unat prot < 4096"
  shows "\<exists>s'. handle_mm_fault None flags prot pgd address 1 zero_page rss s = Some (1, rss + 1, s') \<and>
     rdw s' pte = paddr n OR 0xffe \<and> pg_count (mem_map s' n) = 1 \<and>
     (\<forall>i < 4096. ram s' (paddr n + of_nat i) = 0) \<and>
     (\<forall>q. waligned q \<and> q \<noteq> pte \<and> fno q \<noteq> n + 0x30000 \<longrightarrow> rdw s' q = rdw s q)"
proof -
  have "s\<lparr>ram := ram s, mem_map := mem_map s\<rparr> = s" by simp
  then obtain s1 where s1: "alloc_pages GFP_HIGHUSER 0 s = (Some n, s1)"
      "mem_map s1 = (mem_map s)(n := (mem_map s n)\<lparr>pg_count := 1\<rparr>)"
      "ram s1 = (\<lambda>a. if fno a = n + 0x30000 then 0 else ram s a)"
    using alloc_one_page [OF assms(4,5), where r = "ram s" and m = "mem_map s"] by auto
  define s' where "s' = s1\<lparr>ram := stw pte (paddr n OR 0xffe) (ram s1)\<rparr>"
  have "handle_mm_fault None flags prot pgd address 1 zero_page rss s = Some (1, rss + 1, s')"
    using assms(2) stored_mk_pte [OF assms(5,7), of s1] s1(1)
    by (simp add: handle_mm_fault_table [OF assms(1)] handle_pte_fault_def pte_present_def pte_none_def do_no_page_def
        do_anonymous_page_def set_pte_stored s'_def stored_def Let_def)
  moreover have "ram s' (paddr n + of_nat i) = 0" if "i < 4096" for i
  proof -
    have "in_range (paddr n + of_nat i) (paddr n) 4096" using that by (simp add: in_range_offset)
    then have "fno (paddr n + of_nat i) = n + 0x30000" by (simp add: in_paddr [OF assms(5)])
    then show ?thesis using assms(3,6) by (simp add: s'_def stw_other_frame s1(3))
  qed
  moreover have "rdw s' q = rdw s q" if "waligned q" "q \<noteq> pte" "fno q \<noteq> n + 0x30000" for q
    using that ldw_cong_frame [of q "ram s1" "ram s"] by (simp add: s'_def ldw_stw_other [OF assms(3)] s1(3))
  ultimately show ?thesis by (auto simp: s'_def s1(2))
qed

theorem anonymous_write_maps_page_witness:
  "\<exists>s'. handle_mm_fault None 0 0 0x30004000 0 1 1 5 demo_pt = Some (1, 5 + 1, s') \<and>
     rdw s' 0x30005000 = paddr 8 OR 0xffe \<and> pg_count (mem_map s' 8) = 1 \<and>
     (\<forall>i < 4096. ram s' (paddr 8 + of_nat i) = 0) \<and>
     (\<forall>q. waligned q \<and> q \<noteq> 0x30005000 \<and> fno q \<noteq> 8 + 0x30000 \<longrightarrow> rdw s' q = rdw demo_pt q)"
  by (rule anonymous_write_maps_page [OF demo_pt_table])
    (simp_all add: demo_pt_words demo_pt_pick waligned_def fno_def)



text \<open>C35. A page that was unmapped cannot come back: \<open>ptep_get_and_clear\<close> clears an entry with
  \<open>set_pte\<close>, which forces the low bits, so the entry still reads as present and the next fault takes the
  write-protection path instead of supplying a page: a write fails with -1, a read reports success, and in both
  cases the entry is the cleared one.\<close>

theorem cleared_page_never_returns:
  assumes "s' = snd (ptep_get_and_clear pte s)" "table_at pgd address pte s'" "max_mapnr s \<le> 0xfffd0000"
  shows "pte_present (rdw s' pte) \<and> \<not> pte_none (rdw s' pte) \<and>
     handle_mm_fault np flags prot pgd address 1 zero_page rss s' = Some (- 1, rss, s') \<and>
     (\<exists>s''. handle_mm_fault np flags prot pgd address 0 zero_page rss s' = Some (1, rss, s'') \<and>
       rdw s'' pte = rdw s' pte)"
proof -
  have s': "s' = set_pte pte 0 s" using assms(1) by (simp add: ptep_get_and_clear_def)
  then have e: "rdw s' pte = stored 0" by simp
  have "max_mapnr s' = max_mapnr s" by (simp add: s' set_pte_stored)
  moreover have "pte_page (stored 0) = 0xfffd0000" by (simp add: pte_page_def virt_to_page_def ARCH_PFN_OFFSET_def)
  ultimately have bad: "\<not> VALID_PAGE (pte_page (stored 0)) s'" using assms(3) by (simp add: VALID_PAGE_def)
  have "handle_mm_fault np flags prot pgd address 1 zero_page rss s' = Some (- 1, rss, s')"
    using bad by (simp add: handle_mm_fault_table [OF assms(2)] handle_pte_fault_def e do_wp_page_def Let_def)
  moreover have "\<exists>s''. handle_mm_fault np flags prot pgd address 0 zero_page rss s' = Some (1, rss, s'') \<and> rdw s'' pte = rdw s' pte"
    using stored_cong [of "pte_mkyoung (stored 0)" 0]
    by (simp add: handle_mm_fault_table [OF assms(2)] handle_pte_fault_def e Let_def)
  ultimately show ?thesis by (simp add: e)
qed

theorem cleared_page_never_returns_witness:
  "let s' = snd (ptep_get_and_clear 0x30005000 demo_pt)
   in pte_present (rdw s' 0x30005000) \<and> \<not> pte_none (rdw s' 0x30005000) \<and>
     handle_mm_fault None 0 0 0x30004000 0 1 1 5 s' = Some (- 1, 5, s') \<and>
     (\<exists>s''. handle_mm_fault None 0 0 0x30004000 0 0 1 5 s' = Some (1, 5, s'') \<and>
       rdw s'' 0x30005000 = rdw s' 0x30005000)"
  unfolding Let_def
proof (rule cleared_page_never_returns [OF refl])
  show "table_at 0x30004000 0 0x30005000 (snd (ptep_get_and_clear 0x30005000 demo_pt))"
    using demo_pt_table table_at_cong [where s' = "snd (ptep_get_and_clear 0x30005000 demo_pt)" and pgd = "0x30004000" and address = 0 and s = demo_pt]
    by (simp add: ptep_get_and_clear_def set_pte_stored pgd_offset_def ldw_stw_other waligned_def)
qed (simp add: demo_pt_words)

end
