(* ===== verification/Vma.thy ===== *)
theory Vma
  imports Pgtable_Inv Slab_Inv
begin

text \<open>
  Address spaces: \<^verbatim>\<open>src/mm/mmap.c\<close> and \<open>make_pages_present\<close> of \<^verbatim>\<open>src/mm/memory.c\<close>. An address
  space keeps its areas on a singly linked list in the order of their addresses. Area structures come
  from the slab cache \<open>vm_area_cachep\<close>, page tables and pages from the page allocator inside the slab
  state. No operations table is defined in the sources, so \<open>vm_ops\<close> has no hooks to call; the AVL tree is
  compiled out and \<open>mmap_avl\<close> stays NULL. A null result of an option stands for a traversal or a page
  release that does not return.
\<close>

record vma =
  vm_mm :: addr
  vm_start :: addr
  vm_end :: addr
  vm_next :: addr
  vm_page_prot :: u32
  vm_flags :: u32
  vm_pgoff :: u32
  vm_raend :: u32
  vm_private_data :: addr

record mm =
  mm_mmap :: addr
  mm_avl :: addr
  mm_cache :: addr
  mm_def_flags :: u32
  mm_pgd :: addr
  mm_users :: u32
  mm_count :: u32
  mm_map_count :: int
  mm_end_code :: addr
  mm_brk :: addr
  mm_rss :: u32
  mm_total_vm :: u32
  mm_locked_vm :: u32
  mm_swap_cnt :: u32
  mm_swap_address :: u32

record vmst =
  sl :: slabst
  vma_at :: "addr \<Rightarrow> vma"
  mm_at :: "addr \<Rightarrow> mm"
  vm_area_cachep :: addr
  mm_cachep :: addr
  cur_mm :: addr
  empty_zero_page :: nat

abbreviation upd_vma :: "addr \<Rightarrow> (vma \<Rightarrow> vma) \<Rightarrow> vmst \<Rightarrow> vmst" where
  "upd_vma p f st \<equiv> st\<lparr>vma_at := (vma_at st)(p := f (vma_at st p))\<rparr>"

abbreviation upd_mm :: "addr \<Rightarrow> (mm \<Rightarrow> mm) \<Rightarrow> vmst \<Rightarrow> vmst" where
  "upd_mm m f st \<equiv> st\<lparr>mm_at := (mm_at st)(m := f (mm_at st m))\<rparr>"

abbreviation vpg :: "vmst \<Rightarrow> pgalloc" where
  "vpg st \<equiv> pg (sl st)"

abbreviation set_vpg :: "pgalloc \<Rightarrow> vmst \<Rightarrow> vmst" where
  "set_vpg g st \<equiv> st\<lparr>sl := (sl st)\<lparr>pg := g\<rparr>\<rparr>"

definition PAGE_ALIGN :: "addr \<Rightarrow> addr" where
  "PAGE_ALIGN a = (a + 0xfff) AND NOT 0xfff"

definition MAX_MAP_COUNT :: int where "MAX_MAP_COUNT = 65536"
definition SLAB_KERNEL :: u32 where "SLAB_KERNEL = 7"
definition ENOMEM :: int where "ENOMEM = 12"
definition EINVAL :: int where "EINVAL = 22"
definition VM_LOCKED :: u32 where "VM_LOCKED = 0x2000"
definition VM_DATA_DEFAULT_FLAGS :: u32 where "VM_DATA_DEFAULT_FLAGS = 0x77"

section \<open>Finding areas\<close>

partial_function (option) find_loop :: "vmst \<Rightarrow> addr \<Rightarrow> addr \<Rightarrow> addr option" where
  "find_loop st vma addr =
     (if vma \<noteq> NULL \<and> vm_end (vma_at st vma) \<le> addr then find_loop st (vm_next (vma_at st vma)) addr else Some vma)"

definition find_vma :: "addr \<Rightarrow> addr \<Rightarrow> vmst \<Rightarrow> (addr \<times> vmst) option" where
  "find_vma mm addr st =
     (if mm = NULL then Some (NULL, st)
      else
        let m = mm_at st mm;
            vma = mm_cache m
        in if vma \<noteq> NULL \<and> vm_end (vma_at st vma) > addr \<and> vm_start (vma_at st vma) \<le> addr
           then Some (vma, st)
           else
             (case (if mm_avl m = NULL then find_loop st (mm_mmap m) addr else Some vma) of
                None \<Rightarrow> None
              | Some v \<Rightarrow> Some (v, if v \<noteq> NULL then upd_mm mm (\<lambda>m. m\<lparr>mm_cache := v\<rparr>) st else st)))"

partial_function (option) find_prev_loop :: "vmst \<Rightarrow> addr \<Rightarrow> addr \<Rightarrow> addr \<Rightarrow> (addr \<times> addr) option" where
  "find_prev_loop st prev vma addr =
     (if vma \<noteq> NULL \<and> vm_end (vma_at st vma) < addr
      then find_prev_loop st vma (vm_next (vma_at st vma)) addr
      else Some (vma, prev))"

definition find_vma_prev :: "addr \<Rightarrow> addr \<Rightarrow> vmst \<Rightarrow> (addr \<times> addr) option" where
  "find_vma_prev mm addr st =
     (if mm \<noteq> NULL \<and> mm_avl (mm_at st mm) = NULL then find_prev_loop st NULL (mm_mmap (mm_at st mm)) addr
      else Some (NULL, NULL))"

definition find_vma_intersection :: "addr \<Rightarrow> addr \<Rightarrow> addr \<Rightarrow> vmst \<Rightarrow> (addr \<times> vmst) option" where
  "find_vma_intersection mm start_addr end_addr st =
     (case find_vma mm start_addr st of
        None \<Rightarrow> None
      | Some (vma, st1) \<Rightarrow>
          Some (if vma \<noteq> NULL \<and> end_addr \<le> vm_start (vma_at st1 vma) then NULL else vma, st1))"

section \<open>Inserting areas\<close>

text \<open>A pointer to a link is the area that holds it, or NULL for the list head of the address space.\<close>

definition set_link :: "addr \<Rightarrow> addr \<Rightarrow> addr \<Rightarrow> vmst \<Rightarrow> vmst" where
  "set_link mm prev v st =
     (if prev = NULL then upd_mm mm (\<lambda>m. m\<lparr>mm_mmap := v\<rparr>) st else upd_vma prev (\<lambda>a. a\<lparr>vm_next := v\<rparr>) st)"

partial_function (option) insert_scan :: "vmst \<Rightarrow> addr \<Rightarrow> addr \<Rightarrow> addr \<Rightarrow> (addr \<times> addr) option" where
  "insert_scan st start prev vma =
     (if vma \<noteq> NULL \<and> vm_start (vma_at st vma) \<le> start
      then insert_scan st start vma (vm_next (vma_at st vma))
      else Some (prev, vma))"

definition insert_vm_struct :: "addr \<Rightarrow> addr \<Rightarrow> vmst \<Rightarrow> vmst option" where
  "insert_vm_struct mm vmp st =
     (if mm_avl (mm_at st mm) \<noteq> NULL then None
      else
        (case insert_scan st (vm_start (vma_at st vmp)) NULL (mm_mmap (mm_at st mm)) of
           None \<Rightarrow> None
         | Some (prev, next') \<Rightarrow>
             let st1 = upd_vma vmp (\<lambda>a. a\<lparr>vm_next := next'\<rparr>) st;
                 st2 = set_link mm prev vmp st1
             in Some (upd_mm mm (\<lambda>m. m\<lparr>mm_map_count := mm_map_count m + 1\<rparr>) st2)))"

section \<open>Releasing page tables\<close>

text \<open>The walk of \<open>free_pgtables\<close> to the areas around the range: the bounds of the tables to clear.\<close>

partial_function (option) around_loop :: "vmst \<Rightarrow> addr \<Rightarrow> addr \<Rightarrow> addr \<Rightarrow> addr \<Rightarrow> (addr \<times> addr) option" where
  "around_loop st prev start first' last' =
     (let next' = vm_next (vma_at st prev)
      in if next' \<noteq> NULL \<and> vm_start (vma_at st next') < start then around_loop st next' start first' last'
         else
           let l = (if next' \<noteq> NULL \<and> last' > vm_start (vma_at st next') then vm_start (vma_at st next') else last');
               f = (if vm_end (vma_at st prev) > first' then vm_end (vma_at st prev) + PGDIR_SIZE - 1 else first')
           in Some (f, l))"

definition pgtable_bounds :: "addr \<Rightarrow> addr \<Rightarrow> addr \<Rightarrow> addr \<Rightarrow> vmst \<Rightarrow> (addr \<times> addr) option" where
  "pgtable_bounds mm prev start end' st =
     (let first' = start AND PGDIR_MASK;
          last' = end' + PGDIR_SIZE - 1;
          p = mm_mmap (mm_at st mm)
      in if prev \<noteq> NULL then around_loop st prev start first' last'
         else if p = NULL then Some (first', last')
         else if vm_end (vma_at st p) > start
         then Some (first', if last' > vm_start (vma_at st p) then vm_start (vma_at st p) else last')
         else around_loop st p start first' last')"

definition free_pgtables :: "addr \<Rightarrow> addr \<Rightarrow> addr \<Rightarrow> addr \<Rightarrow> vmst \<Rightarrow> vmst option" where
  "free_pgtables mm prev start end' st =
     (case pgtable_bounds mm prev start end' st of
        None \<Rightarrow> None
      | Some (f, l) \<Rightarrow>
          let start_index = drop_bit 20 f;
              end_index = drop_bit 20 l
          in if end_index > start_index
             then map_option (\<lambda>g. set_vpg g st)
                    (clear_page_tables (mm_pgd (mm_at st mm)) start_index (end_index - start_index) (vpg st))
             else Some st)"

section \<open>Unmapping\<close>

definition zap_range :: "addr \<Rightarrow> addr \<Rightarrow> u32 \<Rightarrow> vmst \<Rightarrow> vmst option" where
  "zap_range mm address sz st =
     (case zap_page_range (mm_pgd (mm_at st mm)) address sz (mm_rss (mm_at st mm)) (vpg st) of
        None \<Rightarrow> None
      | Some (rss, g) \<Rightarrow> Some (upd_mm mm (\<lambda>m. m\<lparr>mm_rss := rss\<rparr>) (set_vpg g st)))"

definition vma_free :: "addr \<Rightarrow> vmst \<Rightarrow> vmst option" where
  "vma_free v st = map_option (\<lambda>s. st\<lparr>sl := s\<rparr>) (kmem_cache_free (vm_area_cachep st) v (sl st))"

definition unmap_account :: "addr \<Rightarrow> u32 \<Rightarrow> vmst \<Rightarrow> vmst" where
  "unmap_account area len st =
     (let a = vma_at st area;
          pages = drop_bit 12 len;
          st1 = upd_mm (vm_mm a) (\<lambda>m. m\<lparr>mm_total_vm := mm_total_vm m - pages\<rparr>) st
      in if vm_flags a AND VM_LOCKED \<noteq> 0
         then upd_mm (vm_mm a) (\<lambda>m. m\<lparr>mm_locked_vm := mm_locked_vm m - pages\<rparr>) st1 else st1)"

definition unmap_fixup :: "addr \<Rightarrow> addr \<Rightarrow> addr \<Rightarrow> u32 \<Rightarrow> addr \<Rightarrow> vmst \<Rightarrow> (addr \<times> vmst) option" where
  "unmap_fixup mm area addr len extra st =
     (let a = vma_at st area;
          end' = addr + len;
          st2 = unmap_account area len st
      in if addr = vm_start a \<and> end' = vm_end a
         then map_option (Pair extra) (vma_free area st2)
         else if end' = vm_end a
         then map_option (Pair extra) (insert_vm_struct mm area (upd_vma area (\<lambda>a. a\<lparr>vm_end := addr\<rparr>) st2))
         else if addr = vm_start a
         then map_option (Pair extra) (insert_vm_struct mm area
                (upd_vma area (\<lambda>a. a\<lparr>vm_pgoff := vm_pgoff a + drop_bit 12 (end' - vm_start a), vm_start := end'\<rparr>) st2))
         else
           let st3 = upd_vma extra (\<lambda>m. m\<lparr>vm_mm := vm_mm a, vm_start := end', vm_end := vm_end a,
                         vm_page_prot := vm_page_prot a, vm_flags := vm_flags a, vm_raend := 0,
                         vm_pgoff := vm_pgoff a + drop_bit 12 (end' - vm_start a),
                         vm_private_data := vm_private_data a\<rparr>) st2;
               st4 = upd_vma area (\<lambda>a. a\<lparr>vm_end := addr\<rparr>) st3
           in (case insert_vm_struct mm extra st4 of
                 None \<Rightarrow> None
               | Some st5 \<Rightarrow> map_option (Pair NULL) (insert_vm_struct mm area st5)))"

text \<open>The first loop of \<open>do_munmap\<close> moves the areas that begin below \<open>limit\<close> to the list \<open>free\<close>.\<close>

partial_function (option) unlink_loop :: "addr \<Rightarrow> addr \<Rightarrow> addr \<Rightarrow> addr \<Rightarrow> addr \<Rightarrow> vmst \<Rightarrow> (addr \<times> vmst) option" where
  "unlink_loop mm prev limit mpnt free st =
     (if mpnt \<noteq> NULL \<and> vm_start (vma_at st mpnt) < limit
      then let next' = vm_next (vma_at st mpnt);
               st1 = set_link mm prev next' st;
               st2 = upd_vma mpnt (\<lambda>a. a\<lparr>vm_next := free\<rparr>) st1
           in unlink_loop mm prev limit next' mpnt st2
      else Some (free, st))"

partial_function (option) release_loop :: "addr \<Rightarrow> addr \<Rightarrow> u32 \<Rightarrow> addr \<Rightarrow> addr \<Rightarrow> vmst \<Rightarrow> (addr \<times> vmst) option" where
  "release_loop mm addr len free extra st =
     (if free = NULL then Some (extra, st)
      else
        let mpnt = free;
            next' = vm_next (vma_at st free);
            b = (if addr < vm_start (vma_at st mpnt) then vm_start (vma_at st mpnt) else addr);
            e = (if addr + len > vm_end (vma_at st mpnt) then vm_end (vma_at st mpnt) else addr + len);
            st1 = upd_mm mm (\<lambda>m. m\<lparr>mm_map_count := mm_map_count m - 1\<rparr>) st
        in (case zap_range mm b (e - b) st1 of
              None \<Rightarrow> None
            | Some st2 \<Rightarrow>
                (case unmap_fixup mm mpnt b (e - b) extra st2 of
                   None \<Rightarrow> None
                 | Some (extra', st3) \<Rightarrow> release_loop mm addr len next' extra' st3)))"

definition munmap_areas :: "addr \<Rightarrow> addr \<Rightarrow> u32 \<Rightarrow> addr \<Rightarrow> addr \<Rightarrow> addr \<Rightarrow> vmst \<Rightarrow> (int \<times> vmst) option" where
  "munmap_areas mm addr len mpnt prev extra st =
     (case unlink_loop mm prev (addr + len) mpnt NULL st of
        None \<Rightarrow> None
      | Some (free, st1) \<Rightarrow>
          (case release_loop mm addr len free extra (upd_mm mm (\<lambda>m. m\<lparr>mm_cache := NULL\<rparr>) st1) of
             None \<Rightarrow> None
           | Some (extra', st2) \<Rightarrow>
               (case (if extra' \<noteq> NULL then vma_free extra' st2 else Some st2) of
                  None \<Rightarrow> None
                | Some st3 \<Rightarrow> map_option (Pair 0) (free_pgtables mm prev addr (addr + len) st3))))"

definition do_munmap :: "nat \<Rightarrow> addr \<Rightarrow> addr \<Rightarrow> u32 \<Rightarrow> vmst \<Rightarrow> (int \<times> vmst) option" where
  "do_munmap fuel mm addr len0 st =
     (let len = PAGE_ALIGN len0
      in if len = 0 then Some (- EINVAL, st)
         else
           (case find_vma_prev mm addr st of
              None \<Rightarrow> None
            | Some (mpnt, prev) \<Rightarrow>
                let m = vma_at st mpnt
                in if mpnt = NULL \<or> vm_start m \<ge> addr + len then Some (0, st)
                   else if vm_start m < addr \<and> vm_end m > addr + len \<and> mm_map_count (mm_at st mm) \<ge> MAX_MAP_COUNT
                   then Some (- ENOMEM, st)
                   else
                     (case kmem_cache_alloc fuel (vm_area_cachep st) SLAB_KERNEL (sl st) of
                        None \<Rightarrow> None
                      | Some (extra, sl1) \<Rightarrow>
                          if extra = NULL then Some (- ENOMEM, st\<lparr>sl := sl1\<rparr>)
                          else munmap_areas mm addr len mpnt prev extra (st\<lparr>sl := sl1\<rparr>))))"

definition sys_munmap :: "nat \<Rightarrow> addr \<Rightarrow> u32 \<Rightarrow> vmst \<Rightarrow> (int \<times> vmst) option" where
  "sys_munmap fuel addr len st = do_munmap fuel (cur_mm st) addr len st"

section \<open>Growing the heap\<close>

definition protection_map :: "u32 list" where
  "protection_map = (let none = 3; copy = 0xf; readonly = 0xf; shared = 0x55f
     in [none, readonly, copy, copy, readonly, readonly, copy, copy,
         none, readonly, shared, shared, readonly, readonly, shared, shared])"

definition make_pages_present :: "addr \<Rightarrow> addr \<Rightarrow> vmst \<Rightarrow> (int \<times> vmst) option" where
  "make_pages_present addr end' st =
     (case find_vma (cur_mm st) addr st of
        None \<Rightarrow> None
      | Some (vma, st1) \<Rightarrow>
          let v = vma_at st1 vma;
              mm = cur_mm st1;
              write = (if vm_flags v AND VM_WRITE \<noteq> 0 then 1 else 0)
          in (case present_loop None (vm_flags v) (vm_page_prot v) (mm_pgd (mm_at st1 mm)) write (empty_zero_page st1)
                     addr end' (mm_rss (mm_at st1 mm)) (vpg st1) of
                None \<Rightarrow> None
              | Some (r, rss, g) \<Rightarrow> Some (r, upd_mm mm (\<lambda>m. m\<lparr>mm_rss := rss\<rparr>) (set_vpg g st1))))"

definition brk_accounting :: "addr \<Rightarrow> u32 \<Rightarrow> u32 \<Rightarrow> vmst \<Rightarrow> (addr \<times> vmst) option" where
  "brk_accounting addr len flags st =
     (let mm = cur_mm st;
          st1 = upd_mm mm (\<lambda>m. m\<lparr>mm_total_vm := mm_total_vm m + drop_bit 12 len\<rparr>) st
      in if flags AND VM_LOCKED \<noteq> 0
         then map_option (\<lambda>(r, st2). (addr, st2)) (make_pages_present addr (addr + len)
                (upd_mm mm (\<lambda>m. m\<lparr>mm_locked_vm := mm_locked_vm m + drop_bit 12 len\<rparr>) st1))
         else Some (addr, st1))"

definition brk_new_area :: "nat \<Rightarrow> addr \<Rightarrow> u32 \<Rightarrow> u32 \<Rightarrow> vmst \<Rightarrow> (addr \<times> vmst) option" where
  "brk_new_area fuel addr len flags st =
     (case kmem_cache_alloc fuel (vm_area_cachep st) SLAB_KERNEL (sl st) of
        None \<Rightarrow> None
      | Some (vma, sl1) \<Rightarrow>
          if vma = NULL then Some (of_int (- ENOMEM), st\<lparr>sl := sl1\<rparr>)
          else
            (case insert_vm_struct (cur_mm st) vma
                    (upd_vma vma (\<lambda>v. v\<lparr>vm_mm := cur_mm st, vm_start := addr, vm_end := addr + len, vm_flags := flags,
                        vm_page_prot := protection_map ! unat (flags AND 0xf), vm_pgoff := 0, vm_private_data := NULL\<rparr>)
                      (st\<lparr>sl := sl1\<rparr>)) of
               None \<Rightarrow> None
             | Some st1 \<Rightarrow> brk_accounting addr len flags st1))"

definition do_brk :: "nat \<Rightarrow> addr \<Rightarrow> u32 \<Rightarrow> vmst \<Rightarrow> (addr \<times> vmst) option" where
  "do_brk fuel addr len0 st =
     (let mm = cur_mm st;
          len = PAGE_ALIGN len0
      in if len = 0 then Some (addr, st)
         else
           (case do_munmap fuel mm addr len st of
              None \<Rightarrow> None
            | Some (r, st1) \<Rightarrow>
                if r \<noteq> 0 then Some (of_int r, st1)
                else if mm_map_count (mm_at st1 mm) > MAX_MAP_COUNT then Some (of_int (- ENOMEM), st1)
                else
                  let flags = VM_DATA_DEFAULT_FLAGS OR mm_def_flags (mm_at st1 mm) OR 0x70 OR VM_LOCKED
                  in if addr = 0 then brk_new_area fuel addr len flags st1
                     else
                       (case find_vma mm (addr - 1) st1 of
                          None \<Rightarrow> None
                        | Some (vma, st2) \<Rightarrow>
                            if vma \<noteq> NULL \<and> vm_end (vma_at st2 vma) = addr \<and> vm_flags (vma_at st2 vma) = flags
                            then brk_accounting addr len flags (upd_vma vma (\<lambda>v. v\<lparr>vm_end := addr + len\<rparr>) st2)
                            else brk_new_area fuel addr len flags st2)))"

definition sys_brk :: "nat \<Rightarrow> addr \<Rightarrow> vmst \<Rightarrow> (addr \<times> vmst) option" where
  "sys_brk fuel brk st =
     (let mm = cur_mm st;
          m = mm_at st mm;
          newbrk = PAGE_ALIGN brk;
          oldbrk = PAGE_ALIGN (mm_brk m);
          set_brk = (\<lambda>st. (brk, upd_mm mm (\<lambda>m. m\<lparr>mm_brk := brk\<rparr>) st));
          out = (\<lambda>st. (mm_brk (mm_at st mm), st))
      in if brk < mm_end_code m then Some (out st)
         else if oldbrk = newbrk then Some (set_brk st)
         else if brk \<le> mm_brk m
         then map_option (\<lambda>(r, st1). if r = 0 then set_brk st1 else out st1) (do_munmap fuel mm newbrk (oldbrk - newbrk) st)
         else
           (case find_vma_intersection mm oldbrk (newbrk + 4096) st of
              None \<Rightarrow> None
            | Some (v, st1) \<Rightarrow>
                if v \<noteq> NULL then Some (out st1)
                else map_option (\<lambda>(r, st2). if r = oldbrk then set_brk st2 else out st2)
                       (do_brk fuel oldbrk (newbrk - oldbrk) st1)))"

section \<open>Leaving an address space\<close>

partial_function (option) exit_loop :: "addr \<Rightarrow> addr \<Rightarrow> vmst \<Rightarrow> vmst option" where
  "exit_loop mm mpnt st =
     (if mpnt = NULL then Some st
      else
        let next' = vm_next (vma_at st mpnt);
            start = vm_start (vma_at st mpnt);
            st1 = upd_mm mm (\<lambda>m. m\<lparr>mm_map_count := mm_map_count m - 1\<rparr>) st
        in (case zap_range mm start (vm_end (vma_at st mpnt) - start) st1 of
              None \<Rightarrow> None
            | Some st2 \<Rightarrow> (case vma_free mpnt st2 of None \<Rightarrow> None | Some st3 \<Rightarrow> exit_loop mm next' st3)))"

definition FIRST_USER_PGD_NR :: u32 where "FIRST_USER_PGD_NR = 1"

text \<open>\<open>TASK_SIZE\<close> is \<open>PAGE_OFFSET\<close>, which is 0.\<close>

definition USER_PTRS_PER_PGD :: u32 where "USER_PTRS_PER_PGD = 0 - FIRST_USER_PGD_NR"

definition exit_mmap :: "addr \<Rightarrow> vmst \<Rightarrow> vmst option" where
  "exit_mmap mm st =
     (let mpnt = mm_mmap (mm_at st mm);
          st1 = upd_mm mm (\<lambda>m. m\<lparr>mm_mmap := NULL, mm_avl := NULL, mm_cache := NULL, mm_rss := 0, mm_total_vm := 0,
                  mm_locked_vm := 0\<rparr>) st
      in case exit_loop mm mpnt st1 of
           None \<Rightarrow> None
         | Some st2 \<Rightarrow> map_option (\<lambda>g. set_vpg g st2)
             (clear_page_tables (mm_pgd (mm_at st2 mm)) FIRST_USER_PGD_NR USER_PTRS_PER_PGD (vpg st2)))"

end
