(* ===== verification/Vma_Inv.thy ===== *)
theory Vma_Inv
  imports Vma
begin

text \<open>
  Correctness of the address-space code: every page operation it calls returns, the areas stay a sorted list of
  disjoint ranges, unmapping removes exactly the requested addresses and growing the heap adds exactly them.
\<close>

section \<open>The page operations return\<close>

lemma free_loop_total: "k \<le> 9 \<Longrightarrow> \<exists>r. free_loop z area i p (- (2 ^ k)) = Some r"
proof (induction "9 - k" arbitrary: k z area i p)
  case 0
  then have "k = 9" by simp
  then show ?case by (subst free_loop.simps) (simp add: MAX_ORDER_def)
next
  case (Suc n)
  have p: "push_bit 1 (- (2 ^ k)) = (- (2 ^ Suc k) :: u32)" by (simp add: push_bit_eq_mult)
  have IH: "\<exists>r. free_loop z' a' i' p' (- (2 ^ Suc k)) = Some r" for z' a' i' p'
    using Suc.hyps(1) [of "Suc k"] Suc.hyps(2) by simp
  show ?case
    by (subst free_loop.simps, cases "test_and_change_bit (unat i) (z_map z area)")
      (use IH in \<open>simp only: Let_def p prod.case option.inject split: if_split\<close>, blast)
qed

lemma free_pages_count_total: "\<exists>s'. free_pages_count p 0 s = Some s'"
proof -
  have "\<exists>s'. free_pages_ok p 0 t = Some s'" for t
    using free_loop_total [of 0, simplified] by (fastforce simp: free_pages_ok_def Let_def split: option.splits prod.splits)
  then show ?thesis by (auto simp: free_pages_count_def Let_def split: prod.splits)
qed

lemma free_pages_total: "\<exists>s'. free_pages a 0 s = Some s'"
  using free_pages_count_total by (auto simp: free_pages_def Let_def)

lemma free_pte_total: "\<exists>k s'. free_pte e s = Some (k, s')"
  using free_pages_count_total [of "unat (pte_page e)" s] by (auto simp: free_pte_def Let_def)

lemma zap_pte_loop_total: "\<exists>k s'. zap_pte_loop n pte freed s = Some (k, s')"
proof (induction n arbitrary: pte freed s)
  case (Suc n)
  obtain e s1 where "ptep_get_and_clear pte s = (e, s1)" by fastforce
  moreover obtain k s2 where "free_pte e s1 = Some (k, s2)" using free_pte_total by blast
  ultimately show ?case using Suc by simp
qed simp

lemma zap_pte_range_total: "\<exists>k s'. zap_pte_range pmd a n s = Some (k, s')"
  using zap_pte_loop_total by (simp add: zap_pte_range_def Let_def)

lemma PGDIR_mask: "PGDIR_MASK = NOT (mask 20)"
  by (simp add: PGDIR_MASK_def PGDIR_SIZE_def mask_eq_exp_minus_1)

lemma unat_push_drop: "unat (push_bit n (drop_bit n (a :: u32))) = unat a div 2 ^ n * 2 ^ n"
proof -
  have "unat a div 2 ^ n < 2 ^ 32"
    using le_less_trans [OF div_le_dividend [of "unat a" "2 ^ n"], of "2 ^ 32"] unat_le_max_word32 [of a] by simp
  then have "drop_bit n a = of_nat (unat a div 2 ^ n)"
    by (simp add: word_unat_eq_iff unat_drop_bit_eq unat_of_nat_small) (simp add: drop_bit_eq_div)
  then have "push_bit n (drop_bit n a) = of_nat (unat a div 2 ^ n * 2 ^ n)" by (simp add: push_bit_eq_mult)
  moreover have "unat a div 2 ^ n * 2 ^ n < 2 ^ 32"
    using le_less_trans [OF div_times_less_eq_dividend [of "unat a" "2 ^ n"], of "2 ^ 32"] unat_le_max_word32 [of a] by simp
  ultimately show ?thesis by (simp only: unat_of_nat_small)
qed

lemma and_not_mask_push: "(a :: u32) AND NOT (mask n) = push_bit n (drop_bit n a)"
  by (intro bit_word_eqI) (auto simp: bit_simps)

lemma dir_masked:
  fixes a :: addr
  shows "unat (a AND NOT PGDIR_MASK) = unat a mod 2 ^ 20" "unat (a AND PGDIR_MASK) = unat a div 2 ^ 20 * 2 ^ 20"
  by (simp_all only: PGDIR_mask and_not_mask_push unat_push_drop bit.double_compl take_bit_eq_mask [symmetric]
      unsigned_take_bit_eq) (simp add: take_bit_eq_mod)

lemma zap_pmd_range_total: "\<exists>k s'. zap_pmd_range dir a n s = Some (k, s')"
proof -
  let ?a = "a AND NOT PGDIR_MASK" and ?e = "if (a AND NOT PGDIR_MASK) + n > PGDIR_SIZE then PGDIR_SIZE else (a AND NOT PGDIR_MASK) + n"
  have small: "unat ?a < 2 ^ 20" by (simp add: dir_masked)
  have "unat (?a + PGDIR_SIZE) = unat ?a + 2 ^ 20"
    using small by (simp add: unat_word_ariths PGDIR_SIZE_def)
  then have "unat ((?a + PGDIR_SIZE) AND PGDIR_MASK) = 2 ^ 20" using small by (simp add: dir_masked(2))
  then have "(?a + PGDIR_SIZE) AND PGDIR_MASK = PGDIR_SIZE" by (simp add: word_unat_eq_iff PGDIR_SIZE_def)
  then have "\<not> (?a + PGDIR_SIZE) AND PGDIR_MASK < ?e" by (simp add: not_less)
  then have "zap_pmd_loop dir ?a ?e 0 s = zap_pte_range dir ?a (?e - ?a) s"
    using zap_pte_range_total [of dir ?a "?e - ?a" s] by (subst zap_pmd_loop.simps) (auto simp only: Let_def if_False add_0 option.case prod.case)
  then show ?thesis using zap_pte_range_total by (simp only: zap_pmd_range_def Let_def)
qed

lemma zap_page_loop_total: "\<exists>k s'. zap_page_loop dir a e freed s = Some (k, s')"
proof (induction "2 ^ 32 - unat a" arbitrary: dir a freed s rule: less_induct)
  case less
  let ?a = "(a + PGDIR_SIZE) AND PGDIR_MASK"
  obtain k s1 where k: "zap_pmd_range dir a (e - a) s = Some (k, s1)" using zap_pmd_range_total by blast
  have "\<exists>j s'. zap_page_loop (dir + 4) ?a e (freed + k) s1 = Some (j, s')" if nz: "?a \<noteq> 0"
  proof -
    have "unat a + 2 ^ 20 < 2 ^ 32"
    proof (rule ccontr)
      assume big: "\<not> unat a + 2 ^ 20 < 2 ^ 32"
      then have "unat (a + PGDIR_SIZE) = unat a + 2 ^ 20 - 2 ^ 32"
        using unat_le_max_word32 [of a] by (simp add: unat_word_ariths PGDIR_SIZE_def le_mod_geq)
      then have "unat (a + PGDIR_SIZE) < 2 ^ 20" using unat_le_max_word32 [of a] by simp
      then have "unat ?a = 0" by (simp add: dir_masked(2))
      then show False using nz by (simp add: unat_eq_zero)
    qed
    then have "unat (a + PGDIR_SIZE) = unat a + 2 ^ 20" by (simp add: unat_word_ariths PGDIR_SIZE_def)
    then have "unat ?a = (unat a + 2 ^ 20) div 2 ^ 20 * 2 ^ 20" by (simp only: dir_masked(2))
    then have "unat ?a > unat a" using div_mult_mod_eq [of "unat a" "2 ^ 20"] mod_less_divisor [of "2 ^ 20" "unat a"] by simp
    then show ?thesis using less [of ?a] unat_le_max_word32 [of ?a] by simp
  qed
  then show ?case by (subst zap_page_loop.simps) (auto simp: k Let_def)
qed

lemma zap_page_range_total: "\<exists>r s'. zap_page_range pgd a n rss s = Some (r, s')"
  using zap_page_loop_total [of "pgd_offset pgd a" a "a + n" 0 s] by (auto simp: zap_page_range_def)

lemma clear_tables_loop_total:
  assumes "nr \<noteq> 0"
  shows "\<exists>s'. clear_tables_loop d nr s = Some s'"
  using assms
proof (induction "unat nr" arbitrary: d nr s rule: less_induct)
  case less
  have "\<exists>s1. free_one_pgd d s = Some s1"
    using free_pages_total [of "pte_offset d NULL s" "pmd_clear d s"]
    by (simp add: free_one_pgd_def free_one_pmd_def pte_free_def)
  then obtain s1 where s1: "free_one_pgd d s = Some s1" by blast
  have "unat (nr - 1) < unat nr" using less.prems unat_minus_one [of nr] unat_eq_zero [of nr] by simp
  then have "nr - 1 \<noteq> 0 \<Longrightarrow> \<exists>s'. clear_tables_loop (d + 4) (nr - 1) s1 = Some s'" using less.hyps by blast
  then show ?case by (subst clear_tables_loop.simps) (auto simp: s1)
qed

section \<open>Lists of areas\<close>

fun aseg :: "(addr \<Rightarrow> vma) \<Rightarrow> addr \<Rightarrow> addr list \<Rightarrow> addr \<Rightarrow> bool" where
  "aseg f p [] q \<longleftrightarrow> p = q"
| "aseg f p (x # xs) q \<longleftrightarrow> p = x \<and> x \<noteq> NULL \<and> aseg f (vm_next (f x)) xs q"

definition core :: "vma \<Rightarrow> vma" where
  "core v = v\<lparr>vm_next := NULL\<rparr>"

definition same_core :: "(addr \<Rightarrow> vma) \<Rightarrow> (addr \<Rightarrow> vma) \<Rightarrow> bool" where
  "same_core f g \<longleftrightarrow> (\<forall>x. core (f x) = core (g x))"

lemma same_coreD:
  assumes "same_core f g"
  shows "vm_start (f x) = vm_start (g x)" "vm_end (f x) = vm_end (g x)" "vm_flags (f x) = vm_flags (g x)"
    "vm_page_prot (f x) = vm_page_prot (g x)" "vm_pgoff (f x) = vm_pgoff (g x)" "vm_mm (f x) = vm_mm (g x)"
proof -
  have "core (f x) = core (g x)" using assms by (simp add: same_core_def)
  then show "vm_start (f x) = vm_start (g x)" "vm_end (f x) = vm_end (g x)" "vm_flags (f x) = vm_flags (g x)"
    "vm_page_prot (f x) = vm_page_prot (g x)" "vm_pgoff (f x) = vm_pgoff (g x)" "vm_mm (f x) = vm_mm (g x)"
    by (cases "f x"; cases "g x"; simp add: core_def)+
qed

lemma same_core_refl [simp]: "same_core f f"
  by (simp add: same_core_def)

lemma same_core_trans [trans]: "same_core f g \<Longrightarrow> same_core g h \<Longrightarrow> same_core f h"
  by (simp add: same_core_def)

lemma same_core_next [simp]: "same_core (f(x := (f x)\<lparr>vm_next := v\<rparr>)) f"
  by (simp add: same_core_def core_def)

lemma aseg_append: "aseg f p (xs @ ys) q \<longleftrightarrow> (\<exists>r. aseg f p xs r \<and> aseg f r ys q)"
  by (induction xs arbitrary: p) auto

lemma aseg_upd: "x \<notin> set xs \<Longrightarrow> aseg (f(x := v)) p xs q = aseg f p xs q"
  by (induction xs arbitrary: p) auto

lemma aseg_cong: "(\<And>x. x \<in> set xs \<Longrightarrow> f x = g x) \<Longrightarrow> aseg f p xs q = aseg g p xs q"
  by (induction xs arbitrary: p) auto

lemma aseg_nonnull: "aseg f p xs q \<Longrightarrow> NULL \<notin> set xs"
  by (induction xs arbitrary: p) auto

text \<open>\<open>link_of\<close>: what the link of a position holds, with NULL for the list head.\<close>

definition link_of :: "addr \<Rightarrow> addr \<Rightarrow> vmst \<Rightarrow> addr" where
  "link_of mm prev st = (if prev = NULL then mm_mmap (mm_at st mm) else vm_next (vma_at st prev))"

definition last_of :: "addr list \<Rightarrow> addr" where
  "last_of xs = (if xs = [] then NULL else last xs)"

lemma aseg_split:
  assumes "aseg (vma_at st) (mm_mmap (mm_at st mm)) (xs @ ys) NULL"
  shows "aseg (vma_at st) (link_of mm (last_of xs) st) ys NULL"
proof (cases xs rule: rev_cases)
  case Nil
  then show ?thesis using assms by (simp add: link_of_def last_of_def)
next
  case (snoc zs z)
  then show ?thesis using assms by (auto simp: aseg_append link_of_def last_of_def)
qed

text \<open>Changing one link replaces the rest of the list.\<close>

lemma set_link_aseg:
  assumes "aseg (vma_at st) (mm_mmap (mm_at st mm)) (xs @ ys) NULL" "distinct (xs @ ys)"
    and "aseg (vma_at st) v zs NULL" "set xs \<inter> set zs = {}"
  shows "aseg (vma_at (set_link mm (last_of xs) v st)) (mm_mmap (mm_at (set_link mm (last_of xs) v st) mm)) (xs @ zs) NULL"
proof (cases xs rule: rev_cases)
  case Nil
  then show ?thesis using assms(3) by (simp add: set_link_def last_of_def)
next
  case (snoc ws w)
  have nn: "w \<noteq> NULL" using aseg_nonnull [OF assms(1)] snoc by auto
  have "aseg (vma_at st) (mm_mmap (mm_at st mm)) ws w" "w \<notin> set ws"
    using assms(1,2) snoc by (auto simp: aseg_append)
  moreover have "w \<notin> set zs" using assms(4) snoc by auto
  ultimately show ?thesis
    using assms(3) snoc nn by (auto simp: aseg_append set_link_def last_of_def aseg_upd)
qed

lemma set_link_frame:
  "sl (set_link mm p v st) = sl st" "same_core (vma_at (set_link mm p v st)) (vma_at st)"
  "vm_area_cachep (set_link mm p v st) = vm_area_cachep st" "cur_mm (set_link mm p v st) = cur_mm st"
  "x \<noteq> p \<Longrightarrow> vma_at (set_link mm p v st) x = vma_at st x"
  "empty_zero_page (set_link mm p v st) = empty_zero_page st"
  "\<exists>h. mm_at (set_link mm p v st) = (mm_at st)(mm := (mm_at st mm)\<lparr>mm_mmap := h\<rparr>)"
  by (auto simp: set_link_def intro: exI [of _ "mm_mmap (mm_at st mm)"])

section \<open>Inserting an area\<close>

lemma insert_scan_seg:
  assumes "aseg (vma_at st) p xs NULL"
    and P_def: "P = (\<lambda>x. vm_start (vma_at st x) \<le> start)"
  shows "insert_scan st start prev p =
     Some (if takeWhile P xs = [] then prev else last (takeWhile P xs), if dropWhile P xs = [] then NULL else hd (dropWhile P xs))"
  using assms(1)
proof (induction xs arbitrary: p prev)
  case Nil
  then show ?case by (subst insert_scan.simps) simp
next
  case (Cons x xs)
  show ?case
  proof (cases "P x")
    case True
    then show ?thesis using Cons.prems Cons.IH [of "vm_next (vma_at st x)" x] P_def
      by (subst insert_scan.simps) auto
  next
    case False
    then show ?thesis using Cons.prems P_def by (subst insert_scan.simps) auto
  qed
qed

lemma aseg_hd: "aseg f p xs NULL \<Longrightarrow> p = (if xs = [] then NULL else hd xs)"
  by (cases xs) auto

definition ins :: "(addr \<Rightarrow> vma) \<Rightarrow> addr \<Rightarrow> addr list \<Rightarrow> addr list" where
  "ins f v xs = takeWhile (\<lambda>x. vm_start (f x) \<le> vm_start (f v)) xs @ v # dropWhile (\<lambda>x. vm_start (f x) \<le> vm_start (f v)) xs"

lemma set_ins [simp]: "set (ins f v xs) = insert v (set xs)"
proof -
  let ?P = "\<lambda>x. vm_start (f x) \<le> vm_start (f v)"
  have "set (takeWhile ?P xs @ dropWhile ?P xs) = set xs" by (simp only: takeWhile_dropWhile_id)
  then show ?thesis by (auto simp: ins_def simp del: takeWhile_dropWhile_id)
qed

lemma length_ins [simp]: "length (ins f v xs) = Suc (length xs)"
proof -
  let ?P = "\<lambda>x. vm_start (f x) \<le> vm_start (f v)"
  have "length (takeWhile ?P xs @ dropWhile ?P xs) = length xs" by (simp only: takeWhile_dropWhile_id)
  then show ?thesis by (simp add: ins_def del: takeWhile_dropWhile_id)
qed

lemma distinct_ins: "distinct xs \<Longrightarrow> v \<notin> set xs \<Longrightarrow> distinct (ins f v xs)"
proof -
  let ?P = "\<lambda>x. vm_start (f x) \<le> vm_start (f v)"
  assume d: "distinct xs" "v \<notin> set xs"
  have "distinct (takeWhile ?P xs @ dropWhile ?P xs)" using d by (simp only: takeWhile_dropWhile_id)
  then show ?thesis using d(2) by (auto simp: ins_def simp del: takeWhile_dropWhile_id dest: set_takeWhileD set_dropWhileD)
qed

text \<open>\<open>area_list\<close>: the address space \<open>mm\<close> has the areas \<open>xs\<close>, in this order.\<close>

definition area_list :: "addr \<Rightarrow> vmst \<Rightarrow> addr list \<Rightarrow> bool" where
  "area_list mm st xs \<longleftrightarrow> aseg (vma_at st) (mm_mmap (mm_at st mm)) xs NULL \<and> distinct xs \<and> mm_avl (mm_at st mm) = NULL"

text \<open>\<open>mm_rest\<close>: two states differ, for \<open>mm\<close>, only in the list head and the counters.\<close>

definition mm_rest :: "addr \<Rightarrow> vmst \<Rightarrow> vmst \<Rightarrow> bool" where
  "mm_rest mm st st' \<longleftrightarrow> vm_area_cachep st' = vm_area_cachep st \<and> cur_mm st' = cur_mm st \<and>
     empty_zero_page st' = empty_zero_page st \<and> mm_cache (mm_at st' mm) = mm_cache (mm_at st mm) \<and> mm_pgd (mm_at st' mm) = mm_pgd (mm_at st mm) \<and>
     mm_avl (mm_at st' mm) = mm_avl (mm_at st mm) \<and> mm_def_flags (mm_at st' mm) = mm_def_flags (mm_at st mm) \<and>
     mm_brk (mm_at st' mm) = mm_brk (mm_at st mm) \<and> mm_end_code (mm_at st' mm) = mm_end_code (mm_at st mm)"

lemma mm_rest_refl [simp]: "mm_rest mm st st"
  by (simp add: mm_rest_def)

lemma mm_rest_trans [trans]: "mm_rest mm st st' \<Longrightarrow> mm_rest mm st' st'' \<Longrightarrow> mm_rest mm st st''"
  by (simp add: mm_rest_def)

lemma insert_vm_struct_effect:
  assumes l: "area_list mm st xs" and v: "v \<notin> set xs" "v \<noteq> NULL"
  shows "\<exists>st'. insert_vm_struct mm v st = Some st' \<and> area_list mm st' (ins (vma_at st) v xs) \<and>
     same_core (vma_at st') (vma_at st) \<and> (\<forall>x. x \<notin> insert v (set xs) \<longrightarrow> vma_at st' x = vma_at st x) \<and>
     sl st' = sl st \<and> mm_rest mm st st' \<and> mm_map_count (mm_at st' mm) = mm_map_count (mm_at st mm) + 1 \<and>
     (\<forall>y. y \<noteq> mm \<longrightarrow> mm_at st' y = mm_at st y)"
proof -
  define P where "P = (\<lambda>x. vm_start (vma_at st x) \<le> vm_start (vma_at st v))"
  define ys zs where "ys = takeWhile P xs" and "zs = dropWhile P xs"
  define nx where "nx = (if zs = [] then NULL else hd zs)"
  have xs: "xs = ys @ zs" by (simp add: ys_def zs_def)
  have s: "aseg (vma_at st) (mm_mmap (mm_at st mm)) (ys @ zs) NULL" "distinct (ys @ zs)" "mm_avl (mm_at st mm) = NULL"
    using l unfolding area_list_def xs by auto
  have scan: "insert_scan st (vm_start (vma_at st v)) NULL (mm_mmap (mm_at st mm)) = Some (last_of ys, nx)"
    using insert_scan_seg [OF s(1) [folded xs] P_def] by (simp add: last_of_def nx_def ys_def zs_def)
  define st1 where "st1 = upd_vma v (\<lambda>a. a\<lparr>vm_next := nx\<rparr>) st"
  define st2 where "st2 = set_link mm (last_of ys) v st1"
  define st' where "st' = upd_mm mm (\<lambda>m. m\<lparr>mm_map_count := mm_map_count m + 1\<rparr>) st2"
  have run: "insert_vm_struct mm v st = Some st'"
    using s(3) by (simp add: insert_vm_struct_def scan st'_def st2_def st1_def Let_def)
  note f = set_link_frame [where mm = mm and p = "last_of ys" and v = v and st = st1]
  obtain h where h: "mm_at st2 = (mm_at st)(mm := (mm_at st mm)\<lparr>mm_mmap := h\<rparr>)"
    using f(7) by (auto simp: st2_def st1_def)
  have fr: "sl st2 = sl st" "vm_area_cachep st2 = vm_area_cachep st" "cur_mm st2 = cur_mm st"
    "empty_zero_page st2 = empty_zero_page st"
    using f(1,3,4,6) by (simp_all add: st2_def st1_def)
  have zs: "aseg (vma_at st) nx zs NULL"
    using aseg_split [OF s(1)] aseg_hd [OF aseg_split [OF s(1)]] by (simp add: nx_def)
  have s1: "aseg (vma_at st1) (mm_mmap (mm_at st1 mm)) (ys @ zs) NULL" "aseg (vma_at st1) v (v # zs) NULL"
    using s(1) zs v xs by (simp_all add: st1_def aseg_upd)
  have "aseg (vma_at st2) (mm_mmap (mm_at st2 mm)) (ys @ v # zs) NULL"
    unfolding st2_def by (rule set_link_aseg [OF s1(1) s(2) s1(2)]) (use s(2) v(1) xs in auto)
  moreover have "distinct (ys @ v # zs)" using s(2) v(1) xs by auto
  moreover have "ins (vma_at st) v xs = ys @ v # zs" by (simp add: ins_def ys_def zs_def P_def)
  moreover have "same_core (vma_at st') (vma_at st)"
    using same_core_trans [OF f(2)] by (simp add: st'_def st2_def st1_def)
  moreover have "vma_at st' x = vma_at st x" if "x \<notin> insert v (set xs)" for x
  proof -
    have "x \<noteq> last_of ys \<or> last_of ys = NULL" using that xs by (auto simp: last_of_def)
    then show ?thesis using that f(5) [of x] by (auto simp: st'_def st2_def st1_def set_link_def)
  qed
  ultimately show ?thesis
    using s(3) h fr unfolding run area_list_def mm_rest_def
    by (intro exI [of _ st'] conjI) (simp_all add: st'_def)
qed

section \<open>Sorted areas and the addresses they map\<close>

definition pal :: "addr \<Rightarrow> bool" where
  "pal a \<longleftrightarrow> unat a mod 4096 = 0"

definition apart :: "vma \<Rightarrow> vma \<Rightarrow> bool" where
  "apart v w \<longleftrightarrow> vm_end v \<le> vm_start w \<or> vm_end w \<le> vm_start v"

definition good :: "addr \<Rightarrow> vma \<Rightarrow> bool" where
  "good mm v \<longleftrightarrow> vm_start v < vm_end v \<and> pal (vm_start v) \<and> pal (vm_end v) \<and> vm_mm v = mm"

definition sorted_areas :: "addr \<Rightarrow> (addr \<Rightarrow> vma) \<Rightarrow> addr list \<Rightarrow> bool" where
  "sorted_areas mm f xs \<longleftrightarrow> sorted_wrt (\<lambda>x y. vm_end (f x) \<le> vm_start (f y)) xs \<and> (\<forall>x \<in> set xs. good mm (f x))"

definition covers :: "vma \<Rightarrow> addr \<Rightarrow> bool" where
  "covers v a \<longleftrightarrow> vm_start v \<le> a \<and> a < vm_end v"

definition attr :: "vma \<Rightarrow> addr \<Rightarrow> u32 \<times> u32 \<times> u32" where
  "attr v a = (vm_flags v, vm_page_prot v, vm_pgoff v + drop_bit 12 (a - vm_start v))"

definition maps :: "(addr \<Rightarrow> vma) \<Rightarrow> addr set \<Rightarrow> addr \<Rightarrow> u32 \<times> u32 \<times> u32 \<Rightarrow> bool" where
  "maps f X a t \<longleftrightarrow> (\<exists>x \<in> X. covers (f x) a \<and> t = attr (f x) a)"

lemma same_core_views:
  assumes "same_core f g"
  shows "good mm (f x) = good mm (g x)" "covers (f x) a = covers (g x) a" "attr (f x) a = attr (g x) a"
    "apart (f x) v = apart (g x) v" "apart v (f x) = apart v (g x)" "maps f X = maps g X"
    "sorted_areas mm f xs = sorted_areas mm g xs"
proof -
  note d = same_coreD [OF assms]
  show g: "good mm (f x) = good mm (g x)" for x by (simp add: good_def d)
  show c: "covers (f x) a = covers (g x) a" "attr (f x) a = attr (g x) a" for x a by (simp_all add: covers_def attr_def d)
  show "apart (f x) v = apart (g x) v" "apart v (f x) = apart v (g x)" by (simp_all add: apart_def d)
  show "maps f X = maps g X" by (simp add: maps_def fun_eq_iff c)
  show "sorted_areas mm f xs = sorted_areas mm g xs" by (simp add: sorted_areas_def g d)
qed

lemma ins_sorted:
  assumes s: "sorted_areas mm f xs" and g: "good mm (f v)" and a: "\<And>x. x \<in> set xs \<Longrightarrow> apart (f v) (f x)"
  shows "sorted_areas mm f (ins f v xs)"
proof -
  let ?P = "\<lambda>x. vm_start (f x) \<le> vm_start (f v)" and ?R = "\<lambda>x y. vm_end (f x) \<le> vm_start (f y)"
  have srt: "sorted_wrt ?R (takeWhile ?P xs @ dropWhile ?P xs)" using s by (simp add: sorted_areas_def)
  have left: "vm_end (f x) \<le> vm_start (f v)" if "x \<in> set (takeWhile ?P xs)" for x
  proof -
    have x: "x \<in> set xs" "vm_start (f x) \<le> vm_start (f v)" using that by (auto dest: set_takeWhileD)
    then show ?thesis using a [OF x(1)] g by (auto simp: apart_def good_def)
  qed
  have right: "vm_end (f v) \<le> vm_start (f y)" if yin: "y \<in> set (dropWhile ?P xs)" for y
  proof -
    obtain z zs where z: "dropWhile ?P xs = z # zs" using yin by (cases "dropWhile ?P xs") (simp_all del: dropWhile_eq_Nil_conv)
    then have "\<not> vm_start (f z) \<le> vm_start (f v)" using hd_dropWhile [of ?P xs] by auto
    moreover have zx: "z \<in> set xs" "y \<in> set xs" using that z by (auto dest: set_dropWhileD intro: set_dropWhileD [of _ ?P])
    moreover have "vm_start (f z) \<le> vm_start (f y)"
    proof (cases "y = z")
      case False
      then have "y \<in> set zs" using that z by simp
      then have "vm_end (f z) \<le> vm_start (f y)" using srt z by (simp add: sorted_wrt_append del: takeWhile_dropWhile_id)
      moreover have "vm_start (f z) < vm_end (f z)" using s zx(1) by (auto simp: sorted_areas_def good_def)
      ultimately show ?thesis by simp
    qed simp
    ultimately have "vm_start (f v) < vm_start (f y)" by simp
    moreover have "vm_start (f y) < vm_end (f y)" using s zx(2) by (auto simp: sorted_areas_def good_def)
    ultimately show ?thesis using a [OF zx(2)] by (auto simp: apart_def)
  qed
  have "sorted_wrt ?R (ins f v xs)"
    using srt left right by (auto simp: ins_def sorted_wrt_append simp del: takeWhile_dropWhile_id)
  then show ?thesis using s g by (auto simp: sorted_areas_def)
qed

text \<open>The contract of \<open>insert_vm_struct\<close>: the list stays sorted and maps the new area besides the old ones.\<close>

definition areas :: "addr \<Rightarrow> vmst \<Rightarrow> addr list \<Rightarrow> bool" where
  "areas mm st xs \<longleftrightarrow> area_list mm st xs \<and> sorted_areas mm (vma_at st) xs"

lemma insert_area:
  assumes l: "areas mm st xs" and v: "v \<notin> set xs" "v \<noteq> NULL" "good mm (vma_at st v)"
    and a: "\<And>x. x \<in> set xs \<Longrightarrow> apart (vma_at st v) (vma_at st x)"
  shows "\<exists>st' xs'. insert_vm_struct mm v st = Some st' \<and> areas mm st' xs' \<and> set xs' = insert v (set xs) \<and>
     length xs' = Suc (length xs) \<and> same_core (vma_at st') (vma_at st) \<and>
     (\<forall>x. x \<notin> insert v (set xs) \<longrightarrow> vma_at st' x = vma_at st x) \<and> sl st' = sl st \<and> mm_rest mm st st' \<and>
     mm_map_count (mm_at st' mm) = mm_map_count (mm_at st mm) + 1"
proof -
  have l': "area_list mm st xs" "sorted_areas mm (vma_at st) xs" using l by (simp_all add: areas_def)
  obtain st' where st': "insert_vm_struct mm v st = Some st'" "area_list mm st' (ins (vma_at st) v xs)"
     "same_core (vma_at st') (vma_at st)" "\<forall>x. x \<notin> insert v (set xs) \<longrightarrow> vma_at st' x = vma_at st x"
     "sl st' = sl st" "mm_rest mm st st'" "mm_map_count (mm_at st' mm) = mm_map_count (mm_at st mm) + 1"
    using insert_vm_struct_effect [OF l'(1) v(1,2)] by blast
  have "sorted_areas mm (vma_at st') (ins (vma_at st) v xs)"
    using ins_sorted [OF l'(2) v(3) a] same_core_views(7) [OF st'(3)] by simp
  then show ?thesis using st' by (intro exI [of _ st'] exI [of _ "ins (vma_at st) v xs"]) (simp add: areas_def)
qed

section \<open>Cutting an area\<close>

lemma drop12_add:
  fixes a b :: u32
  assumes "unat a mod 4096 = 0" "unat a + unat b < 2 ^ 32"
  shows "drop_bit 12 (a + b) = drop_bit 12 a + drop_bit 12 b"
proof -
  have d: "unat (drop_bit 12 x) = unat x div 4096" for x :: u32
    by (simp add: unat_drop_bit_eq) (simp add: drop_bit_eq_div)
  have plus: "unat (x + y) = unat x + unat y" if "unat x + unat y < 2 ^ 32" for x y :: u32
    using that unat_word_ariths(1) [of x y] by simp
  obtain k where k: "unat a = 4096 * k" using assms(1) by (metis mod_0_imp_dvd dvdE)
  have "unat (drop_bit 12 (a + b)) = k + unat b div 4096" by (simp only: d plus [OF assms(2)] k div_mult_self4)
  moreover have "unat (drop_bit 12 a) = k" by (simp add: d k)
  moreover have "unat (drop_bit 12 a + drop_bit 12 b) = unat (drop_bit 12 a) + unat (drop_bit 12 b)"
  proof (rule plus)
    have "unat (drop_bit 12 a) \<le> unat a" "unat (drop_bit 12 b) \<le> unat b" by (simp_all only: d div_le_dividend)
    then show "unat (drop_bit 12 a) + unat (drop_bit 12 b) < 2 ^ 32" using assms(2) by linarith
  qed
  ultimately show ?thesis by (simp only: word_unat_eq_iff d)
qed

lemma unat_le_diff: "(a :: addr) \<le> b \<Longrightarrow> unat (b - a) = unat b - unat a"
  by (simp add: unat_sub)

text \<open>Moving the start of an area keeps the offset of every address.\<close>

lemma attr_move:
  assumes "vm_start v \<le> e" "e \<le> a" "pal e" "pal (vm_start v)" "vm_flags w = vm_flags v" "vm_page_prot w = vm_page_prot v"
    and "vm_start w = e" "vm_pgoff w = vm_pgoff v + drop_bit 12 (e - vm_start v)"
  shows "attr w a = attr v a"
proof -
  let ?s = "vm_start v"
  have u: "unat (e - ?s) = unat e - unat ?s" "unat (a - e) = unat a - unat e" "unat ?s \<le> unat e" "unat e \<le> unat a"
    using assms(1,2) by (simp_all add: unat_le_diff word_le_nat_alt)
  have "unat (e - ?s) mod 4096 = 0" using assms(3,4) u by (auto simp: pal_def mod_eq_0_iff_dvd intro: dvd_diff_nat)
  moreover have "unat (e - ?s) + unat (a - e) < 2 ^ 32" using u unat_le_max_word32 [of a] by simp
  ultimately have "drop_bit 12 ((e - ?s) + (a - e)) = drop_bit 12 (e - ?s) + drop_bit 12 (a - e)" by (rule drop12_add)
  moreover have "(e - ?s) + (a - e) = a - ?s" by simp
  ultimately show ?thesis using assms(5-8) by (simp add: attr_def)
qed

lemma vma_free_total:
  assumes "\<forall>p. check_addr (page_slab (sl st) p)"
  shows "\<exists>s. vma_free v st = Some (st\<lparr>sl := s\<rparr>) \<and> page_slab s = page_slab (sl st)"
proof -
  have "\<exists>s. kmem_cache_free c v (sl st) = Some s \<and> page_slab s = page_slab (sl st)" for c
    using assms by (simp add: kmem_cache_free_def kmem_cache_free_one_def slab_list_del_def Let_def)
  then show ?thesis by (fastforce simp: vma_free_def)
qed

text \<open>What \<open>unmap_fixup\<close> leaves of the list: \<open>cut_result\<close> collects its contract for the range from \<open>b\<close> to \<open>e\<close>
  of \<open>area\<close>.\<close>

definition inside :: "vma \<Rightarrow> vma \<Rightarrow> bool" where
  "inside w v \<longleftrightarrow> vm_start v \<le> vm_start w \<and> vm_end w \<le> vm_end v"

definition cut_result :: "addr \<Rightarrow> addr \<Rightarrow> addr \<Rightarrow> addr \<Rightarrow> addr \<Rightarrow> vmst \<Rightarrow> addr list \<Rightarrow> addr \<Rightarrow> vmst \<Rightarrow> addr list \<Rightarrow> bool" where
  "cut_result mm area b e extra st xs extra' st' xs' \<longleftrightarrow>
     areas mm st' xs' \<and> set xs \<subseteq> set xs' \<and> set xs' \<subseteq> insert area (insert extra (set xs)) \<and>
     (\<forall>a t. maps (vma_at st') (set xs') a t \<longleftrightarrow>
        maps (vma_at st) (set xs) a t \<or> covers (vma_at st area) a \<and> t = attr (vma_at st area) a \<and> \<not> (b \<le> a \<and> a < e)) \<and>
     (\<forall>y \<in> set xs'. \<exists>x \<in> insert area (set xs). inside (vma_at st' y) (vma_at st x)) \<and>
     (extra' = extra \<and> extra \<notin> set xs' \<or> extra' = NULL \<and> vm_start (vma_at st area) < b \<and> e < vm_end (vma_at st area)) \<and>
     (\<forall>x. x \<notin> insert area (insert extra (set xs)) \<longrightarrow> vma_at st' x = vma_at st x) \<and>
     page_slab (sl st') = page_slab (sl st) \<and> mm_rest mm st st' \<and>
     mm_map_count (mm_at st' mm) + int (length xs) = mm_map_count (mm_at st mm) + int (length xs')"

lemma apart_inside: "apart v w \<Longrightarrow> inside u v \<Longrightarrow> apart u w"
  by (auto simp: apart_def inside_def)

lemma sorted_wrt_cong_on:
  "(\<And>x. x \<in> set xs \<Longrightarrow> f x = g x) \<Longrightarrow> sorted_wrt (\<lambda>x y. R (f x) (f y)) xs = sorted_wrt (\<lambda>x y. R (g x) (g y)) xs"
  by (induction xs) auto

lemma areas_cong:
  assumes "\<And>x. x \<in> set xs \<Longrightarrow> vma_at st' x = vma_at st x"
    and "mm_mmap (mm_at st' mm) = mm_mmap (mm_at st mm)" "mm_avl (mm_at st' mm) = mm_avl (mm_at st mm)"
  shows "areas mm st' xs = areas mm st xs"
proof -
  have "aseg (vma_at st') p xs NULL = aseg (vma_at st) p xs NULL" for p by (rule aseg_cong) (rule assms(1))
  moreover have "sorted_wrt (\<lambda>x y. vm_end (vma_at st' x) \<le> vm_start (vma_at st' y)) xs =
      sorted_wrt (\<lambda>x y. vm_end (vma_at st x) \<le> vm_start (vma_at st y)) xs"
    by (rule sorted_wrt_cong_on [where R = "\<lambda>v w. vm_end v \<le> vm_start w"]) (rule assms(1))
  moreover have "(\<forall>x \<in> set xs. good mm (vma_at st' x)) = (\<forall>x \<in> set xs. good mm (vma_at st x))"
    using assms(1) by (simp cong: ball_cong)
  ultimately show ?thesis by (simp only: areas_def area_list_def sorted_areas_def assms(2,3))
qed

lemma areas_upd: "v \<notin> set xs \<Longrightarrow> areas mm (st\<lparr>vma_at := (vma_at st)(v := w)\<rparr>) xs = areas mm st xs"
  by (rule areas_cong) auto

lemma maps_insert: "maps f (insert v X) a t \<longleftrightarrow> covers (f v) a \<and> t = attr (f v) a \<or> maps f X a t"
  by (auto simp: maps_def)

lemma maps_upd: "v \<notin> X \<Longrightarrow> maps (f(v := w)) X = maps f X"
proof -
  assume v: "v \<notin> X"
  have eq: "\<And>x. x \<in> X \<Longrightarrow> (f(v := w)) x = f x" using v by auto
  have "maps (f(v := w)) X a t = maps f X a t" for a t unfolding maps_def using eq by (simp cong: bex_cong)
  then show ?thesis by (intro ext) simp
qed

text \<open>Reinserting the area with a new value.\<close>

lemma reinsert_cut:
  assumes l: "areas mm st xs" and area: "area \<notin> set xs" "area \<noteq> NULL"
    and extra: "extra \<notin> insert area (set xs)"
    and ap: "\<And>x. x \<in> set xs \<Longrightarrow> apart (vma_at st area) (vma_at st x)"
    and w: "good mm w" "inside w (vma_at st area)"
    and piece: "\<And>a t. covers w a \<and> t = attr w a \<longleftrightarrow>
       covers (vma_at st area) a \<and> t = attr (vma_at st area) a \<and> \<not> (b \<le> a \<and> a < e)"
  shows "\<exists>st' xs'. insert_vm_struct mm area (st\<lparr>vma_at := (vma_at st)(area := w)\<rparr>) = Some st' \<and>
     cut_result mm area b e extra st xs extra st' xs'"
proof -
  let ?f = "(vma_at st)(area := w)"
  let ?st = "st\<lparr>vma_at := ?f\<rparr>"
  have "areas mm ?st xs" using l areas_upd [OF area(1)] by simp
  moreover have "apart (vma_at ?st area) (vma_at ?st x)" if "x \<in> set xs" for x
    using apart_inside [OF ap [OF that] w(2)] area(1) that by auto
  ultimately obtain st' xs' where st': "insert_vm_struct mm area ?st = Some st'" "areas mm st' xs'"
     "set xs' = insert area (set xs)" "length xs' = Suc (length xs)" "same_core (vma_at st') ?f"
     "\<And>x. x \<notin> insert area (set xs) \<Longrightarrow> vma_at st' x = ?f x" "sl st' = sl st" "mm_rest mm ?st st'"
     "mm_map_count (mm_at st' mm) = mm_map_count (mm_at st mm) + 1"
    using insert_area [of mm ?st xs area] area w(1) by auto
  have mp: "maps (vma_at st') (set xs') a t \<longleftrightarrow> maps (vma_at st) (set xs) a t \<or> covers w a \<and> t = attr w a" for a t
    using same_core_views(6) [OF st'(5)] by (auto simp: st'(3) maps_insert maps_upd [OF area(1)])
  have ins: "\<exists>x \<in> insert area (set xs). inside (vma_at st' y) (vma_at st x)" if "y \<in> set xs'" for y
    using that w(2) same_coreD(1,2) [OF st'(5), of y] by (cases "y = area") (auto simp: st'(3) inside_def)
  have "cut_result mm area b e extra st xs extra st' xs'"
    unfolding cut_result_def using st'(2,3,4,6-9) mp piece ins extra by (auto simp: mm_rest_def)
  then show ?thesis using st'(1) by blast
qed

lemma cut_result_base:
  assumes "vma_at st2 = vma_at st" "sl st2 = sl st" "mm_rest mm st st2" "mm_map_count (mm_at st2 mm) = mm_map_count (mm_at st mm)"
    and "cut_result mm area b e extra st2 xs extra' st' xs'"
  shows "cut_result mm area b e extra st xs extra' st' xs'"
  using assms(5) mm_rest_trans [OF assms(3)] unfolding cut_result_def assms(1,2,4) by blast

lemma good_parts:
  assumes "good mm v" "vm_start v < b" "b \<le> vm_end v" "pal b"
  shows "good mm (v\<lparr>vm_end := b\<rparr>)" "inside (v\<lparr>vm_end := b\<rparr>) v"
  using assms by (auto simp: good_def inside_def)

lemma left_piece:
  assumes "vm_start v \<le> b" "b \<le> e" "vm_end v \<le> e" "b \<le> vm_end v"
  shows "covers (v\<lparr>vm_end := b\<rparr>) a \<and> t = attr (v\<lparr>vm_end := b\<rparr>) a \<longleftrightarrow> covers v a \<and> t = attr v a \<and> \<not> (b \<le> a \<and> a < e)"
  using assms by (auto simp: covers_def attr_def)

lemma right_piece:
  assumes "vm_start v \<le> e" "e \<le> vm_end v" "pal e" "pal (vm_start v)"
    and w: "vm_flags w = vm_flags v" "vm_page_prot w = vm_page_prot v" "vm_start w = e" "vm_end w = vm_end v"
      "vm_pgoff w = vm_pgoff v + drop_bit 12 (e - vm_start v)"
  shows "covers w a \<and> t = attr w a \<longleftrightarrow> covers v a \<and> t = attr v a \<and> e \<le> a"
proof (cases "e \<le> a")
  case True
  then have "attr w a = attr v a" using attr_move [OF assms(1) True assms(3,4) w(1,2,3,5)] by simp
  then show ?thesis using True assms(1) w(3,4) by (auto simp: covers_def)
next
  case False
  then show ?thesis using w(3) by (auto simp: covers_def)
qed

text \<open>Cutting the middle out of an area inserts the part above the hole first, then the part below it.\<close>

lemma hole_cut:
  assumes l: "areas mm st xs" and area: "area \<notin> set xs" "area \<noteq> NULL" and extra: "extra \<notin> insert area (set xs)" "extra \<noteq> NULL"
    and ap: "\<And>x. x \<in> set xs \<Longrightarrow> apart (vma_at st area) (vma_at st x)"
    and v: "v = vma_at st area" "good mm v" "vm_start v < b" "b \<le> e" "e < vm_end v" "pal b" "pal e"
    and w: "vm_flags w = vm_flags v" "vm_page_prot w = vm_page_prot v" "vm_start w = e" "vm_end w = vm_end v"
      "vm_pgoff w = vm_pgoff v + drop_bit 12 (e - vm_start v)" "vm_mm w = vm_mm v"
  shows "\<exists>st5 st' xs'. insert_vm_struct mm extra (st\<lparr>vma_at := (vma_at st)(extra := w, area := v\<lparr>vm_end := b\<rparr>)\<rparr>) = Some st5 \<and>
     insert_vm_struct mm area st5 = Some st' \<and> cut_result mm area b e extra st xs NULL st' xs'"
proof -
  let ?u = "v\<lparr>vm_end := b\<rparr>"
  let ?f = "(vma_at st)(extra := w, area := ?u)"
  let ?st = "st\<lparr>vma_at := ?f\<rparr>"
  have ne: "area \<noteq> extra" using extra by auto
  have fx: "?f x = vma_at st x" if "x \<in> set xs" for x using that area(1) extra(1) by auto
  have st: "areas mm ?st xs" using l area(1) extra(1) by (subst areas_cong [where st = st]) auto
  have wv: "good mm w" "inside w v" "inside ?u v" "good mm ?u"
    using v w by (auto simp: good_def inside_def)
  have aw: "apart w (vma_at st x)" "apart ?u (vma_at st x)" if "x \<in> set xs" for x
    using apart_inside [OF ap [OF that]] wv(2,3) v(1) by auto
  obtain st5 xs5 where s5: "insert_vm_struct mm extra ?st = Some st5" "areas mm st5 xs5" "set xs5 = insert extra (set xs)"
     "length xs5 = Suc (length xs)" "same_core (vma_at st5) ?f" "\<And>x. x \<notin> insert extra (set xs) \<Longrightarrow> vma_at st5 x = ?f x"
     "sl st5 = sl st" "mm_rest mm ?st st5" "mm_map_count (mm_at st5 mm) = mm_map_count (mm_at st mm) + 1"
    using insert_area [OF st, of extra] extra ne wv(1) aw(1) fx by auto
  have a5: "vma_at st5 area = ?u" using s5(6) [of area] area(1) ne by simp
  have "apart ?u (vma_at st5 x)" if x: "x \<in> set xs5" for x
  proof (cases "x = extra")
    case True
    then show ?thesis using same_core_views(5) [OF s5(5), of ?u extra] ne w(3) v(4) by (simp add: apart_def)
  next
    case False
    then have "x \<in> set xs" using x s5(3) by simp
    then show ?thesis using same_core_views(5) [OF s5(5), of ?u x] fx aw(2) by simp
  qed
  then obtain st' xs' where s': "insert_vm_struct mm area st5 = Some st'" "areas mm st' xs'" "set xs' = insert area (set xs5)"
     "length xs' = Suc (length xs5)" "same_core (vma_at st') (vma_at st5)"
     "\<And>x. x \<notin> insert area (set xs5) \<Longrightarrow> vma_at st' x = vma_at st5 x" "sl st' = sl st5" "mm_rest mm st5 st'"
     "mm_map_count (mm_at st' mm) = mm_map_count (mm_at st5 mm) + 1"
    using insert_area [OF s5(2), of area] area ne wv(4) a5 s5(3) by auto
  note sc = same_core_trans [OF s'(5) s5(5)]
  have "maps ?f (set xs) = maps (vma_at st) (set xs)"
    using maps_upd [of area "set xs" "(vma_at st)(extra := w)"] maps_upd [of extra "set xs"] area(1) extra(1) by simp
  then have mp: "maps (vma_at st') (set xs') a t \<longleftrightarrow>
      maps (vma_at st) (set xs) a t \<or> covers v a \<and> t = attr v a \<and> \<not> (b \<le> a \<and> a < e)" for a t
    using same_core_views(6) [OF sc] left_piece [of v b "vm_end v" a t] right_piece [of v e w a t] v w ne
    by (auto simp: s'(3) s5(3) maps_insert good_def covers_def)
  have ins: "\<exists>x \<in> insert area (set xs). inside (vma_at st' y) (vma_at st x)" if "y \<in> set xs'" for y
  proof (cases "y \<in> set xs")
    case True
    then show ?thesis using same_coreD(1,2) [OF sc, of y] fx [OF True] by (auto simp: inside_def)
  next
    case False
    then have "y = area \<or> y = extra" using that s'(3) s5(3) by auto
    then show ?thesis using same_coreD(1,2) [OF sc, of y] ne wv(2,3) v(1) by (auto simp: inside_def)
  qed
  have "mm_rest mm st st'" using s5(8) s'(8) by (simp add: mm_rest_def)
  then have "cut_result mm area b e extra st xs NULL st' xs'"
    unfolding cut_result_def using s'(2,3,4,6,7,9) s5(3,4,6,7,9) mp ins v by auto
  then show ?thesis using s5(1) s'(1) by blast
qed

lemma unmap_account_frame:
  assumes "vm_mm (vma_at st area) = mm"
  shows "vma_at (unmap_account area n st) = vma_at st" "sl (unmap_account area n st) = sl st" "mm_rest mm st (unmap_account area n st)"
    "mm_map_count (mm_at (unmap_account area n st) mm) = mm_map_count (mm_at st mm)"
    "areas mm st xs \<Longrightarrow> areas mm (unmap_account area n st) xs"
proof -
  show v: "vma_at (unmap_account area n st) = vma_at st" "sl (unmap_account area n st) = sl st" "mm_rest mm st (unmap_account area n st)"
    "mm_map_count (mm_at (unmap_account area n st) mm) = mm_map_count (mm_at st mm)"
    using assms(1) by (simp_all add: unmap_account_def Let_def mm_rest_def)
  show "areas mm st xs \<Longrightarrow> areas mm (unmap_account area n st) xs"
    using assms(1) by (subst areas_cong [where st = st]) (simp_all add: unmap_account_def Let_def)
qed

text \<open>The contract of \<open>unmap_fixup\<close>, on all four of its cases.\<close>

lemma unmap_fixup_cut:
  assumes l: "areas mm st xs" and area: "area \<notin> set xs" "area \<noteq> NULL" and extra: "extra \<notin> insert area (set xs)" "extra \<noteq> NULL"
    and ap: "\<And>x. x \<in> set xs \<Longrightarrow> apart (vma_at st area) (vma_at st x)"
    and v: "v = vma_at st area" "good mm v" "vm_start v \<le> b" "vm_start v < e" "b \<le> e" "e \<le> vm_end v" "pal b" "pal e"
    and zero: "b = e \<Longrightarrow> e = vm_end v"
    and cs: "\<forall>p. check_addr (page_slab (sl st) p)"
  shows "\<exists>extra' st' xs'. unmap_fixup mm area b (e - b) extra st = Some (extra', st') \<and>
     cut_result mm area b e extra st xs extra' st' xs'"
proof -
  define st2 where "st2 = unmap_account area (e - b) st"
  have "vm_mm (vma_at st area) = mm" using v by (simp add: good_def)
  note base = unmap_account_frame [OF this, where n = "e - b", folded st2_def]
  note cut = cut_result_base [OF base(1-4)]
  have ee: "b + (e - b) = e" by simp
  have l2: "areas mm st2 xs" by (rule base(5) [OF l])
  have ap2: "\<And>x. x \<in> set xs \<Longrightarrow> apart (vma_at st2 area) (vma_at st2 x)" using ap base(1) by simp
  have v2: "v = vma_at st2 area" using v(1) base(1) by simp
  consider (whole) "b = vm_start v" "e = vm_end v" | (left) "b \<noteq> vm_start v" "e = vm_end v"
    | (right) "b = vm_start v" "e \<noteq> vm_end v" | (hole) "b \<noteq> vm_start v" "e \<noteq> vm_end v" by blast
  then show ?thesis
  proof cases
    case whole
    obtain s where s: "vma_free area st2 = Some (st2\<lparr>sl := s\<rparr>)" "page_slab s = page_slab (sl st2)"
      using vma_free_total [of st2 area] cs base(2) by auto
    have "unmap_fixup mm area b (e - b) extra st = Some (extra, st2\<lparr>sl := s\<rparr>)"
      unfolding unmap_fixup_def Let_def v(1) [symmetric] st2_def [symmetric] using whole s(1) by (simp)
    moreover have "cut_result mm area b e extra st2 xs extra (st2\<lparr>sl := s\<rparr>) xs"
    proof -
      have "areas mm (st2\<lparr>sl := s\<rparr>) xs" using l2 by (subst areas_cong [where st = st2]) simp_all
      moreover have "\<not> (covers (vma_at st2 area) a \<and> \<not> (b \<le> a \<and> a < e))" for a
        using whole v2 by (auto simp: covers_def)
      moreover have "inside u u" for u by (simp add: inside_def)
      ultimately show ?thesis using extra s(2) unfolding cut_result_def mm_rest_def by simp blast
    qed
    ultimately show ?thesis using cut by blast
  next
    case left
    let ?w = "v\<lparr>vm_end := b\<rparr>"
    have "vm_start v < b" using left v(3) by simp
    then obtain st' xs' where "insert_vm_struct mm area (st2\<lparr>vma_at := (vma_at st2)(area := ?w)\<rparr>) = Some st'"
       "cut_result mm area b e extra st2 xs extra st' xs'"
      using reinsert_cut [OF l2 area extra(1) ap2, of ?w b e] good_parts [OF v(2), of b] left_piece [of v b e] v v2 left by auto
    moreover have "unmap_fixup mm area b (e - b) extra st =
        map_option (Pair extra) (insert_vm_struct mm area (st2\<lparr>vma_at := (vma_at st2)(area := ?w)\<rparr>))"
      unfolding unmap_fixup_def Let_def v(1) [symmetric] st2_def [symmetric] using left v2 by (simp)
    ultimately have "unmap_fixup mm area b (e - b) extra st = Some (extra, st')"
      "cut_result mm area b e extra st xs extra st' xs'" using cut by simp_all
    then show ?thesis by blast
  next
    case right
    let ?w = "v\<lparr>vm_pgoff := vm_pgoff v + drop_bit 12 (e - vm_start v), vm_start := e\<rparr>"
    have e: "e < vm_end v" using right v(6) by simp
    then have "good mm ?w" "inside ?w v" using v by (auto simp: good_def inside_def)
    moreover have "covers ?w a \<and> t = attr ?w a \<longleftrightarrow> covers v a \<and> t = attr v a \<and> \<not> (b \<le> a \<and> a < e)" for a t
      using right_piece [of v e ?w a t] v right by (auto simp: good_def covers_def)
    ultimately obtain st' xs' where "insert_vm_struct mm area (st2\<lparr>vma_at := (vma_at st2)(area := ?w)\<rparr>) = Some st'"
       "cut_result mm area b e extra st2 xs extra st' xs'"
      using reinsert_cut [OF l2 area extra(1) ap2, of ?w b e] v2 by auto
    moreover have "unmap_fixup mm area b (e - b) extra st =
        map_option (Pair extra) (insert_vm_struct mm area (st2\<lparr>vma_at := (vma_at st2)(area := ?w)\<rparr>))"
      unfolding unmap_fixup_def Let_def v(1) [symmetric] st2_def [symmetric] using right v2 by (simp)
    ultimately have "unmap_fixup mm area b (e - b) extra st = Some (extra, st')"
      "cut_result mm area b e extra st xs extra st' xs'" using cut by simp_all
    then show ?thesis by blast
  next
    case hole
    define w where "w = (vma_at st2 extra)\<lparr>vm_mm := vm_mm v, vm_start := e, vm_end := vm_end v,
                         vm_page_prot := vm_page_prot v, vm_flags := vm_flags v, vm_raend := 0,
                         vm_pgoff := vm_pgoff v + drop_bit 12 (e - vm_start v),
                         vm_private_data := vm_private_data v\<rparr>"
    let ?st = "st2\<lparr>vma_at := (vma_at st2)(extra := w, area := v\<lparr>vm_end := b\<rparr>)\<rparr>"
    have e: "e < vm_end v" "vm_start v < b" using hole v by auto
    obtain st5 st' xs' where r: "insert_vm_struct mm extra ?st = Some st5" "insert_vm_struct mm area st5 = Some st'"
       "cut_result mm area b e extra st2 xs NULL st' xs'"
      using hole_cut [OF l2 area extra ap2 v2 v(2) e(2) v(5) e(1) v(7,8), of w] by (auto simp: w_def)
    have "area \<noteq> extra" using extra(1) by auto
    then have "unmap_fixup mm area b (e - b) extra st = Some (NULL, st')"
      unfolding unmap_fixup_def Let_def v(1) [symmetric] st2_def [symmetric] using hole v2 r(1,2) by (simp add: w_def)
    then show ?thesis using cut [OF r(3)] by blast
  qed
qed

section \<open>Unmapping a range\<close>

text \<open>The first loop moves the areas \<open>bs\<close> in the middle of the list to the front of the free list, last one first.\<close>

lemma unlink_loop_effect:
  assumes "area_list mm st (xs @ bs @ ys)" "\<forall>x \<in> set bs. vm_start (vma_at st x) < limit"
    and "ys = [] \<or> limit \<le> vm_start (vma_at st (hd ys))"
    and "aseg (vma_at st) free fs NULL" "set fs \<inter> set (xs @ bs @ ys) = {}" "mpnt = link_of mm (last_of xs) st"
  shows "\<exists>free' st'. unlink_loop mm (last_of xs) limit mpnt free st = Some (free', st') \<and>
     area_list mm st' (xs @ ys) \<and> aseg (vma_at st') free' (rev bs @ fs) NULL \<and> same_core (vma_at st') (vma_at st) \<and>
     sl st' = sl st \<and> mm_rest mm st st' \<and> mm_map_count (mm_at st' mm) = mm_map_count (mm_at st mm)"
  using assms
proof (induction bs arbitrary: st free fs mpnt)
  case Nil
  have "aseg (vma_at st) mpnt ys NULL" using Nil.prems(1,6) aseg_split [of st mm xs ys] by (simp add: area_list_def)
  then have "\<not> (mpnt \<noteq> NULL \<and> vm_start (vma_at st mpnt) < limit)" using Nil.prems(3) by (cases ys) auto
  then have "unlink_loop mm (last_of xs) limit mpnt free st = Some (free, st)" by (subst unlink_loop.simps) auto
  then show ?case using Nil.prems by simp
next
  case (Cons b bs)
  let ?n = "vm_next (vma_at st b)"
  define st1 where "st1 = set_link mm (last_of xs) ?n st"
  define st2 where "st2 = upd_vma b (\<lambda>a. a\<lparr>vm_next := free\<rparr>) st1"
  note fr = set_link_frame [where mm = mm and p = "last_of xs" and v = ?n and st = st, folded st1_def]
  obtain h where h: "mm_at st1 = (mm_at st)(mm := (mm_at st mm)\<lparr>mm_mmap := h\<rparr>)" using fr(7) by auto
  have l: "aseg (vma_at st) (mm_mmap (mm_at st mm)) (xs @ b # bs @ ys) NULL" "distinct (xs @ b # bs @ ys)"
    using Cons.prems(1) by (simp_all add: area_list_def)
  have sg: "aseg (vma_at st) mpnt (b # bs @ ys) NULL" using aseg_split [OF l(1)] Cons.prems(6) by simp
  then have b: "mpnt = b" "b \<noteq> NULL" "aseg (vma_at st) ?n (bs @ ys) NULL" by simp_all
  have "aseg (vma_at st1) (mm_mmap (mm_at st1 mm)) (xs @ bs @ ys) NULL"
    unfolding st1_def by (rule set_link_aseg [OF l b(3)]) (use l(2) in auto)
  then have s2: "aseg (vma_at st2) (mm_mmap (mm_at st2 mm)) (xs @ bs @ ys) NULL"
    using l(2) by (simp add: st2_def aseg_upd)
  have sc: "same_core (vma_at st2) (vma_at st)"
    using same_core_trans [OF same_core_next fr(2)] by (simp add: st2_def)
  have "last_of xs \<notin> set fs"
    using Cons.prems(5) aseg_nonnull [OF Cons.prems(4)] by (cases "xs = []") (auto simp: last_of_def)
  then have "aseg (vma_at st1) free fs NULL = aseg (vma_at st) free fs NULL" using fr(5) by (intro aseg_cong) metis
  then have f2: "aseg (vma_at st2) b (b # fs) NULL"
    using Cons.prems(4,5) b(2) by (auto simp: st2_def aseg_upd)
  have run: "unlink_loop mm (last_of xs) limit mpnt free st = unlink_loop mm (last_of xs) limit ?n b st2"
    using b Cons.prems(2) by (subst unlink_loop.simps) (simp add: Let_def st1_def st2_def)
  have "?n = link_of mm (last_of xs) st2"
  proof -
    have "b \<noteq> last_of xs" using l(2) b(2) by (auto simp: last_of_def)
    then show ?thesis by (auto simp: link_of_def st2_def st1_def set_link_def)
  qed
  moreover have "area_list mm st2 (xs @ bs @ ys)" using s2 l(2) Cons.prems(1) h by (simp add: area_list_def st2_def)
  ultimately obtain free' st' where s': "unlink_loop mm (last_of xs) limit ?n b st2 = Some (free', st')"
     "area_list mm st' (xs @ ys)" "aseg (vma_at st') free' (rev bs @ b # fs) NULL" "same_core (vma_at st') (vma_at st2)"
     "sl st' = sl st2" "mm_rest mm st2 st'" "mm_map_count (mm_at st' mm) = mm_map_count (mm_at st2 mm)"
    using Cons.IH [of st2 b "b # fs" ?n] Cons.prems(2,3,5) l(2) f2 same_coreD(1) [OF sc] by auto
  have "mm_rest mm st st'" using s'(6) fr(3,4,6) h by (simp add: mm_rest_def st2_def)
  then show ?case
    using s' run same_core_trans [OF s'(4) sc] fr(1) h by (intro exI [of _ free'] exI [of _ st']) (simp add: st2_def)
qed

lemma zap_range_frame:
  "\<exists>st'. zap_range mm a n st = Some st' \<and> vma_at st' = vma_at st \<and> page_slab (sl st') = page_slab (sl st) \<and> mm_rest mm st st' \<and>
     mm_map_count (mm_at st' mm) = mm_map_count (mm_at st mm) \<and> mm_mmap (mm_at st' mm) = mm_mmap (mm_at st mm)"
  using zap_page_range_total [of "mm_pgd (mm_at st mm)" a n "mm_rss (mm_at st mm)" "vpg st"]
  by (auto simp: zap_range_def mm_rest_def)

lemma maps_union: "maps f (X \<union> Y) a t \<longleftrightarrow> maps f X a t \<or> maps f Y a t"
  by (auto simp: maps_def)

lemma maps_cong: "(\<And>x. x \<in> X \<Longrightarrow> f x = g x) \<Longrightarrow> maps f X = maps g X"
  by (auto simp: maps_def fun_eq_iff)

lemma apart_sym: "apart v w = apart w v"
  by (auto simp: apart_def)

text \<open>\<open>release_result\<close>: what the second loop leaves, for the areas \<open>bs\<close> and the range from \<open>lo\<close> to \<open>hi\<close>.\<close>

definition release_result :: "addr \<Rightarrow> addr \<Rightarrow> addr \<Rightarrow> addr \<Rightarrow> vmst \<Rightarrow> addr list \<Rightarrow> addr list \<Rightarrow> addr \<Rightarrow> vmst \<Rightarrow> addr list \<Rightarrow> bool" where
  "release_result mm lo hi extra st xs bs extra' st' xs' \<longleftrightarrow>
     areas mm st' xs' \<and> set xs \<subseteq> set xs' \<and> set xs' \<subseteq> set xs \<union> set bs \<union> {extra} \<and>
     (\<forall>a t. maps (vma_at st') (set xs') a t \<longleftrightarrow>
        maps (vma_at st) (set xs) a t \<or> maps (vma_at st) (set bs) a t \<and> \<not> (lo \<le> a \<and> a < hi)) \<and>
     (extra' = extra \<and> extra \<notin> set xs' \<or> extra' = NULL) \<and>
     page_slab (sl st') = page_slab (sl st) \<and> mm_rest mm st st' \<and>
     mm_map_count (mm_at st' mm) = int (length xs')"

text \<open>The areas the first loop takes out: they meet the range or end where it begins, and lie apart from each other and
  from the rest.\<close>

definition to_cut :: "addr \<Rightarrow> addr \<Rightarrow> addr \<Rightarrow> (addr \<Rightarrow> vma) \<Rightarrow> addr list \<Rightarrow> addr list \<Rightarrow> bool" where
  "to_cut mm lo hi f xs bs \<longleftrightarrow>
     distinct bs \<and> set bs \<inter> set xs = {} \<and> NULL \<notin> set bs \<and>
     (\<forall>b \<in> set bs. good mm (f b) \<and> vm_start (f b) < hi \<and> lo \<le> vm_end (f b)) \<and>
     sorted_wrt (\<lambda>x y. apart (f x) (f y)) bs \<and> (\<forall>b \<in> set bs. \<forall>x \<in> set xs. apart (f b) (f x))"

lemma to_cut_step:
  assumes "to_cut mm lo hi f xs (m # bs)"
    and "\<forall>y \<in> set xs'. \<exists>x \<in> insert m (set xs). inside (g y) (f x)" "set xs' \<subseteq> insert m (insert extra (set xs))"
    and "extra \<notin> set bs" "\<And>x. x \<in> set bs \<Longrightarrow> g x = f x"
  shows "to_cut mm lo hi g xs' bs"
proof -
  have ap: "apart (g b) (g y)" if "b \<in> set bs" "y \<in> set xs'" for b y
  proof -
    obtain x where x: "x \<in> insert m (set xs)" "inside (g y) (f x)" using assms(2) \<open>y \<in> set xs'\<close> by blast
    have "apart (f b) (f x)" using assms(1) x(1) \<open>b \<in> set bs\<close> by (auto simp: to_cut_def apart_sym)
    then show ?thesis using apart_inside [of "f x" "f b" "g y"] x(2) assms(5) [OF \<open>b \<in> set bs\<close>] apart_sym by metis
  qed
  moreover have "sorted_wrt (\<lambda>x y. apart (g x) (g y)) bs = sorted_wrt (\<lambda>x y. apart (f x) (f y)) bs"
    by (rule sorted_wrt_cong_on) (rule assms(5))
  moreover have "set bs \<inter> set xs' = {}" using assms(1,3,4) by (auto simp: to_cut_def)
  ultimately show ?thesis using assms(1,5) by (auto simp: to_cut_def)
qed

lemma release_loop_effect:
  assumes "areas mm st xs" "aseg (vma_at st) free bs NULL" "to_cut mm lo hi (vma_at st) xs bs"
    and "extra \<notin> set xs \<union> set bs" "extra \<noteq> NULL" "lo < hi" "lo + len = hi" "pal lo" "pal hi"
    and "\<forall>p. check_addr (page_slab (sl st) p)" "mm_map_count (mm_at st mm) = int (length xs + length bs)"
  shows "\<exists>extra' st' xs'. release_loop mm lo len free extra st = Some (extra', st') \<and>
     release_result mm lo hi extra st xs bs extra' st' xs'"
  using assms
proof (induction bs arbitrary: st xs free)
  case Nil
  then have "release_loop mm lo len free extra st = Some (extra, st)" by (subst release_loop.simps) simp
  then show ?case using Nil.prems by (auto simp: release_result_def maps_def)
next
  case (Cons m bs)
  let ?v = "vma_at st m" and ?n = "vm_next (vma_at st m)"
  let ?b = "if lo < vm_start ?v then vm_start ?v else lo" and ?e = "if hi > vm_end ?v then vm_end ?v else hi"
  let ?st1 = "upd_mm mm (\<lambda>m. m\<lparr>mm_map_count := mm_map_count m - 1\<rparr>) st"
  have m: "free = m" "m \<noteq> NULL" "aseg (vma_at st) ?n bs NULL" using Cons.prems(2) by auto
  have c: "m \<notin> set xs" "m \<notin> set bs" "good mm ?v" "vm_start ?v < hi" "lo \<le> vm_end ?v"
    "\<And>x. x \<in> set xs \<Longrightarrow> apart ?v (vma_at st x)" "\<And>b. b \<in> set bs \<Longrightarrow> apart ?v (vma_at st b)"
    "\<And>b. b \<in> set bs \<Longrightarrow> vm_start (vma_at st b) < hi \<and> lo \<le> vm_end (vma_at st b)"
    using Cons.prems(3) by (auto simp: to_cut_def)
  obtain st2 where s2: "zap_range mm ?b (?e - ?b) ?st1 = Some st2" "vma_at st2 = vma_at st" "page_slab (sl st2) = page_slab (sl st)"
     "mm_rest mm ?st1 st2" "mm_map_count (mm_at st2 mm) = mm_map_count (mm_at st mm) - 1"
     "mm_mmap (mm_at st2 mm) = mm_mmap (mm_at st mm)"
    using zap_range_frame [of mm ?b "?e - ?b" ?st1] by auto
  have r2: "mm_rest mm st st2" using s2(4) by (simp add: mm_rest_def)
  have a2: "areas mm st2 xs"
    using Cons.prems(1) r2 by (subst areas_cong [where st = st]) (simp_all add: s2(2,6) mm_rest_def)
  have rng: "vm_start ?v \<le> ?b" "vm_start ?v < ?e" "?b \<le> ?e" "?e \<le> vm_end ?v" "pal ?b" "pal ?e" "?b = ?e \<Longrightarrow> ?e = vm_end ?v"
    using c(3-5) Cons.prems(6,8,9) by (auto simp: good_def)
  obtain extra' st3 xs3 where s3: "unmap_fixup mm m ?b (?e - ?b) extra st2 = Some (extra', st3)"
     "cut_result mm m ?b ?e extra st2 xs extra' st3 xs3"
    using unmap_fixup_cut [of mm st2 xs m extra ?v ?b ?e, unfolded s2(2), OF a2 c(1) m(2) _ Cons.prems(5) c(6) refl c(3) rng]
      Cons.prems(4,10) s2(3) by auto
  note cr = s3(2) [unfolded cut_result_def s2(2,3,5)]
  have run: "release_loop mm lo len free extra st = release_loop mm lo len ?n extra' st3"
    by (subst release_loop.simps) (simp only: Let_def Cons.prems(7) m(1,2) if_False s2(1) s3(1) option.case prod.case)
  have same: "vma_at st3 x = vma_at st x" if "x \<in> set bs" for x
    using cr that Cons.prems(3,4) by (auto simp: to_cut_def)
  have tc: "to_cut mm lo hi (vma_at st3) xs3 bs"
    by (rule to_cut_step [OF Cons.prems(3)]) (use cr Cons.prems(4) same in auto)
  have cnt: "mm_map_count (mm_at st3 mm) = int (length xs3 + length bs)" using cr Cons.prems(11) by simp
  have r3: "mm_rest mm st st3" using mm_rest_trans [OF r2] cr by blast
  have out: "covers ?v a \<and> \<not> (?b \<le> a \<and> a < ?e) \<longleftrightarrow> covers ?v a \<and> \<not> (lo \<le> a \<and> a < hi)" for a
    by (auto simp: covers_def)
  have "\<exists>extra'' st' xs'. release_loop mm lo len ?n extra' st3 = Some (extra'', st') \<and>
     release_result mm lo hi extra st3 xs3 bs extra'' st' xs'"
  proof (cases "extra' = extra \<and> extra \<notin> set xs3")
    case True
    have "aseg (vma_at st3) ?n bs NULL" using m(3) same aseg_cong [of bs "vma_at st3" "vma_at st"] by blast
    then show ?thesis
      using Cons.IH [of st3 xs3 ?n] True tc cnt cr Cons.prems(4-10) by auto
  next
    case False
    then have h: "extra' = NULL" "vm_start ?v < ?b" "?e < vm_end ?v" using cr by auto
    have "bs = []"
    proof (rule ccontr)
      assume "bs \<noteq> []"
      then obtain b where b: "b \<in> set bs" by (cases bs) auto
      have "lo \<le> vm_end (vma_at st b)" "vm_start (vma_at st b) < hi" "vm_start ?v < lo" "hi < vm_end ?v"
        using c(8) [OF b] h(2,3) by (auto split: if_splits)
      then show False using c(7) [OF b] by (auto simp: apart_def)
    qed
    then have "release_loop mm lo len ?n extra' st3 = Some (NULL, st3)" using m(3) h(1) by (subst release_loop.simps) simp
    moreover have "release_result mm lo hi extra st3 xs3 bs NULL st3 xs3"
      using cr cnt \<open>bs = []\<close> by (auto simp: release_result_def maps_def)
    ultimately show ?thesis by blast
  qed
  then obtain extra'' st' xs' where s': "release_loop mm lo len ?n extra' st3 = Some (extra'', st')"
     "release_result mm lo hi extra st3 xs3 bs extra'' st' xs'" by blast
  have mb: "maps (vma_at st3) (set bs) = maps (vma_at st) (set bs)" by (rule maps_cong) (rule same)
  have "maps (vma_at st') (set xs') a t \<longleftrightarrow> maps (vma_at st) (set xs) a t \<or>
      maps (vma_at st) (set (m # bs)) a t \<and> \<not> (lo \<le> a \<and> a < hi)" for a t
  proof -
    have "maps (vma_at st') (set xs') a t \<longleftrightarrow> maps (vma_at st3) (set xs3) a t \<or> maps (vma_at st3) (set bs) a t \<and> \<not> (lo \<le> a \<and> a < hi)"
      using s'(2) unfolding release_result_def by blast
    moreover have "maps (vma_at st3) (set xs3) a t \<longleftrightarrow>
        maps (vma_at st) (set xs) a t \<or> covers ?v a \<and> t = attr ?v a \<and> \<not> (?b \<le> a \<and> a < ?e)"
      using cr by blast
    ultimately show ?thesis using out [of a] unfolding mb list.set maps_insert by argo
  qed
  moreover have "set xs \<subseteq> set xs'" "set xs' \<subseteq> set xs \<union> set (m # bs) \<union> {extra}" "areas mm st' xs'"
    "extra'' = extra \<and> extra \<notin> set xs' \<or> extra'' = NULL" "page_slab (sl st') = page_slab (sl st)"
    "mm_map_count (mm_at st' mm) = int (length xs')" "mm_rest mm st st'"
    using s'(2) cr mm_rest_trans [OF r3] by (auto simp: release_result_def)
  ultimately have "release_result mm lo hi extra st xs (m # bs) extra'' st' xs'"
    unfolding release_result_def by blast
  then show ?case using run s'(1) by auto
qed

lemma find_prev_loop_seg:
  assumes "aseg (vma_at st) p xs NULL" and P_def: "P = (\<lambda>x. vm_end (vma_at st x) < addr)"
  shows "find_prev_loop st prev p addr =
     Some (if dropWhile P xs = [] then NULL else hd (dropWhile P xs), if takeWhile P xs = [] then prev else last (takeWhile P xs))"
  using assms(1)
proof (induction xs arbitrary: p prev)
  case Nil
  then show ?case by (subst find_prev_loop.simps) simp
next
  case (Cons x xs)
  show ?case
  proof (cases "P x")
    case True
    then show ?thesis using Cons.prems Cons.IH [of "vm_next (vma_at st x)" x] P_def
      by (subst find_prev_loop.simps) auto
  next
    case False
    then show ?thesis using Cons.prems P_def by (subst find_prev_loop.simps) auto
  qed
qed

lemma around_loop_total: "aseg (vma_at st) prev (prev # vs) NULL \<Longrightarrow> \<exists>f l. around_loop st prev start f0 l0 = Some (f, l)"
proof (induction vs arbitrary: prev)
  case Nil
  then show ?case by (subst around_loop.simps) (simp add: Let_def)
next
  case (Cons w vs)
  then have n: "vm_next (vma_at st prev) = w" "aseg (vma_at st) w (w # vs) NULL" by auto
  show ?case using Cons.IH [OF n(2)] by (subst around_loop.simps) (simp add: Let_def n(1))
qed

lemma free_pgtables_frame:
  assumes "area_list mm st xs" "prev = NULL \<or> prev \<in> set xs"
  shows "\<exists>g. free_pgtables mm prev start e st = Some (set_vpg g st)"
proof -
  have suffix: "\<exists>vs. aseg (vma_at st) x (x # vs) NULL" if xin: "x \<in> set xs" for x
  proof -
    obtain us vs where "xs = us @ x # vs" using split_list [OF xin] by blast
    then show ?thesis using assms(1) by (auto simp: area_list_def aseg_append)
  qed
  have "\<exists>f l. pgtable_bounds mm prev start e st = Some (f, l)"
  proof (cases "prev = NULL")
    case True
    let ?p = "mm_mmap (mm_at st mm)"
    have "?p = NULL \<or> ?p \<in> set xs" using assms(1) by (cases xs) (auto simp: area_list_def)
    then show ?thesis using True suffix [of ?p] around_loop_total [of st ?p]
      by (auto simp: pgtable_bounds_def Let_def)
  next
    case False
    then show ?thesis using assms(2) suffix [of prev] around_loop_total [of st prev]
      by (auto simp: pgtable_bounds_def Let_def)
  qed
  then obtain f l where fl: "pgtable_bounds mm prev start e st = Some (f, l)" by blast
  have self: "set_vpg (vpg st) st = st" by simp
  show ?thesis
  proof (cases "drop_bit 20 l > drop_bit 20 f")
    case True
    then obtain g where "clear_page_tables (mm_pgd (mm_at st mm)) (drop_bit 20 f) (drop_bit 20 l - drop_bit 20 f) (vpg st) = Some g"
      using clear_tables_loop_total [of "drop_bit 20 l - drop_bit 20 f"] by (fastforce simp: clear_page_tables_def)
    then show ?thesis using True by (auto simp: free_pgtables_def fl Let_def)
  next
    case False
    then show ?thesis using self by (auto simp: free_pgtables_def fl Let_def intro: exI [of _ "vpg st"])
  qed
qed

lemma PAGE_ALIGN_pal: "pal (PAGE_ALIGN x)"
proof -
  have m: "(0xfff :: u32) = mask 12" by (simp add: mask_eq_exp_minus_1)
  have "unat (PAGE_ALIGN x) = unat (x + 0xfff) div 2 ^ 12 * 2 ^ 12"
    unfolding PAGE_ALIGN_def m and_not_mask_push by (rule unat_push_drop)
  then show ?thesis by (simp add: pal_def)
qed

lemma pal_add: "pal a \<Longrightarrow> pal b \<Longrightarrow> unat a + unat b < 2 ^ 32 \<Longrightarrow> pal (a + b)"
  by (simp add: pal_def unat_word_ariths mod_eq_0_iff_dvd)

text \<open>The invariant of an address space: its areas are sorted, disjoint, page aligned and counted, and the cached area is
  one of them.\<close>

definition mm_inv :: "addr \<Rightarrow> vmst \<Rightarrow> addr list \<Rightarrow> bool" where
  "mm_inv mm st xs \<longleftrightarrow> mm \<noteq> NULL \<and> areas mm st xs \<and> mm_map_count (mm_at st mm) = int (length xs) \<and>
     mm_cache (mm_at st mm) \<in> insert NULL (set xs)"

text \<open>Splitting the sorted list at the range: areas that end below it, areas to cut, areas above.\<close>

lemma split_areas:
  assumes s: "sorted_areas mm f xs" and lh: "lo < hi"
  defines "P \<equiv> \<lambda>x. vm_end (f x) < lo" and "Q \<equiv> \<lambda>x. vm_start (f x) < hi"
  defines "us \<equiv> takeWhile P xs" and "rest \<equiv> dropWhile P xs"
  defines "bs \<equiv> takeWhile Q rest" and "ys \<equiv> dropWhile Q rest"
  shows "xs = us @ bs @ ys" "\<forall>x \<in> set us. vm_end (f x) < lo" "\<forall>x \<in> set bs. vm_start (f x) < hi \<and> lo \<le> vm_end (f x)"
    "\<forall>y \<in> set ys. hi \<le> vm_start (f y)"
proof -
  show xs: "xs = us @ bs @ ys" by (simp add: us_def bs_def ys_def rest_def)
  show "\<forall>x \<in> set us. vm_end (f x) < lo" by (auto simp: us_def P_def dest: set_takeWhileD)
  have srt: "sorted_wrt (\<lambda>x y. vm_end (f x) \<le> vm_start (f y)) (us @ rest)" and g: "\<And>x. x \<in> set xs \<Longrightarrow> vm_start (f x) < vm_end (f x)"
    using s by (auto simp: sorted_areas_def us_def rest_def good_def)
  have step: "vm_start (f z) \<le> vm_start (f y) \<and> vm_end (f z) \<le> vm_end (f y)"
    if "zs = z # ws" "y \<in> set zs" "sorted_wrt (\<lambda>x y. vm_end (f x) \<le> vm_start (f y)) zs" "set zs \<subseteq> set xs" for z ws y zs
  proof (cases "y = z")
    case False
    then have "vm_end (f z) \<le> vm_start (f y)" using that by auto
    moreover have "vm_start (f z) < vm_end (f z)" "vm_start (f y) < vm_end (f y)" using g that by auto
    ultimately show ?thesis by (meson less_imp_le order.trans)
  qed simp
  have rx: "set rest \<subseteq> set xs" by (auto simp: rest_def dest: set_dropWhileD)
  have sr: "sorted_wrt (\<lambda>x y. vm_end (f x) \<le> vm_start (f y)) rest" using srt by (simp add: sorted_wrt_append)
  have r: "lo \<le> vm_end (f x)" if x: "x \<in> set rest" for x
  proof -
    obtain z zs where z: "rest = z # zs" using x by (cases rest) auto
    then have "\<not> P z" using hd_dropWhile [of P xs] by (auto simp: rest_def)
    then have "lo \<le> vm_end (f z)" by (simp add: P_def)
    then show ?thesis using step [OF z x sr rx] by (meson order.trans)
  qed
  then show "\<forall>x \<in> set bs. vm_start (f x) < hi \<and> lo \<le> vm_end (f x)" by (auto simp: bs_def Q_def dest: set_takeWhileD)
  show "\<forall>y \<in> set ys. hi \<le> vm_start (f y)"
  proof
    fix y assume y: "y \<in> set ys"
    then obtain z zs where z: "ys = z # zs" by (cases ys) auto
    then have "\<not> Q z" using hd_dropWhile [of Q rest] by (auto simp: ys_def)
    then have "hi \<le> vm_start (f z)" by (simp add: Q_def)
    moreover have "sorted_wrt (\<lambda>x y. vm_end (f x) \<le> vm_start (f y)) ys"
      using sr xs by (metis bs_def ys_def sorted_wrt_append takeWhile_dropWhile_id)
    moreover have "set ys \<subseteq> set xs" using xs by auto
    ultimately show "hi \<le> vm_start (f y)" using step [OF z y] by (meson order.trans)
  qed
qed

lemma to_cut_split:
  assumes "areas mm st (us @ bs @ ys)" "\<forall>x \<in> set bs. vm_start (vma_at st x) < hi \<and> lo \<le> vm_end (vma_at st x)"
    and "same_core f (vma_at st)"
  shows "to_cut mm lo hi f (us @ ys) (rev bs)"
proof -
  note d = same_coreD [OF assms(3)]
  have srt: "sorted_wrt (\<lambda>x y. vm_end (f x) \<le> vm_start (f y)) (us @ bs @ ys)" "\<forall>x \<in> set (us @ bs @ ys). good mm (f x)"
    "distinct (us @ bs @ ys)" "aseg (vma_at st) (mm_mmap (mm_at st mm)) (us @ bs @ ys) NULL"
    using assms(1) same_core_views(1) [OF assms(3)]
    by (simp_all add: areas_def area_list_def sorted_areas_def d)
  have "sorted_wrt (\<lambda>x y. apart (f x) (f y)) (rev bs)"
    using srt(1) by (auto simp: sorted_wrt_append sorted_wrt_rev apart_def intro: sorted_wrt_mono_rel [rotated])
  then show ?thesis
    using srt(1-3) aseg_nonnull [OF srt(4)] assms(2) by (auto simp: to_cut_def sorted_wrt_append apart_def d)
qed

lemma munmap_areas_effect:
  assumes l: "areas mm st (us @ bs @ ys)" "mm_map_count (mm_at st mm) = int (length (us @ bs @ ys))"
    and b: "\<forall>x \<in> set bs. vm_start (vma_at st x) < hi \<and> lo \<le> vm_end (vma_at st x)" "\<forall>y \<in> set ys. hi \<le> vm_start (vma_at st y)"
    and e: "extra \<notin> set (us @ bs @ ys)" "extra \<noteq> NULL" and r: "lo < hi" "lo + len = hi" "pal lo" "pal hi"
    and cs: "\<forall>p. check_addr (page_slab (sl st) p)" and m: "mpnt = link_of mm (last_of us) st"
  shows "\<exists>st' xs'. munmap_areas mm lo len mpnt (last_of us) extra st = Some (0, st') \<and> areas mm st' xs' \<and>
     set xs' \<subseteq> set (us @ bs @ ys) \<union> {extra} \<and>
     (\<forall>a t. maps (vma_at st') (set xs') a t \<longleftrightarrow>
        maps (vma_at st) (set us \<union> set ys) a t \<or> maps (vma_at st) (set bs) a t \<and> \<not> (lo \<le> a \<and> a < hi)) \<and>
     page_slab (sl st') = page_slab (sl st) \<and> mm_cache (mm_at st' mm) = NULL \<and>
     mm_rest mm (upd_mm mm (\<lambda>m. m\<lparr>mm_cache := NULL\<rparr>) st) st' \<and> mm_map_count (mm_at st' mm) = int (length xs')"
proof -
  have al: "area_list mm st (us @ bs @ ys)" using l(1) by (simp add: areas_def)
  have "ys = [] \<or> hi \<le> vm_start (vma_at st (hd ys))" using b(2) by (cases ys) auto
  then obtain free st1 where s1: "unlink_loop mm (last_of us) hi mpnt NULL st = Some (free, st1)"
     "area_list mm st1 (us @ ys)" "aseg (vma_at st1) free (rev bs) NULL" "same_core (vma_at st1) (vma_at st)"
     "sl st1 = sl st" "mm_rest mm st st1" "mm_map_count (mm_at st1 mm) = mm_map_count (mm_at st mm)"
    using unlink_loop_effect [OF al, of hi NULL "[]" mpnt] b(1) m by auto
  define st2 where "st2 = upd_mm mm (\<lambda>m. m\<lparr>mm_cache := NULL\<rparr>) st1"
  have srt: "sorted_areas mm (vma_at st1) (us @ ys)"
    using l(1) unfolding same_core_views(7) [OF s1(4)] by (auto simp: areas_def sorted_areas_def sorted_wrt_append)
  have a2: "areas mm st2 (us @ ys)" using s1(2) srt by (simp add: areas_def area_list_def st2_def)
  have tc: "to_cut mm lo hi (vma_at st2) (us @ ys) (rev bs)"
    using to_cut_split [OF l(1) b(1) s1(4)] by (simp add: st2_def)
  have "mm_map_count (mm_at st2 mm) = int (length (us @ ys) + length (rev bs))" using l(2) s1(7) by (simp add: st2_def)
  then obtain extra' st3 xs' where s3: "release_loop mm lo len free extra st2 = Some (extra', st3)"
     "release_result mm lo hi extra st2 (us @ ys) (rev bs) extra' st3 xs'"
    using release_loop_effect [OF a2 _ tc, of free extra len] s1(3,5) e r cs by (auto simp: st2_def)
  note rr = s3(2) [unfolded release_result_def]
  have "\<exists>s. (if extra' \<noteq> NULL then vma_free extra' st3 else Some st3) = Some (st3\<lparr>sl := s\<rparr>) \<and> page_slab s = page_slab (sl st3)"
    using vma_free_total [of st3 extra'] rr cs s1(5) by (auto simp: st2_def intro: exI [of _ "sl st3"])
  then obtain s where s: "(if extra' \<noteq> NULL then vma_free extra' st3 else Some st3) = Some (st3\<lparr>sl := s\<rparr>)"
    "page_slab s = page_slab (sl st3)" by blast
  have "last_of us = NULL \<or> last_of us \<in> set us" by (simp add: last_of_def)
  then have "last_of us = NULL \<or> last_of us \<in> set xs'" using rr by auto
  moreover have "area_list mm (st3\<lparr>sl := s\<rparr>) xs'" using rr by (simp add: areas_def area_list_def)
  ultimately obtain g where g: "free_pgtables mm (last_of us) lo hi (st3\<lparr>sl := s\<rparr>) = Some (set_vpg g (st3\<lparr>sl := s\<rparr>))"
    using free_pgtables_frame by blast
  define st' where "st' = set_vpg g (st3\<lparr>sl := s\<rparr>)"
  have run: "munmap_areas mm lo len mpnt (last_of us) extra st = Some (0, st')"
    by (simp only: munmap_areas_def r(2) s1(1) option.case prod.case st2_def [symmetric] s3(1) s g option.map st'_def)
  have "maps (vma_at st2) X = maps (vma_at st) X" for X using same_core_views(6) [OF s1(4)] by (simp add: st2_def)
  then have mp: "maps (vma_at st') (set xs') a t \<longleftrightarrow>
        maps (vma_at st) (set us \<union> set ys) a t \<or> maps (vma_at st) (set bs) a t \<and> \<not> (lo \<le> a \<and> a < hi)" for a t
    using rr by (cases t) (simp add: st'_def)
  have rest: "mm_rest mm (upd_mm mm (\<lambda>m. m\<lparr>mm_cache := NULL\<rparr>) st) st'" "mm_cache (mm_at st' mm) = NULL"
    using rr s1(6) by (simp_all add: mm_rest_def st'_def st2_def)
  have "areas mm st' xs'" using rr by (subst areas_cong [where st = st3]) (simp_all add: st'_def)
  then show ?thesis
    using run mp rest rr s(2) s1(5) by (intro exI [of _ st'] exI [of _ xs']) (auto simp: st'_def st2_def)
qed

text \<open>The contract of \<open>do_munmap\<close>: \<open>unmapped\<close> relates the state before and after.\<close>

definition unmapped :: "addr \<Rightarrow> addr \<Rightarrow> addr \<Rightarrow> addr \<Rightarrow> vmst \<Rightarrow> addr list \<Rightarrow> vmst \<Rightarrow> addr list \<Rightarrow> bool" where
  "unmapped mm lo hi extra st xs st' xs' \<longleftrightarrow>
     mm_inv mm st' xs' \<and> set xs' \<subseteq> set xs \<union> {extra} \<and>
     (\<forall>a t. maps (vma_at st') (set xs') a t \<longleftrightarrow> maps (vma_at st) (set xs) a t \<and> \<not> (lo \<le> a \<and> a < hi)) \<and>
     (\<exists>c. mm_rest mm (upd_mm mm (\<lambda>m. m\<lparr>mm_cache := c\<rparr>) st) st')"

lemma maps_outside:
  assumes "\<And>x. x \<in> X \<Longrightarrow> vm_end (f x) < lo \<or> hi \<le> vm_start (f x)" "maps f X a t"
  shows "\<not> (lo \<le> a \<and> a < hi)"
  using assms by (fastforce simp: maps_def covers_def word_le_nat_alt word_less_nat_alt)

lemma do_munmap_effect:
  assumes inv: "mm_inv mm st xs" and len: "len = PAGE_ALIGN len0" "len \<noteq> 0" "unat lo + unat len < 2 ^ 32" "pal lo"
    and cnt: "length xs < 65536"
    and al: "kmem_cache_alloc fuel (vm_area_cachep st) SLAB_KERNEL (sl st) = Some (extra, sl1)" "extra \<noteq> NULL" "extra \<notin> set xs"
      "\<forall>p. check_addr (page_slab sl1 p)"
  shows "\<exists>st' xs'. do_munmap fuel mm lo len0 st = Some (0, st') \<and> unmapped mm lo (lo + len) extra st xs st' xs' \<and>
     (sl st' = sl st \<or> page_slab (sl st') = page_slab sl1)"
proof -
  let ?hi = "lo + len" and ?f = "vma_at st"
  have hi: "unat ?hi = unat lo + unat len" using len(3) by (simp add: unat_word_ariths)
  have "unat len > 0" using len(2) unat_eq_zero [of len] by (cases "unat len") auto
  then have lt: "lo < ?hi" using hi by (simp add: word_less_nat_alt)
  have ph: "pal ?hi" using pal_add [OF len(4) _ len(3)] PAGE_ALIGN_pal len(1) by simp
  have i: "mm \<noteq> NULL" "areas mm st xs" "mm_map_count (mm_at st mm) = int (length xs)"
    "area_list mm st xs" "sorted_areas mm ?f xs" using inv by (auto simp: mm_inv_def areas_def)
  define P where "P = (\<lambda>x. vm_end (?f x) < lo)"
  define us bs ys where "us = takeWhile P xs" and "bs = takeWhile (\<lambda>x. vm_start (?f x) < ?hi) (dropWhile P xs)"
    and "ys = dropWhile (\<lambda>x. vm_start (?f x) < ?hi) (dropWhile P xs)"
  note sp = split_areas [OF i(5) lt, folded P_def, folded us_def bs_def ys_def]
  have rest: "dropWhile P xs = bs @ ys" by (simp add: bs_def ys_def)
  have aseg: "aseg ?f (mm_mmap (mm_at st mm)) xs NULL" "mm_avl (mm_at st mm) = NULL" using i(4) by (auto simp: area_list_def)
  define mpnt where "mpnt = link_of mm (last_of us) st"
  have sg: "aseg ?f mpnt (bs @ ys) NULL" using aseg_split [of st mm us "bs @ ys"] aseg(1) sp(1) by (simp add: mpnt_def)
  have fp: "find_vma_prev mm lo st = Some (mpnt, last_of us)"
    using find_prev_loop_seg [OF aseg(1) P_def, of NULL] i(1) aseg(2) aseg_hd [OF sg] rest
    by (simp add: find_vma_prev_def last_of_def us_def)
  show ?thesis
  proof (cases "bs = []")
    case True
    have "mpnt = NULL \<or> ?hi \<le> vm_start (?f mpnt)" using sg sp(4) True by (cases ys) auto
    then have run: "do_munmap fuel mm lo len0 st = Some (0, st)"
      using len(2) by (simp add: do_munmap_def len(1) [symmetric] fp Let_def)
    have "\<not> (lo \<le> a \<and> a < ?hi)" if "maps ?f (set xs) a t" for a t
      using maps_outside [OF _ that, of lo ?hi] sp(1,2,4) True by (auto simp: P_def)
    moreover have "mm_rest mm (upd_mm mm (\<lambda>m. m\<lparr>mm_cache := mm_cache (mm_at st mm)\<rparr>) st) st" by (simp add: mm_rest_def)
    ultimately have "unmapped mm lo ?hi extra st xs st xs" using inv unfolding unmapped_def by blast
    then show ?thesis using run by blast
  next
    case False
    let ?st = "st\<lparr>sl := sl1\<rparr>"
    have m: "mpnt \<noteq> NULL" "mpnt \<in> set bs" using sg False by (cases bs; auto)+
    then have run: "do_munmap fuel mm lo len0 st = munmap_areas mm lo len mpnt (last_of us) extra ?st"
      using len(2) sp(3) al(1,2) i(3) cnt
      by (auto simp: do_munmap_def len(1) [symmetric] fp Let_def MAX_MAP_COUNT_def not_le)
    have a1: "areas mm ?st (us @ bs @ ys)" using i(2) sp(1) by (subst areas_cong [where st = st]) simp_all
    have "\<exists>st' xs'. munmap_areas mm lo len mpnt (last_of us) extra ?st = Some (0, st') \<and> areas mm st' xs' \<and>
       set xs' \<subseteq> set (us @ bs @ ys) \<union> {extra} \<and>
       (\<forall>a t. maps (vma_at st') (set xs') a t \<longleftrightarrow>
          maps (vma_at ?st) (set us \<union> set ys) a t \<or> maps (vma_at ?st) (set bs) a t \<and> \<not> (lo \<le> a \<and> a < ?hi)) \<and>
       page_slab (sl st') = page_slab (sl ?st) \<and> mm_cache (mm_at st' mm) = NULL \<and>
       mm_rest mm (upd_mm mm (\<lambda>m. m\<lparr>mm_cache := NULL\<rparr>) ?st) st' \<and> mm_map_count (mm_at st' mm) = int (length xs')"
      by (rule munmap_areas_effect [OF a1 _ _ _ _ al(2) lt refl len(4) ph])
        (use i(3) sp(1,3,4) al(3,4) in \<open>simp_all add: mpnt_def link_of_def\<close>)
    then obtain st' xs' where s': "munmap_areas mm lo len mpnt (last_of us) extra ?st = Some (0, st')" "areas mm st' xs'"
       "set xs' \<subseteq> set (us @ bs @ ys) \<union> {extra}"
       "\<forall>a t. maps (vma_at st') (set xs') a t \<longleftrightarrow>
          maps (vma_at ?st) (set us \<union> set ys) a t \<or> maps (vma_at ?st) (set bs) a t \<and> \<not> (lo \<le> a \<and> a < ?hi)"
       "page_slab (sl st') = page_slab (sl ?st)" "mm_cache (mm_at st' mm) = NULL"
       "mm_rest mm (upd_mm mm (\<lambda>m. m\<lparr>mm_cache := NULL\<rparr>) ?st) st'" "mm_map_count (mm_at st' mm) = int (length xs')"
      by blast
    have off: "\<not> (lo \<le> a \<and> a < ?hi)" if "maps ?f (set us \<union> set ys) a t" for a t
      using maps_outside [OF _ that, of lo ?hi] sp(2,4) by (auto simp: P_def)
    have "maps (vma_at st') (set xs') a t \<longleftrightarrow> maps ?f (set xs) a t \<and> \<not> (lo \<le> a \<and> a < ?hi)" for a t
      using s'(4) [rule_format, of a t] off [of a t] sp(1) by (simp add: maps_union) argo
    moreover have "mm_rest mm (upd_mm mm (\<lambda>m. m\<lparr>mm_cache := NULL\<rparr>) st) st'" using s'(7) by (simp add: mm_rest_def)
    ultimately have "unmapped mm lo ?hi extra st xs st' xs'"
      unfolding unmapped_def mm_inv_def using i(1) s'(2,3,6,8) sp(1) by blast
    then show ?thesis using run s'(1,5) by auto
  qed
qed

end
