(* ===== verification/Vma_Brk.thy ===== *)
theory Vma_Brk
  imports Vma_Inv
begin

text \<open>
  Faults and the heap: bringing pages in returns, \<open>find_vma\<close> finds the right area, and \<open>sys_brk\<close> extends the
  heap by exactly the requested pages. The properties of the address-space code are stated here.
\<close>

section \<open>Faulting pages in\<close>

lemma pte_alloc_total: "\<exists>p s'. pte_alloc pmd a s = Some (p, s')"
proof -
  have "\<exists>p s'. get_pte_slow pmd off s = Some (p, s')" for off
  proof -
    obtain pte s1 where g: "get_free_pages GFP_KERNEL_pt 0 s = (pte, s1)" by fastforce
    obtain s2 where "free_pages pte 0 s1 = Some s2" using free_pages_total by blast
    then show ?thesis by (simp add: get_pte_slow_def g)
  qed
  then show ?thesis by (simp add: pte_alloc_def)
qed

lemma do_wp_page_total: "\<exists>r rss' s'. do_wp_page p e prot rss s = Some (r, rss', s')"
proof -
  let ?o = "unat (pte_page e)"
  obtain q s1 where a: "alloc_pages GFP_HIGHUSER 0 s = (q, s1)" by fastforce
  obtain s2 where "free_pages_count ?o 0 (break_cow ?o (the q) p prot s1) = Some s2" using free_pages_count_total by blast
  moreover obtain s3 where "free_pages_count (the q) 0 s1 = Some s3" using free_pages_count_total by blast
  ultimately show ?thesis by (cases q) (simp_all add: do_wp_page_def Let_def a)
qed

lemma handle_mm_fault_total: "\<exists>r rss' s'. handle_mm_fault np flags prot pgd a w z rss s = Some (r, rss', s')"
proof -
  have "\<exists>r rss' s'. handle_pte_fault np flags prot a w p z rss t = Some (r, rss', s')" for p t
    using do_wp_page_total by (cases "do_no_page np a flags prot w p z rss t") (auto simp: handle_pte_fault_def Let_def)
  then show ?thesis
    using pte_alloc_total [of "pmd_alloc (pgd_offset pgd a) a" a s]
    by (auto simp: handle_mm_fault_def Let_def split: if_splits)
qed

lemma present_loop_total:
  assumes "pal a" "pal e" "a < e"
  shows "\<exists>r rss' s'. present_loop np flags prot pgd w z a e rss s = Some (r, rss', s')"
  using assms
proof (induction "unat e - unat a" arbitrary: a rss s rule: less_induct)
  case less
  obtain r rss1 s1 where h: "handle_mm_fault np flags prot pgd a w z rss s = Some (r, rss1, s1)"
    using handle_mm_fault_total by blast
  have "unat a < unat e" using less.prems(3) by (simp add: word_less_nat_alt)
  moreover obtain i j where ij: "unat a = 4096 * i" "unat e = 4096 * j"
    using less.prems(1,2) by (auto simp: pal_def mod_eq_0_iff_dvd elim!: dvdE)
  ultimately have "unat a + 4096 \<le> unat e" by simp
  then have n: "unat (a + 4096) = unat a + 4096" using unat_le_max_word32 [of e] by (simp add: unat_word_ariths)
  then have "pal (a + 4096)" using ij(1) by (simp add: pal_def)
  then have "a + 4096 < e \<Longrightarrow> \<exists>r rss' s'. present_loop np flags prot pgd w z (a + 4096) e rss1 s1 = Some (r, rss', s')"
    using less.hyps [of "a + 4096"] less.prems(2) n \<open>unat a < unat e\<close> by simp
  then show ?case by (subst present_loop.simps) (auto simp: h)
qed

section \<open>Finding and extending areas\<close>

lemma find_loop_seg:
  assumes "aseg (vma_at st) p xs NULL" and P_def: "P = (\<lambda>x. vm_end (vma_at st x) \<le> addr)"
  shows "find_loop st p addr = Some (if dropWhile P xs = [] then NULL else hd (dropWhile P xs))"
  using assms(1)
proof (induction xs arbitrary: p)
  case Nil
  then show ?case by (subst find_loop.simps) simp
next
  case (Cons x xs)
  show ?case
  proof (cases "P x")
    case True
    then show ?thesis using Cons.prems Cons.IH [of "vm_next (vma_at st x)"] P_def by (subst find_loop.simps) auto
  next
    case False
    then show ?thesis using Cons.prems P_def by (subst find_loop.simps) auto
  qed
qed

lemma mm_inv_cong:
  assumes "mm_inv mm st xs" "vma_at st' = vma_at st" "mm_mmap (mm_at st' mm) = mm_mmap (mm_at st mm)"
    "mm_avl (mm_at st' mm) = mm_avl (mm_at st mm)" "mm_map_count (mm_at st' mm) = mm_map_count (mm_at st mm)"
    "mm_cache (mm_at st' mm) \<in> insert NULL (set xs)"
  shows "mm_inv mm st' xs"
  using assms areas_cong [of xs st' st mm] by (simp add: mm_inv_def)

text \<open>The contract of \<open>find_vma\<close>: the area that holds the address if one does, and any result ends above it.\<close>

lemma find_vma_effect:
  assumes "mm_inv mm st xs"
  shows "\<exists>v c. find_vma mm a st = Some (v, upd_mm mm (\<lambda>m. m\<lparr>mm_cache := c\<rparr>) st) \<and>
     mm_inv mm (upd_mm mm (\<lambda>m. m\<lparr>mm_cache := c\<rparr>) st) xs \<and>
     (v = NULL \<and> (\<forall>x \<in> set xs. vm_end (vma_at st x) \<le> a) \<or>
      v \<in> set xs \<and> a < vm_end (vma_at st v) \<and> (\<forall>x \<in> set xs. a < vm_end (vma_at st x) \<longrightarrow> vm_start (vma_at st v) \<le> vm_start (vma_at st x)))"
proof -
  let ?f = "vma_at st" and ?c = "mm_cache (mm_at st mm)"
  have i: "mm \<noteq> NULL" "aseg ?f (mm_mmap (mm_at st mm)) xs NULL" "mm_avl (mm_at st mm) = NULL" "sorted_areas mm ?f xs"
    "?c \<in> insert NULL (set xs)" "distinct xs"
    using assms by (auto simp: mm_inv_def areas_def area_list_def)
  have g: "vm_start (?f x) < vm_end (?f x)" if "x \<in> set xs" for x using i(4) that by (auto simp: sorted_areas_def good_def)
  show ?thesis
  proof (cases "?c \<noteq> NULL \<and> vm_end (?f ?c) > a \<and> vm_start (?f ?c) \<le> a")
    case True
    have c: "?c \<in> set xs" using True i(5) by auto
    obtain us vs where uv: "xs = us @ ?c # vs" using split_list [OF c] by blast
    have "vm_start (?f ?c) \<le> vm_start (?f x)" if x: "x \<in> set xs" "a < vm_end (?f x)" for x
    proof -
      consider "x \<in> set us" | "x = ?c" | "x \<in> set vs" using x(1) uv by auto
      then show ?thesis
      proof cases
        case 1
        then have "vm_end (?f x) \<le> vm_start (?f ?c)" using i(4) uv by (auto simp: sorted_areas_def sorted_wrt_append)
        then show ?thesis using True x(2) by (simp add: word_le_nat_alt word_less_nat_alt)
      next
        case 3
        then have "vm_end (?f ?c) \<le> vm_start (?f x)" using i(4) uv by (auto simp: sorted_areas_def sorted_wrt_append)
        then show ?thesis using g [OF c] by (simp add: word_le_nat_alt word_less_nat_alt)
      qed simp
    qed
    moreover have "find_vma mm a st = Some (?c, upd_mm mm (\<lambda>m. m\<lparr>mm_cache := ?c\<rparr>) st)"
      using True i(1) by (simp add: find_vma_def Let_def)
    ultimately show ?thesis using assms c True by (intro exI [of _ ?c]) simp
  next
    case False
    define P where "P = (\<lambda>x. vm_end (?f x) \<le> a)"
    define v where "v = (if dropWhile P xs = [] then NULL else hd (dropWhile P xs))"
    define c where "c = (if v = NULL then ?c else v)"
    have vx: "v = NULL \<or> v \<in> set xs"
      by (cases "dropWhile P xs") (auto simp: v_def dest: set_dropWhileD intro: set_dropWhileD [of _ P])
    have "find_vma mm a st = Some (v, upd_mm mm (\<lambda>m. m\<lparr>mm_cache := c\<rparr>) st)"
      using False i(1,3) find_loop_seg [OF i(2) P_def] by (auto simp: find_vma_def Let_def v_def c_def)
    moreover have "mm_inv mm (upd_mm mm (\<lambda>m. m\<lparr>mm_cache := c\<rparr>) st) xs"
      by (rule mm_inv_cong [OF assms]) (use vx i(5) in \<open>auto simp: c_def\<close>)
    moreover have "v = NULL \<and> (\<forall>x \<in> set xs. vm_end (?f x) \<le> a) \<or>
      v \<in> set xs \<and> a < vm_end (?f v) \<and> (\<forall>x \<in> set xs. a < vm_end (?f x) \<longrightarrow> vm_start (?f v) \<le> vm_start (?f x))"
    proof (cases "dropWhile P xs")
      case Nil
      then show ?thesis by (simp add: v_def P_def)
    next
      case (Cons z zs)
      have xs: "xs = takeWhile P xs @ z # zs" using Cons by (metis takeWhile_dropWhile_id)
      have z: "\<not> P z" using hd_dropWhile [of P xs] Cons by auto
      have "vm_start (?f z) \<le> vm_start (?f x)" if x: "x \<in> set xs" "a < vm_end (?f x)" for x
      proof -
        have "\<not> P x" using x(2) by (simp add: P_def)
        then have "x \<in> set (z # zs)" using x(1) xs by (metis Un_iff set_append set_takeWhileD)
        then consider "x = z" | "x \<in> set zs" by auto
        then show ?thesis
        proof cases
          case 2
          have "sorted_wrt (\<lambda>x y. vm_end (?f x) \<le> vm_start (?f y)) (takeWhile P xs @ z # zs)"
            using i(4) xs by (simp only: sorted_areas_def)
          then have "vm_end (?f z) \<le> vm_start (?f x)" using 2 by (simp add: sorted_wrt_append)
          moreover have "z \<in> set xs" using xs by (metis in_set_conv_decomp)
          ultimately show ?thesis using g [of z] by (simp add: word_le_nat_alt word_less_nat_alt)
        qed simp
      qed
      moreover have "v = z" unfolding v_def Cons by simp
      moreover have "z \<in> set xs" using xs by (metis in_set_conv_decomp)
      ultimately show ?thesis using z by (simp add: P_def not_le)
    qed
    ultimately show ?thesis by blast
  qed
qed

section \<open>Growing the heap\<close>

lemma PAGE_ALIGN_id: "pal y \<Longrightarrow> PAGE_ALIGN y = y"
proof -
  assume y: "pal y"
  have m: "(0xfff :: u32) = mask 12" by (simp add: mask_eq_exp_minus_1)
  obtain k where k: "unat y = 4096 * k" using y by (auto simp: pal_def mod_eq_0_iff_dvd elim!: dvdE)
  then have "k < 1048576" using unat_le_max_word32 [of y] by simp
  then have u: "unat (y + 0xfff) = 4096 * k + 4095" using k by (simp add: unat_word_ariths)
  have "unat (PAGE_ALIGN y) = unat (y + 0xfff) div 2 ^ 12 * 2 ^ 12"
    unfolding PAGE_ALIGN_def m and_not_mask_push by (rule unat_push_drop)
  also have "\<dots> = unat y" by (simp add: u k)
  finally show ?thesis by (simp only: word_unat_eq_iff)
qed

lemma drop12_pred:
  fixes x :: u32
  assumes "unat x mod 4096 = 0" "x \<noteq> 0"
  shows "drop_bit 12 (x - 1) = drop_bit 12 x - 1"
proof -
  have d: "unat (drop_bit 12 y) = unat y div 4096" for y :: u32
    by (simp add: unat_drop_bit_eq) (simp add: drop_bit_eq_div)
  obtain k where k: "unat x = 4096 * k" using assms(1) by (auto simp: mod_eq_0_iff_dvd elim!: dvdE)
  have "k > 0" using assms(2) k unat_eq_zero [of x] by (cases k) auto
  then obtain j where j: "k = Suc j" by (cases k) auto
  have "unat (drop_bit 12 x) = k" by (simp add: d k)
  then have nz: "drop_bit 12 x \<noteq> 0" using \<open>k > 0\<close> unat_eq_zero [of "drop_bit 12 x"] by auto
  have "unat (x - 1) = 4096 * j + 4095" using unat_minus_one [OF assms(2)] k j by simp
  then have "unat (drop_bit 12 (x - 1)) = j" by (simp add: d)
  moreover have "unat (drop_bit 12 x - 1) = j" using unat_minus_one [OF nz] \<open>unat (drop_bit 12 x) = k\<close> j by simp
  ultimately show ?thesis by (simp only: word_unat_eq_iff)
qed

lemma offset_above:
  assumes "good mm v" "vm_end v = lo" "lo \<le> a"
  shows "drop_bit 12 (a - vm_start v) = drop_bit 12 (lo - 1 - vm_start v) + 1 + drop_bit 12 (a - lo)"
proof -
  let ?s = "vm_start v"
  have g: "?s < lo" "pal ?s" "pal lo" using assms(1,2) by (auto simp: good_def)
  have u: "unat (lo - ?s) = unat lo - unat ?s" "unat (a - lo) = unat a - unat lo" "unat ?s < unat lo" "unat lo \<le> unat a"
    using g(1) assms(3) by (simp_all add: unat_le_diff word_le_nat_alt word_less_nat_alt)
  have m: "unat (lo - ?s) mod 4096 = 0" using g(2,3) u by (auto simp: pal_def mod_eq_0_iff_dvd intro: dvd_diff_nat)
  moreover have "unat (lo - ?s) + unat (a - lo) < 2 ^ 32" using u unat_le_max_word32 [of a] by simp
  ultimately have "drop_bit 12 ((lo - ?s) + (a - lo)) = drop_bit 12 (lo - ?s) + drop_bit 12 (a - lo)" by (rule drop12_add)
  moreover have "lo - ?s \<noteq> 0" using g(1) by auto
  then have "drop_bit 12 (lo - ?s) = drop_bit 12 (lo - ?s - 1) + 1" using drop12_pred [OF m] by simp
  ultimately show ?thesis by (simp add: algebra_simps)
qed

lemma attr_extend:
  assumes "good mm v" "good mm w" "vm_end v = lo" "vm_end w = lo" "attr w (lo - 1) = attr v (lo - 1)" "lo \<le> a"
  shows "attr w a = attr v a"
  using assms(5) offset_above [OF assms(1,3,6)] offset_above [OF assms(2,4,6)]
  by (auto simp: attr_def add.assoc [symmetric])

lemma covers_unique:
  assumes "sorted_areas mm f xs" "x \<in> set xs" "y \<in> set xs" "covers (f x) a" "covers (f y) a"
  shows "x = y"
  using assms
proof (induction xs)
  case (Cons z zs)
  have far: False if "w \<in> set zs" "covers (f z) a" "covers (f w) a" for w
  proof -
    have "vm_end (f z) \<le> vm_start (f w)" using Cons.prems(1) that(1) by (auto simp: sorted_areas_def)
    then show False using that(2,3) by (simp add: covers_def word_le_nat_alt word_less_nat_alt)
  qed
  have "sorted_areas mm f zs" using Cons.prems(1) by (simp add: sorted_areas_def)
  then show ?case using Cons.IH Cons.prems(2-) far by auto
qed simp

text \<open>Moving the end of an area up into a gap.\<close>

lemma extend_area:
  assumes inv: "mm_inv mm st xs" and x: "x \<in> set xs" "vm_end (vma_at st x) = lo" and r: "lo < hi" "pal hi"
    and gap: "\<And>a t. maps (vma_at st) (set xs) a t \<Longrightarrow> \<not> (lo \<le> a \<and> a < hi)"
    and st': "st' = upd_vma x (\<lambda>v. v\<lparr>vm_end := hi\<rparr>) st"
  shows "mm_inv mm st' xs"
    and "maps (vma_at st') (set xs) a t \<longleftrightarrow> maps (vma_at st) (set xs) a t \<or> lo \<le> a \<and> a < hi \<and> t = attr (vma_at st x) a"
proof -
  let ?f = "vma_at st" and ?g = "vma_at st'"
  have i: "aseg ?f (mm_mmap (mm_at st mm)) xs NULL" "distinct xs" "mm_avl (mm_at st mm) = NULL" "sorted_areas mm ?f xs"
    using inv by (auto simp: mm_inv_def areas_def area_list_def)
  have good: "good mm (?f y)" if "y \<in> set xs" for y using i(4) that by (simp add: sorted_areas_def)
  obtain us vs where uv: "xs = us @ x # vs" using split_list [OF x(1)] by blast
  have nx: "x \<notin> set us" "x \<notin> set vs" using i(2) uv by auto
  have above: "hi \<le> vm_start (?f y)" if "y \<in> set vs" for y
  proof -
    have "lo \<le> vm_start (?f y)" using i(4) uv that x(2) by (auto simp: sorted_areas_def sorted_wrt_append)
    moreover have "maps ?f (set xs) (vm_start (?f y)) (attr (?f y) (vm_start (?f y)))"
      using good [of y] that uv by (auto simp: maps_def covers_def good_def)
    ultimately show ?thesis using gap by (meson not_le)
  qed
  have gx: "?g x = (?f x)\<lparr>vm_end := hi\<rparr>" "\<And>y. y \<noteq> x \<Longrightarrow> ?g y = ?f y" by (simp_all add: st')
  have sg: "aseg ?g p zs q = aseg ?f p zs q" for p zs q by (induction zs arbitrary: p) (auto simp: st')
  have gxg: "good mm (?g x)" using good [OF x(1)] x(2) r by (auto simp: good_def gx)
  have "sorted_wrt (\<lambda>v w. vm_end (?g v) \<le> vm_start (?g w)) xs"
  proof -
    have s: "vm_start (?g y) = vm_start (?f y)" for y by (simp add: st')
    have "sorted_wrt (\<lambda>v w. vm_end (?g v) \<le> vm_start (?g w)) us = sorted_wrt (\<lambda>v w. vm_end (?f v) \<le> vm_start (?f w)) us"
      "sorted_wrt (\<lambda>v w. vm_end (?g v) \<le> vm_start (?g w)) vs = sorted_wrt (\<lambda>v w. vm_end (?f v) \<le> vm_start (?f w)) vs"
      using nx by (auto intro!: sorted_wrt_cong_on [where R = "\<lambda>v w. vm_end v \<le> vm_start w"] gx(2))
    moreover have "\<And>y. y \<in> set us \<Longrightarrow> ?g y = ?f y" using nx gx(2) by metis
    ultimately show ?thesis using i(4) above nx uv gx(1)
      by (auto simp: sorted_areas_def sorted_wrt_append s)
  qed
  moreover have "\<forall>y \<in> set xs. good mm (?g y)" using good gxg gx(2) by metis
  moreover have "mm_at st' = mm_at st" by (simp add: st')
  ultimately show "mm_inv mm st' xs"
    using inv i(1,2,3) by (simp add: mm_inv_def areas_def area_list_def sorted_areas_def sg)
  have "set xs = insert x (set us \<union> set vs)" using uv by auto
  moreover have "maps ?g (set us \<union> set vs) = maps ?f (set us \<union> set vs)" by (rule maps_cong) (use nx gx(2) in \<open>metis Un_iff\<close>)
  moreover have "covers (?g x) a \<and> t = attr (?g x) a \<longleftrightarrow> covers (?f x) a \<and> t = attr (?f x) a \<or> lo \<le> a \<and> a < hi \<and> t = attr (?f x) a"
    using good [OF x(1)] x(2) r(1) by (auto simp: gx(1) covers_def attr_def good_def word_le_nat_alt word_less_nat_alt)
  ultimately show "maps ?g (set xs) a t \<longleftrightarrow> maps ?f (set xs) a t \<or> lo \<le> a \<and> a < hi \<and> t = attr (?f x) a"
    by (simp add: maps_insert) argo
qed

lemma make_pages_present_frame:
  assumes "mm_inv (cur_mm st) st xs" "pal a" "pal e" "a < e"
  shows "\<exists>r st'. make_pages_present a e st = Some (r, st') \<and> mm_inv (cur_mm st) st' xs \<and> vma_at st' = vma_at st \<and>
     cur_mm st' = cur_mm st \<and> mm_brk (mm_at st' (cur_mm st)) = mm_brk (mm_at st (cur_mm st))"
proof -
  let ?mm = "cur_mm st"
  obtain v c where f: "find_vma ?mm a st = Some (v, upd_mm ?mm (\<lambda>m. m\<lparr>mm_cache := c\<rparr>) st)"
     "mm_inv ?mm (upd_mm ?mm (\<lambda>m. m\<lparr>mm_cache := c\<rparr>) st) xs"
    using find_vma_effect [OF assms(1), of a] by blast
  let ?st = "upd_mm ?mm (\<lambda>m. m\<lparr>mm_cache := c\<rparr>) st" and ?v = "vma_at st v"
  obtain r rss g where p: "present_loop None (vm_flags ?v) (vm_page_prot ?v) (mm_pgd (mm_at ?st ?mm))
      (if vm_flags ?v AND VM_WRITE \<noteq> 0 then 1 else 0) (empty_zero_page st) a e (mm_rss (mm_at ?st ?mm)) (vpg st) = Some (r, rss, g)"
    using present_loop_total [OF assms(2-4)] by blast
  define st' where "st' = upd_mm ?mm (\<lambda>m. m\<lparr>mm_rss := rss\<rparr>) (set_vpg g ?st)"
  have "make_pages_present a e st = Some (r, st')" using f(1) p by (simp add: make_pages_present_def Let_def st'_def)
  moreover have "mm_inv ?mm st' xs"
    by (rule mm_inv_cong [OF f(2)]) (use f(2) in \<open>auto simp: st'_def mm_inv_def\<close>)
  ultimately show ?thesis by (intro exI [of _ r] exI [of _ st']) (simp add: st'_def)
qed

text \<open>\<open>heap_area\<close>: the area \<open>x\<close> ends at \<open>lo\<close> and has the flags \<open>do_brk\<close> gives to heap areas.\<close>

definition brk_flags :: "addr \<Rightarrow> vmst \<Rightarrow> u32" where
  "brk_flags mm st = VM_DATA_DEFAULT_FLAGS OR mm_def_flags (mm_at st mm) OR 0x70 OR VM_LOCKED"

lemma brk_flags_locked: "brk_flags mm st AND VM_LOCKED \<noteq> 0"
proof -
  have "bit (brk_flags mm st AND VM_LOCKED) 13"
    by (simp add: brk_flags_def VM_LOCKED_def VM_DATA_DEFAULT_FLAGS_def bit_simps)
  then show ?thesis by auto
qed

lemma brk_accounting_frame:
  assumes "mm_inv (cur_mm st) st xs" "pal lo" "pal (lo + len)" "lo < lo + len" "flags AND VM_LOCKED \<noteq> 0"
  shows "\<exists>st'. brk_accounting lo len flags st = Some (lo, st') \<and> mm_inv (cur_mm st) st' xs \<and> vma_at st' = vma_at st \<and>
     cur_mm st' = cur_mm st \<and> mm_brk (mm_at st' (cur_mm st)) = mm_brk (mm_at st (cur_mm st))"
proof -
  let ?mm = "cur_mm st"
  define st2 where "st2 = upd_mm ?mm (\<lambda>m. m\<lparr>mm_locked_vm := mm_locked_vm m + drop_bit 12 len\<rparr>)
     (upd_mm ?mm (\<lambda>m. m\<lparr>mm_total_vm := mm_total_vm m + drop_bit 12 len\<rparr>) st)"
  have "mm_inv ?mm st2 xs" by (rule mm_inv_cong [OF assms(1)]) (use assms(1) in \<open>auto simp: st2_def mm_inv_def\<close>)
  then obtain r st' where "make_pages_present lo (lo + len) st2 = Some (r, st')" "mm_inv ?mm st' xs" "vma_at st' = vma_at st"
     "cur_mm st' = ?mm" "mm_brk (mm_at st' ?mm) = mm_brk (mm_at st ?mm)"
    using make_pages_present_frame [of st2 xs lo "lo + len"] assms(2-4) by (auto simp: st2_def)
  then show ?thesis using assms(5) by (auto simp: brk_accounting_def Let_def st2_def)
qed

lemma do_brk_extends:
  assumes mm: "mm = cur_mm st" and inv: "mm_inv mm st xs"
    and len: "len = PAGE_ALIGN len0" "len \<noteq> 0" "unat lo + unat len < 2 ^ 32" "pal lo" and cnt: "length xs < 65536"
    and al: "kmem_cache_alloc fuel (vm_area_cachep st) SLAB_KERNEL (sl st) = Some (extra, sl1)" "extra \<noteq> NULL" "extra \<notin> set xs"
      "\<forall>p. check_addr (page_slab sl1 p)"
    and x: "x \<in> set xs" "vm_end (vma_at st x) = lo" "vm_flags (vma_at st x) = brk_flags mm st"
  shows "\<exists>st' xs'. do_brk fuel lo len0 st = Some (lo, st') \<and> mm_inv mm st' xs' \<and> cur_mm st' = mm \<and>
     mm_brk (mm_at st' mm) = mm_brk (mm_at st mm) \<and>
     (\<forall>a t. maps (vma_at st') (set xs') a t \<longleftrightarrow>
        (if lo \<le> a \<and> a < lo + len then t = attr (vma_at st x) a else maps (vma_at st) (set xs) a t))"
proof -
  let ?hi = "lo + len" and ?f = "vma_at st"
  have pl: "PAGE_ALIGN len = len" "pal len" using PAGE_ALIGN_id PAGE_ALIGN_pal len(1) by simp_all
  have "unat len > 0" using len(2) unat_eq_zero [of len] by (cases "unat len") auto
  then have lt: "lo < ?hi" using len(3) by (simp add: word_less_nat_alt unat_word_ariths)
  have ph: "pal ?hi" using pal_add [OF len(4) pl(2) len(3)] .
  have sx: "sorted_areas mm ?f xs" "distinct xs" using inv by (auto simp: mm_inv_def areas_def area_list_def)
  have gx: "good mm (?f x)" using sx(1) x(1) by (simp add: sorted_areas_def)
  have sl: "unat (vm_start (?f x)) < unat lo" using gx x(2) by (simp add: good_def word_less_nat_alt)
  then have l0: "lo \<noteq> 0" by auto
  have u1: "unat (lo - 1) = unat lo - 1" by (rule unat_minus_one [OF l0])
  have lo0: "lo \<noteq> 0" "lo - 1 < lo" "vm_start (?f x) \<le> lo - 1"
    using l0 sl u1 by (simp_all add: word_le_nat_alt word_less_nat_alt)
  obtain st1 xs1 where s1: "do_munmap fuel mm lo len st = Some (0, st1)" "unmapped mm lo ?hi extra st xs st1 xs1"
    using do_munmap_effect [OF inv _ len(2-4) cnt al, of len] pl(1) by auto
  let ?g = "vma_at st1"
  have u: "mm_inv mm st1 xs1" "set xs1 \<subseteq> set xs \<union> {extra}"
    "\<And>a t. maps ?g (set xs1) a t \<longleftrightarrow> maps ?f (set xs) a t \<and> \<not> (lo \<le> a \<and> a < ?hi)"
    "cur_mm st1 = mm" "mm_def_flags (mm_at st1 mm) = mm_def_flags (mm_at st mm)" "mm_brk (mm_at st1 mm) = mm_brk (mm_at st mm)"
    using s1(2) mm by (auto simp: unmapped_def mm_rest_def)
  have s1x: "sorted_areas mm ?g xs1" "distinct xs1" "mm_map_count (mm_at st1 mm) = int (length xs1)"
    using u(1) by (auto simp: mm_inv_def areas_def area_list_def)
  have "length xs1 \<le> Suc (length xs)"
  proof -
    have "length xs1 = card (set xs1)" using s1x(2) by (simp add: distinct_card)
    also have "\<dots> \<le> card (insert extra (set xs))" using u(2) by (intro card_mono) auto
    also have "\<dots> \<le> Suc (length xs)" using card_insert_le_m1 card_length [of xs] by (simp add: card_insert_if)
    finally show ?thesis .
  qed
  then have c1: "\<not> mm_map_count (mm_at st1 mm) > MAX_MAP_COUNT" using cnt s1x(3) by (simp add: MAX_MAP_COUNT_def)
  have "maps ?f (set xs) (lo - 1) (attr (?f x) (lo - 1))" using x lo0 by (auto simp: maps_def covers_def)
  then have "maps ?g (set xs1) (lo - 1) (attr (?f x) (lo - 1))" using u(3) lo0(2) by (simp add: not_le)
  then obtain y where y: "y \<in> set xs1" "covers (?g y) (lo - 1)" "attr (?g y) (lo - 1) = attr (?f x) (lo - 1)"
    by (auto simp: maps_def)
  have gy: "good mm (?g y)" using s1x(1) y(1) by (simp add: sorted_areas_def)
  have ye: "vm_end (?g y) = lo"
  proof (rule ccontr)
    assume "vm_end (?g y) \<noteq> lo"
    moreover have "lo \<le> vm_end (?g y)" using y(2) sl u1 unfolding covers_def word_le_nat_alt word_less_nat_alt by linarith
    ultimately have "covers (?g y) lo" using y(2) lo0(2) unfolding covers_def word_le_nat_alt word_less_nat_alt word_unat_eq_iff by linarith
    then have "maps ?g (set xs1) lo (attr (?g y) lo)" using y(1) by (auto simp: maps_def)
    then show False using u(3) lt by auto
  qed
  obtain v c where fv: "find_vma mm (lo - 1) st1 = Some (v, upd_mm mm (\<lambda>m. m\<lparr>mm_cache := c\<rparr>) st1)"
     "mm_inv mm (upd_mm mm (\<lambda>m. m\<lparr>mm_cache := c\<rparr>) st1) xs1"
     "v = NULL \<and> (\<forall>x \<in> set xs1. vm_end (?g x) \<le> lo - 1) \<or>
      v \<in> set xs1 \<and> lo - 1 < vm_end (?g v) \<and> (\<forall>x \<in> set xs1. lo - 1 < vm_end (?g x) \<longrightarrow> vm_start (?g v) \<le> vm_start (?g x))"
    using find_vma_effect [OF u(1), of "lo - 1"] by blast
  have "\<not> vm_end (?g y) \<le> lo - 1" "lo - 1 < vm_end (?g y)" using ye lo0(2) by (simp_all add: not_le)
  then have v: "v \<in> set xs1" "covers (?g v) (lo - 1)" "v \<noteq> NULL"
    using fv(3) y(1,2) u(1) aseg_nonnull by (auto simp: covers_def mm_inv_def areas_def area_list_def)
  have vy: "v = y" by (rule covers_unique [OF s1x(1) v(1) y(1) v(2) y(2)])
  let ?st2 = "upd_mm mm (\<lambda>m. m\<lparr>mm_cache := c\<rparr>) st1"
  define st3 where "st3 = upd_vma y (\<lambda>v. v\<lparr>vm_end := ?hi\<rparr>) ?st2"
  have gap: "\<not> (lo \<le> a \<and> a < ?hi)" if "maps (vma_at ?st2) (set xs1) a t" for a t using that u(3) by simp
  have ye2: "vm_end (vma_at ?st2 y) = lo" using ye by simp
  have i3: "mm_inv mm st3 xs1" by (rule extend_area(1) [OF fv(2) y(1) ye2 lt ph gap st3_def])
  have mp3: "maps (vma_at st3) (set xs1) a t \<longleftrightarrow> maps ?g (set xs1) a t \<or> lo \<le> a \<and> a < ?hi \<and> t = attr (?g y) a" for a t
    using extend_area(2) [where a = a and t = t, OF fv(2) y(1) ye2 lt ph gap st3_def] by simp
  have fl: "vm_flags (?g y) = brk_flags mm st1" using y(3) x(3) u(5) by (simp add: attr_def brk_flags_def)
  have "cur_mm st3 = mm" using u(4) by (simp add: st3_def)
  then obtain st' where s': "brk_accounting lo len (brk_flags mm st1) st3 = Some (lo, st')" "mm_inv mm st' xs1" "vma_at st' = vma_at st3"
     "cur_mm st' = mm" "mm_brk (mm_at st' mm) = mm_brk (mm_at st3 mm)"
    using brk_accounting_frame [of st3 xs1 lo len "brk_flags mm st1"] i3 len(4) ph lt brk_flags_locked by auto
  have "do_brk fuel lo len0 st = brk_accounting lo len (brk_flags mm st1) st3"
    using s1(1) c1 fv(1) v(3) vy ye fl lo0(1) len(2)
    by (simp add: do_brk_def mm [symmetric] len(1) [symmetric] Let_def brk_flags_def [symmetric] st3_def)
  moreover have "maps (vma_at st') (set xs1) a t \<longleftrightarrow>
        (if lo \<le> a \<and> a < ?hi then t = attr (?f x) a else maps ?f (set xs) a t)" for a t
    using mp3 [of a t] u(3) [of a t] attr_extend [OF gx gy x(2) ye y(3), of a] by (auto simp: s'(3))
  ultimately show ?thesis using s' u(6) by (intro exI [of _ st'] exI [of _ xs1]) (simp add: st3_def)
qed

section \<open>Properties\<close>

definition demo_vm :: vmst where
  "demo_vm = \<lparr>sl = demo_slabst,
     vma_at = (\<lambda>_. \<lparr>vm_mm = 0x50, vm_start = 0x1000, vm_end = 0x4000, vm_next = NULL, vm_page_prot = 0xf,
        vm_flags = 0x2077, vm_pgoff = 7, vm_raend = 0, vm_private_data = NULL\<rparr>),
     mm_at = (\<lambda>_. \<lparr>mm_mmap = 0x30005020, mm_avl = NULL, mm_cache = NULL, mm_def_flags = 0, mm_pgd = 0x30008000,
        mm_users = 1, mm_count = 1, mm_map_count = 1, mm_end_code = 0x1000, mm_brk = 0x3800, mm_rss = 0, mm_total_vm = 3,
        mm_locked_vm = 3, mm_swap_cnt = 0, mm_swap_address = 0\<rparr>),
     vm_area_cachep = 0x100, mm_cachep = 0x200, cur_mm = 0x50, empty_zero_page = 1\<rparr>"

lemma demo_vm_inv: "mm_inv 0x50 demo_vm [0x30005020]"
  by (simp add: mm_inv_def areas_def area_list_def sorted_areas_def good_def pal_def demo_vm_def)

lemma demo_vm_alloc:
  "kmem_cache_alloc (Suc 0) (vm_area_cachep demo_vm) SLAB_KERNEL (sl demo_vm) =
     Some (0x30005028, snd (kmem_cache_alloc_one_tail 0x100 0x30005000 demo_slabst))"
  by (simp add: demo_vm_def) (simp add: demo_slabst_def kmem_cache_alloc_one_tail_def Let_def)

lemma demo_vm_slabs: "check_addr (page_slab (snd (kmem_cache_alloc_one_tail 0x100 0x30005000 demo_slabst)) p)"
  by (simp add: demo_slabst_def kmem_cache_alloc_one_tail_def Let_def check_addr_def)

text \<open>C3. Unmapping removes exactly the range. For a page-aligned range that does not wrap, with a spare area structure
  available, \<open>do_munmap\<close> returns 0; afterwards the areas are again sorted, disjoint, aligned and counted, and an
  address is mapped, with the same flags, protection and page offset as before, exactly when it was mapped and lies outside the
  range. This covers whole areas, either end of an area, and a hole that splits one.\<close>

theorem do_munmap_unmaps:
  assumes "mm_inv mm st xs" "PAGE_ALIGN len \<noteq> 0" "unat lo + unat (PAGE_ALIGN len) < 2 ^ 32" "pal lo" "length xs < 65536"
    and "kmem_cache_alloc fuel (vm_area_cachep st) SLAB_KERNEL (sl st) = Some (extra, sl1)" "extra \<noteq> NULL" "extra \<notin> set xs"
      "\<forall>p. check_addr (page_slab sl1 p)"
  shows "\<exists>st' xs'. do_munmap fuel mm lo len st = Some (0, st') \<and> mm_inv mm st' xs' \<and>
     (\<forall>a t. maps (vma_at st') (set xs') a t \<longleftrightarrow>
        maps (vma_at st) (set xs) a t \<and> \<not> (lo \<le> a \<and> a < lo + PAGE_ALIGN len))"
  using do_munmap_effect [OF assms(1) refl assms(2-9)] unfolding unmapped_def by blast

theorem do_munmap_unmaps_witness:
  "\<exists>st' xs'. do_munmap (Suc 0) 0x50 0x2000 1 demo_vm = Some (0, st') \<and> mm_inv 0x50 st' xs' \<and>
     (\<forall>a t. maps (vma_at st') (set xs') a t \<longleftrightarrow>
        maps (vma_at demo_vm) (set [0x30005020]) a t \<and> \<not> (0x2000 \<le> a \<and> a < 0x2000 + PAGE_ALIGN 1))"
  by (rule do_munmap_unmaps [OF demo_vm_inv _ _ _ _ demo_vm_alloc])
    (simp_all add: PAGE_ALIGN_def pal_def demo_vm_slabs)

text \<open>C36. Growing the heap. When the new break lies above the old one on another page, nothing is mapped from the old break
  up to one page past the new one, and the heap area ends at the old break, \<open>sys_brk\<close> returns and records the new break;
  the pages between the two breaks are mapped as a continuation of the heap area and no other address changes.\<close>

theorem sys_brk_grows:
  assumes mm: "mm = cur_mm st" and inv: "mm_inv mm st xs" and cnt: "length xs < 65536"
    and brk: "mm_end_code (mm_at st mm) \<le> brk" "mm_brk (mm_at st mm) < brk"
    and ob: "lo = PAGE_ALIGN (mm_brk (mm_at st mm))" "hi = PAGE_ALIGN brk" "lo < hi"
    and free: "\<And>y. y \<in> set xs \<Longrightarrow> vm_end (vma_at st y) \<le> lo \<or> hi + 4096 \<le> vm_start (vma_at st y)"
    and al: "kmem_cache_alloc fuel (vm_area_cachep st) SLAB_KERNEL (sl st) = Some (extra, sl1)" "extra \<noteq> NULL" "extra \<notin> set xs"
      "\<forall>p. check_addr (page_slab sl1 p)"
    and x: "x \<in> set xs" "vm_end (vma_at st x) = lo" "vm_flags (vma_at st x) = brk_flags mm st"
  shows "\<exists>st' xs'. sys_brk fuel brk st = Some (brk, st') \<and> mm_inv mm st' xs' \<and> mm_brk (mm_at st' mm) = brk \<and>
     (\<forall>a t. maps (vma_at st') (set xs') a t \<longleftrightarrow>
        (if lo \<le> a \<and> a < hi then t = attr (vma_at st x) a else maps (vma_at st) (set xs) a t))"
proof -
  have pal: "pal lo" "pal hi" using ob(1,2) PAGE_ALIGN_pal by simp_all
  have u: "unat (hi - lo) = unat hi - unat lo" "unat lo < unat hi" using ob(3) by (simp_all add: unat_le_diff less_imp_le word_less_nat_alt)
  have ps: "PAGE_ALIGN (hi - lo) = hi - lo"
    using pal u by (intro PAGE_ALIGN_id) (auto simp: pal_def mod_eq_0_iff_dvd intro: dvd_diff_nat)
  obtain v c where f: "find_vma mm lo st = Some (v, upd_mm mm (\<lambda>m. m\<lparr>mm_cache := c\<rparr>) st)"
     "mm_inv mm (upd_mm mm (\<lambda>m. m\<lparr>mm_cache := c\<rparr>) st) xs" "v = NULL \<or> v \<in> set xs \<and> lo < vm_end (vma_at st v)"
    using find_vma_effect [OF inv, of lo] by blast
  let ?st = "upd_mm mm (\<lambda>m. m\<lparr>mm_cache := c\<rparr>) st"
  have "v = NULL \<or> hi + 4096 \<le> vm_start (vma_at st v)" using f(3) free [of v] by (auto simp: not_le [symmetric])
  then have isect: "find_vma_intersection mm lo (hi + 4096) st = Some (NULL, ?st)"
    using f(1) by (auto simp: find_vma_intersection_def)
  have "hi - lo \<noteq> 0" "unat lo + unat (hi - lo) < 2 ^ 32" using ob(3) u unat_le_max_word32 [of hi] by auto
  then obtain st' xs' where s': "do_brk fuel lo (hi - lo) ?st = Some (lo, st')" "mm_inv mm st' xs'" "cur_mm st' = mm"
     "\<And>a t. maps (vma_at st') (set xs') a t \<longleftrightarrow>
        (if lo \<le> a \<and> a < lo + (hi - lo) then t = attr (vma_at st x) a else maps (vma_at st) (set xs) a t)"
    using do_brk_extends [of mm ?st xs "hi - lo" "hi - lo" lo fuel extra sl1 x] mm f(2) ps pal(1) cnt al x
    by (auto simp: brk_flags_def)
  define st2 where "st2 = upd_mm mm (\<lambda>m. m\<lparr>mm_brk := brk\<rparr>) st'"
  have "sys_brk fuel brk st = Some (brk, st2)"
    using brk ob isect s'(1) by (auto simp: sys_brk_def Let_def mm [symmetric] st2_def not_less [symmetric] dest: not_le_imp_less)
  moreover have "mm_inv mm st2 xs'"
    by (rule mm_inv_cong [OF s'(2)]) (use s'(2) in \<open>auto simp: st2_def mm_inv_def\<close>)
  ultimately show ?thesis using s'(4) by (intro exI [of _ st2] exI [of _ xs']) (auto simp: st2_def)
qed

theorem sys_brk_grows_witness:
  "\<exists>st' xs'. sys_brk (Suc 0) 0x5800 demo_vm = Some (0x5800, st') \<and> mm_inv 0x50 st' xs' \<and> mm_brk (mm_at st' 0x50) = 0x5800 \<and>
     (\<forall>a t. maps (vma_at st') (set xs') a t \<longleftrightarrow>
        (if 0x4000 \<le> a \<and> a < 0x6000 then t = attr (vma_at demo_vm 0x30005020) a
         else maps (vma_at demo_vm) (set [0x30005020]) a t))"
  by (rule sys_brk_grows [OF _ demo_vm_inv _ _ _ _ _ _ _ demo_vm_alloc])
    (simp_all add: PAGE_ALIGN_def demo_vm_slabs brk_flags_def VM_DATA_DEFAULT_FLAGS_def VM_LOCKED_def, simp_all add: demo_vm_def)

text \<open>C37. The page operations return. A page fault, releasing a page, clearing a range of a page table and releasing the
  tables of a non-empty range all terminate, whatever the tables and the free lists hold.\<close>

theorem page_operations_return:
  "(\<exists>r. handle_mm_fault np flags prot pgd a w z rss s = Some r) \<and> (\<exists>s'. free_pages a 0 s = Some s') \<and>
   (\<exists>r. zap_page_range pgd a n rss s = Some r) \<and> (nr \<noteq> 0 \<longrightarrow> (\<exists>s'. clear_page_tables pgd first nr s = Some s'))"
  using handle_mm_fault_total free_pages_total zap_page_range_total clear_tables_loop_total
  unfolding clear_page_tables_def by (intro conjI) metis+

theorem page_operations_return_witness:
  "\<exists>s'. clear_page_tables 0x30008000 1 2 demo_page_pg = Some s'"
  using page_operations_return [where nr = 2] by auto

end
