(* ===== verification/Inet.thy ===== *)
theory Inet
  imports Prelude
begin

text \<open>
  Byte order and checksum of the network code (\<^verbatim>\<open>src/net/inet/inet.c\<close>). The contents of a packet
  buffer are a function from offsets to bytes; the packed header structures of the sources are read
  and written through the little-endian loads and stores of the ARM target. The checksum is
  compared with the end-around-carry sum of the Internet protocols.
\<close>

section \<open>Packet buffers\<close>

type_synonym pkt = "nat \<Rightarrow> byte"

definition ld16 :: "pkt \<Rightarrow> nat \<Rightarrow> u16" where
  "ld16 p i = ucast (p i) OR push_bit 8 (ucast (p (i + 1)))"

definition st16 :: "nat \<Rightarrow> u16 \<Rightarrow> pkt \<Rightarrow> pkt" where
  "st16 i v p = p(i := ucast v, i + 1 := ucast (drop_bit 8 v))"

definition ld32 :: "pkt \<Rightarrow> nat \<Rightarrow> u32" where
  "ld32 p i = ucast (ld16 p i) OR push_bit 16 (ucast (ld16 p (i + 2)))"

definition st32 :: "nat \<Rightarrow> u32 \<Rightarrow> pkt \<Rightarrow> pkt" where
  "st32 i v p = st16 (i + 2) (ucast (drop_bit 16 v)) (st16 i (ucast v) p)"

definition ldn :: "pkt \<Rightarrow> nat \<Rightarrow> nat \<Rightarrow> byte list" where
  "ldn p i n = map (\<lambda>k. p (i + k)) [0..<n]"

definition stn :: "nat \<Rightarrow> byte list \<Rightarrow> pkt \<Rightarrow> pkt" where
  "stn i bs p = (\<lambda>k. if i \<le> k \<and> k < i + length bs then bs ! (k - i) else p k)"

section \<open>Byte order\<close>

definition checkCPUendian :: bool where
  "checkCPUendian \<longleftrightarrow> (0x12 :: byte) = ucast (0x12345678 :: u32)"

definition BigLittleSwap16 :: "u16 \<Rightarrow> u16" where
  "BigLittleSwap16 n = push_bit 8 (n AND 0xff) OR drop_bit 8 (n AND 0xff00)"

definition BigLittleSwap32 :: "u32 \<Rightarrow> u32" where
  "BigLittleSwap32 a =
     drop_bit 24 (a AND 0xff000000) OR drop_bit 8 (a AND 0x00ff0000) OR
     push_bit 8 (a AND 0x0000ff00) OR push_bit 24 (a AND 0x000000ff)"

definition htons :: "u16 \<Rightarrow> u16" where
  "htons h = (if checkCPUendian then h else BigLittleSwap16 h)"

definition htonl :: "u32 \<Rightarrow> u32" where
  "htonl h = (if checkCPUendian then h else BigLittleSwap32 h)"

definition ntohl :: "u32 \<Rightarrow> u32" where
  "ntohl n = (if checkCPUendian then n else BigLittleSwap32 n)"

definition ntohs :: "u16 \<Rightarrow> u16" where
  "ntohs n = (if checkCPUendian then n else BigLittleSwap16 n)"

section \<open>Checksum\<close>

fun chksum_loop :: "pkt \<Rightarrow> nat \<Rightarrow> nat \<Rightarrow> u32 \<Rightarrow> u32 \<times> nat \<times> nat" where
  "chksum_loop p tmp sz cksum =
     (if sz > 1 then chksum_loop p (tmp + 2) (sz - 2) (cksum + ucast (ld16 p tmp))
      else (cksum, tmp, sz))"

declare chksum_loop.simps [simp del]

definition inet_chksum :: "pkt \<Rightarrow> nat \<Rightarrow> u16 \<Rightarrow> u16" where
  "inet_chksum p buffer sz =
     (let (c0, tmp, left) = chksum_loop p buffer (unat sz) 0;
          c1 = (if left \<noteq> 0 then c0 + ucast (ld16 p tmp) else c0);
          c2 = drop_bit 16 c1 + (c1 AND 0xffff);
          c3 = c2 + drop_bit 16 c2
      in ucast (NOT c3))"

text \<open>The pseudo header is written into the twelve bytes in front of the transport header, over the
  end of the IP header.\<close>

definition inet_check :: "u32 \<Rightarrow> u32 \<Rightarrow> nat \<Rightarrow> u16 \<Rightarrow> byte \<Rightarrow> pkt \<Rightarrow> u16 \<times> pkt" where
  "inet_check sip dip buffer sz proto p =
     (let phead = buffer - 12;
          p1 = st32 phead sip p;
          p2 = st32 (phead + 4) dip p1;
          p3 = p2(phead + 8 := 0);
          p4 = p3(phead + 9 := proto);
          p5 = st16 (phead + 10) (htons sz) p4
      in (inet_chksum p5 phead (12 + sz), p5))"

section \<open>Loads after stores\<close>

lemma ld16_st16 [simp]: "ld16 (st16 i v p) i = v"
  by (rule bit_word_eqI) (auto simp: ld16_def st16_def bit_simps)

lemma ld16_st16_other [simp]: "i + 2 \<le> j \<or> j + 2 \<le> i \<Longrightarrow> ld16 (st16 i v p) j = ld16 p j"
  by (auto simp: ld16_def st16_def)

lemma ld32_st32 [simp]: "ld32 (st32 i v p) i = v"
proof -
  have "ld32 (st32 i v p) i = ucast (ucast v :: u16) OR push_bit 16 (ucast (ucast (drop_bit 16 v) :: u16))"
    by (simp add: ld32_def st32_def)
  also have "\<dots> = v" by (rule bit_word_eqI) (auto simp: bit_simps)
  finally show ?thesis .
qed

lemma st16_byte: "st16 i v p k = (if k = i then ucast v else if k = i + 1 then ucast (drop_bit 8 v) else p k)"
  by (simp add: st16_def)

lemma st32_other: "k < i \<or> i + 4 \<le> k \<Longrightarrow> st32 i v p k = p k"
  by (auto simp: st32_def st16_def)

lemma st16_other: "k < i \<or> i + 2 \<le> k \<Longrightarrow> st16 i v p k = p k"
  by (auto simp: st16_def)

lemma stn_other: "k < i \<or> i + length bs \<le> k \<Longrightarrow> stn i bs p k = p k"
  by (auto simp: stn_def)

lemma ldn_stn [simp]: "ldn (stn i bs p) i (length bs) = bs"
  by (auto simp: ldn_def stn_def intro: nth_equalityI)

lemma length_ldn [simp]: "length (ldn p i n) = n"
  by (simp add: ldn_def)

lemma ld16_cong: "p i = q i \<Longrightarrow> p (i + 1) = q (i + 1) \<Longrightarrow> ld16 p i = ld16 q i"
  by (simp add: ld16_def)

lemma ldn_cong: "(\<And>k. i \<le> k \<Longrightarrow> k < i + n \<Longrightarrow> p k = q k) \<Longrightarrow> ldn p i n = ldn q i n"
  by (simp add: ldn_def)

section \<open>Conversions\<close>

lemma byte_masks:
  "(0xff :: u16) = mask 8" "(0xff00 :: u16) = push_bit 8 (mask 8)"
  "(0xff :: u32) = mask 8" "(0xff00 :: u32) = push_bit 8 (mask 8)"
  "(0xff0000 :: u32) = push_bit 16 (mask 8)" "(0xff000000 :: u32) = push_bit 24 (mask 8)"
  by (simp_all add: mask_eq_exp_minus_1 push_bit_eq_mult)

lemma bit_swap16:
  "k < 8 \<Longrightarrow> bit (BigLittleSwap16 n) k = bit n (k + 8)"
  "8 \<le> k \<Longrightarrow> k < 16 \<Longrightarrow> bit (BigLittleSwap16 n) k = bit n (k - 8)"
  unfolding BigLittleSwap16_def byte_masks by (auto simp: bit_simps add.commute)

lemma swap16_swap16: "BigLittleSwap16 (BigLittleSwap16 n) = n"
proof (rule bit_word_eqI)
  fix k assume "k < LENGTH(16)"
  then have "k < 8 \<or> 8 \<le> k \<and> k < 16" by auto
  then show "bit (BigLittleSwap16 (BigLittleSwap16 n)) k = bit n k" by (auto simp: bit_swap16)
qed

lemma bit_swap32:
  "k < 8 \<Longrightarrow> bit (BigLittleSwap32 n) k = bit n (k + 24)"
  "8 \<le> k \<Longrightarrow> k < 16 \<Longrightarrow> bit (BigLittleSwap32 n) k = bit n (k + 8)"
  "16 \<le> k \<Longrightarrow> k < 24 \<Longrightarrow> bit (BigLittleSwap32 n) k = bit n (k - 8)"
  "24 \<le> k \<Longrightarrow> k < 32 \<Longrightarrow> bit (BigLittleSwap32 n) k = bit n (k - 24)"
  unfolding BigLittleSwap32_def byte_masks by (auto simp: bit_simps add.commute)

lemma swap32_swap32: "BigLittleSwap32 (BigLittleSwap32 n) = n"
proof (rule bit_word_eqI)
  fix k assume "k < LENGTH(32)"
  then have "k < 32" by simp
  then consider "k < 8" | "8 \<le> k" "k < 16" | "16 \<le> k" "k < 24" | "24 \<le> k" "k < 32" by linarith
  then show "bit (BigLittleSwap32 (BigLittleSwap32 n)) k = bit n k"
    by cases (simp_all add: bit_swap32)
qed

lemma not_big_endian [simp]: "\<not> checkCPUendian"
  by (simp add: checkCPUendian_def)

lemma byte_order_inverse [simp]:
  "ntohs (htons h) = h" "htons (ntohs h) = h" "ntohl (htonl a) = a" "htonl (ntohl a) = a"
  by (simp_all add: ntohs_def htons_def ntohl_def htonl_def swap16_swap16 swap32_swap32)

lemma htons_inj [simp]: "htons a = htons b \<longleftrightarrow> a = b"
  by (metis byte_order_inverse(1))

lemma network_order:
  "st16 i (htons v) p i = ucast (drop_bit 8 v)" "st16 i (htons v) p (i + 1) = ucast v"
  by (rule bit_word_eqI, simp add: st16_def htons_def bit_simps bit_swap16 add.commute)+

section \<open>The end-around-carry sum\<close>

definition oc_add :: "u16 \<Rightarrow> u16 \<Rightarrow> u16" where
  "oc_add a b = (if unat a + unat b < 2 ^ 16 then a + b else a + b + 1)"

definition oc_sum :: "u16 list \<Rightarrow> u16" where
  "oc_sum ws = fold oc_add ws 0"

definition nsum :: "u16 list \<Rightarrow> nat" where
  "nsum ws = sum_list (map unat ws)"

text \<open>Both sums are the same residue modulo 65535, with 0 only for the sum 0.\<close>

definition residue :: "nat \<Rightarrow> nat" where
  "residue n = (if n = 0 then 0 else (n - 1) mod 65535 + 1)"

lemma unat_u16: "unat (w :: u16) \<le> 65535"
proof -
  have "unat w < 2 ^ 16" using unsigned_less [of w] by simp
  then show ?thesis by simp
qed

lemma residue_le: "residue n \<le> 65535"
  using mod_less_divisor [of 65535 "n - 1"] by (simp add: residue_def del: mod_less_divisor)

lemma residue_add: "residue (residue m + n) = residue (m + n)"
proof (cases "m = 0 \<or> n = 0")
  case False
  then have m: "m \<noteq> 0" "0 < n" by auto
  have r: "residue m = (m - 1) mod 65535 + 1" unfolding residue_def if_not_P [OF m(1)] ..
  have "residue m + n \<noteq> 0" "residue m + n - 1 = (m - 1) mod 65535 + n" using m(2) r by simp_all
  then have "residue (residue m + n) = ((m - 1) mod 65535 + n) mod 65535 + 1"
    by (simp only: residue_def [of "residue m + n"] if_False)
  also have "\<dots> = (m - 1 + n) mod 65535 + 1" by (simp only: mod_add_left_eq)
  also have "\<dots> = residue (m + n)" using False unfolding residue_def by auto
  finally show ?thesis .
next
  case True
  then show ?thesis by (auto simp: residue_def)
qed

lemma residue_small: "n \<le> 65535 \<Longrightarrow> residue n = n"
  by (auto simp: residue_def)

lemma unat_oc_add: "unat (oc_add a b) = residue (unat a + unat b)"
proof -
  have ab: "unat a < 65536" "unat b < 65536" using unsigned_less [of a] unsigned_less [of b] by auto
  show ?thesis
  proof (cases "unat a + unat b < 2 ^ 16")
    case True
    then show ?thesis by (simp add: oc_add_def unat_word_ariths residue_small)
  next
    case False
    then have "unat (a + b + 1) = unat a + unat b - 65535"
      using ab by (auto simp: unat_word_ariths mod_if)
    moreover have "residue (unat a + unat b) = unat a + unat b - 65535"
      using False ab by (auto simp: residue_def mod_if)
    ultimately show ?thesis using False by (simp add: oc_add_def)
  qed
qed

lemma unat_oc_sum: "unat (oc_sum ws) = residue (nsum ws)"
proof -
  have "unat (fold oc_add ws a) = residue (unat a + nsum ws)" for a
  proof (induction ws arbitrary: a)
    case Nil
    show ?case using unat_u16 [of a] by (simp add: nsum_def residue_small)
  next
    case (Cons w ws)
    have "unat (fold oc_add (w # ws) a) = residue (residue (unat w + unat a) + nsum ws)"
      by (simp add: Cons unat_oc_add)
    also have "\<dots> = residue (unat w + unat a + nsum ws)" by (rule residue_add)
    finally show ?case by (simp add: nsum_def algebra_simps)
  qed
  from this [of 0] show ?thesis by (simp add: oc_sum_def)
qed

text \<open>Folding the carries of a 32-bit sum twice gives the residue.\<close>

lemma residue_mult_add: "residue (q * 65535 + t) = residue t" if "0 < t"
proof -
  have "residue (q * 65535 + t) = (q * 65535 + t - 1) mod 65535 + 1"
    using that unfolding residue_def by auto
  also have "q * 65535 + t - 1 = (t - 1) + 65535 * q" using that by simp
  also have "(t - 1 + 65535 * q) mod 65535 = (t - 1) mod 65535" by (rule mod_mult_self2)
  also have "(t - 1) mod 65535 + 1 = residue t" using that unfolding residue_def by auto
  finally show ?thesis .
qed

lemma fold_carries:
  assumes "n < 2 ^ 32" "t = n div 65536 + n mod 65536"
  shows "(t + t div 65536) mod 65536 = residue n"
proof (cases "n = 0")
  case False
  have n: "n = n div 65536 * 65535 + t" using assms(2) div_mult_mod_eq [of n 65536] by linarith
  have t: "0 < t"
  proof (rule ccontr)
    assume "\<not> 0 < t"
    then have "n div 65536 = 0" "n mod 65536 = 0" using assms(2) by simp_all
    with False div_mult_mod_eq [of n 65536] show False by simp
  qed
  have r: "residue n = residue t" using residue_mult_add [OF t, of "n div 65536"] n by simp
  have q: "n div 65536 < 65536" "n mod 65536 < 65536" using assms(1) by auto
  show ?thesis
  proof (cases "t < 65536")
    case True
    then have "(t + t div 65536) mod 65536 = t" "residue t = t" by (auto simp: residue_small)
    with r show ?thesis by simp
  next
    case f: False
    then have b: "t < 131071" using q assms(2) by linarith
    then have d: "t div 65536 = 1" using f by auto
    have "(t + 1) mod 65536 = t - 65535" using f b by (auto simp: mod_if)
    moreover have "residue t = t - 65535" using f b by (auto simp: residue_def mod_if)
    ultimately show ?thesis using d r by simp
  qed
qed (use assms in \<open>simp add: residue_def\<close>)

definition pkt_words :: "pkt \<Rightarrow> nat \<Rightarrow> nat \<Rightarrow> u16 list" where
  "pkt_words p i n = map (\<lambda>k. ld16 p (i + 2 * k)) [0..<n]"

lemma pkt_words_Suc: "pkt_words p i (Suc n) = ld16 p i # pkt_words p (i + 2) n"
  by (simp add: pkt_words_def upt_rec [of 0 "Suc n"] map_Suc_upt [symmetric] comp_def del: upt_Suc)

lemma pkt_words_snoc: "pkt_words p i (Suc n) = pkt_words p i n @ [ld16 p (i + 2 * n)]"
  by (simp add: pkt_words_def)

lemma chksum_loop_sum:
  "chksum_loop p i n c = (c + of_nat (nsum (pkt_words p i (n div 2))), i + 2 * (n div 2), n mod 2)"
proof (induction n arbitrary: i c rule: less_induct)
  case (less n)
  show ?case
  proof (cases "n > 1")
    case True
    define k where "k = n - 2"
    have n: "n = Suc (Suc k)" unfolding k_def using True by linarith
    have "chksum_loop p i n c = chksum_loop p (i + 2) k (c + ucast (ld16 p i))"
      by (subst chksum_loop.simps) (simp add: n)
    moreover have "\<dots> = (c + ucast (ld16 p i) + of_nat (nsum (pkt_words p (i + 2) (k div 2))), i + 2 + 2 * (k div 2), k mod 2)"
      by (rule less) (simp add: n)
    moreover have "of_nat (nsum (pkt_words p i (n div 2))) = (ucast (ld16 p i) + of_nat (nsum (pkt_words p (i + 2) (k div 2))) :: u32)"
      by (simp add: n pkt_words_Suc nsum_def)
    ultimately show ?thesis by (simp add: n)
  next
    case False
    then have "n = 0 \<or> n = 1" by linarith
    then show ?thesis by (subst chksum_loop.simps) (auto simp: pkt_words_def nsum_def)
  qed
qed

lemma nsum_le: "nsum ws \<le> length ws * 65535"
proof (induction ws)
  case (Cons w ws)
  with unat_u16 [of w] show ?case by (simp add: nsum_def)
qed (simp add: nsum_def)

lemma unat_inet_chksum:
  "inet_chksum p i n = NOT (oc_sum (pkt_words p i ((unat n + 1) div 2)))"
proof -
  define ws where "ws = pkt_words p i ((unat n + 1) div 2)"
  define S where "S = nsum ws"
  have "unat n < 65536" using unsigned_less [of n] by simp
  then have "length ws \<le> 32768" by (simp add: ws_def pkt_words_def)
  then have S: "S < 2 ^ 31" using nsum_le [of ws] by (simp add: S_def)
  define c1 :: u32 where "c1 = of_nat S"
  have c1: "unat c1 = S" using S by (simp add: c1_def unat_of_nat)
  have "(case chksum_loop p i (unat n) 0 of (c0, tmp, left) \<Rightarrow>
      if left \<noteq> 0 then c0 + ucast (ld16 p tmp) else c0) = c1"
  proof (cases "even (unat n)")
    case True
    then obtain b where "unat n = 2 * b" by (elim evenE)
    then show ?thesis by (simp add: chksum_loop_sum c1_def S_def ws_def)
  next
    case False
    then obtain b where "unat n = 2 * b + 1" by (elim oddE)
    then show ?thesis by (simp add: chksum_loop_sum c1_def S_def ws_def nsum_def pkt_words_snoc)
  qed
  then have e: "inet_chksum p i n = ucast (NOT (drop_bit 16 c1 + (c1 AND 0xffff) + drop_bit 16 (drop_bit 16 c1 + (c1 AND 0xffff))))"
    by (auto simp: inet_chksum_def Let_def split: prod.splits)
  define t where "t = S div 65536 + S mod 65536"
  have m: "c1 AND 0xffff = take_bit 16 c1" by (simp add: take_bit_eq_mask mask_eq_exp_minus_1)
  have t: "t < 2 ^ 18" using S by (simp add: t_def)
  have c2: "drop_bit 16 c1 + (c1 AND 0xffff) = of_nat t"
  proof -
    have "drop_bit 16 c1 = of_nat (S div 65536)" using drop_of_nat [of S 16] S by (simp add: c1_def)
    moreover have "take_bit 16 c1 = of_nat (S mod 65536)"
      by (simp add: word_unat_eq_iff unsigned_take_bit_eq c1) (simp add: take_bit_eq_mod unat_of_nat)
    ultimately show ?thesis unfolding m t_def by (simp only: of_nat_add)
  qed
  have d: "drop_bit 16 (of_nat t :: u32) = of_nat (t div 65536)"
    using drop_of_nat [of t 16] t by simp
  have nt: "(ucast (NOT x) :: u16) = NOT (ucast x)" for x :: u32
    by (rule bit_word_eqI) (auto simp: bit_simps)
  have "inet_chksum p i n = NOT (ucast (of_nat (t + t div 65536) :: u32))"
    unfolding e c2 d nt by simp
  moreover have "(ucast (of_nat (t + t div 65536) :: u32) :: u16) = oc_sum ws"
  proof -
    have low: "x < 2 ^ 32 \<Longrightarrow> unat (ucast (of_nat x :: u32) :: u16) = x mod 65536" for x
      by (simp add: unsigned_ucast_eq unat_of_nat take_bit_eq_mod)
    have "t + t div 65536 < 2 ^ 32" using t by auto
    from low [OF this] have "unat (ucast (of_nat (t + t div 65536) :: u32) :: u16) = (t + t div 65536) mod 65536" .
    also have "\<dots> = residue S" by (rule fold_carries) (use S t_def in auto)
    also have "\<dots> = unat (oc_sum ws)" by (simp add: unat_oc_sum S_def)
    finally show ?thesis by (simp add: word_unat_eq_iff)
  qed
  ultimately show ?thesis by (simp add: ws_def)
qed

section \<open>Properties\<close>

text \<open>C17. The checksum routine computes the complement of the end-around-carry sum of the 16-bit
  words of the buffer, as the Internet protocols define it, for every buffer size; a buffer of odd
  size is summed with the byte that follows it.\<close>

theorem inet_chksum_is_ones_complement_sum:
  "inet_chksum p buffer n = NOT (oc_sum (pkt_words p buffer ((unat n + 1) div 2)))"
  by (rule unat_inet_chksum)

section \<open>Verification of a checksum\<close>

lemma nsum_append: "nsum (xs @ ys) = nsum xs + nsum ys"
  by (simp add: nsum_def)

text \<open>A word of the summed range that was 0 while the sum was taken and then received the
  complement makes the range sum to all ones.\<close>

lemma residue_complement: "residue (n + (65535 - residue n)) = 65535"
proof (cases "n = 0")
  case False
  define q where "q = (n - 1) div 65535"
  have "n - 1 = q * 65535 + (n - 1) mod 65535" unfolding q_def by (rule div_mult_mod_eq [symmetric])
  moreover have "residue n = (n - 1) mod 65535 + 1" using False unfolding residue_def by simp
  ultimately have "n + (65535 - residue n) = q * 65535 + 65535"
    using False residue_le [of n] by linarith
  then show ?thesis using residue_mult_add [of 65535 q] by (simp add: residue_small)
qed (simp add: residue_def)

lemma pkt_words_split:
  assumes "k < n"
  shows "pkt_words p i n = pkt_words p i k @ ld16 p (i + 2 * k) # pkt_words p (i + 2 * Suc k) (n - Suc k)"
proof -
  obtain d where n: "n = k + Suc d" using assms less_imp_Suc_add [of k n] by auto
  have "pkt_words p i (k + Suc d) = pkt_words p i k @ pkt_words p (i + 2 * k) (Suc d)" for d
    by (induction k arbitrary: i) (simp_all add: pkt_words_Suc pkt_words_def [of _ _ 0] algebra_simps)
  then show ?thesis by (simp add: n pkt_words_Suc)
qed

lemma pkt_words_cong: "(\<And>j. i \<le> j \<Longrightarrow> j < i + 2 * n \<Longrightarrow> p j = q j) \<Longrightarrow> pkt_words p i n = pkt_words q i n"
  by (auto simp: pkt_words_def intro!: ld16_cong)

lemma chksum_verifies:
  assumes k: "2 * k + 1 < unat n" and z: "ld16 p (i + 2 * k) = 0"
  shows "inet_chksum (st16 (i + 2 * k) (inet_chksum p i n) p) i n = 0"
proof -
  define m where "m = (unat n + 1) div 2"
  define c where "c = inet_chksum p i n"
  define q where "q = st16 (i + 2 * k) c p"
  have km: "k < m" using k by (simp add: m_def)
  let ?ws = "pkt_words p i m"
  have c: "c = NOT (oc_sum ?ws)" by (simp add: c_def m_def unat_inet_chksum)
  have uc: "unat c = 65535 - residue (nsum ?ws)"
  proof -
    have "c = - 1 - oc_sum ?ws" by (simp add: c not_eq_complement)
    then have "unat c = unat (- 1 :: u16) - unat (oc_sum ?ws)" by (simp add: unat_sub)
    then show ?thesis by (simp add: unat_oc_sum unsigned_minus_1_eq_mask mask_eq_exp_minus_1)
  qed
  have same: "pkt_words q i k = pkt_words p i k"
    "pkt_words q (i + 2 * Suc k) (m - Suc k) = pkt_words p (i + 2 * Suc k) (m - Suc k)"
    by (rule pkt_words_cong, simp add: q_def st16_def)+
  have "nsum (pkt_words q i m) = nsum ?ws + unat c"
    unfolding pkt_words_split [OF km] same using z by (simp add: q_def nsum_def)
  then have "unat (oc_sum (pkt_words q i m)) = 65535"
    using residue_complement [of "nsum ?ws"] by (simp add: unat_oc_sum uc)
  then have "oc_sum (pkt_words q i m) = - 1"
    by (simp add: word_unat_eq_iff unsigned_minus_1_eq_mask mask_eq_exp_minus_1)
  then show ?thesis by (simp add: unat_inet_chksum m_def q_def c_def)
qed

end
