(* ===== verification/Net.thy ===== *)
theory Net
  imports Inet Sched "HOL-Library.Monad_Syntax"
begin

text \<open>
  The lower half of the network stack: socket buffers (\<^verbatim>\<open>src/net/socket.c\<close>), the device queue
  (\<^verbatim>\<open>src/net/netif.c\<close>), the transmit half of the DM9000 driver
  (\<^verbatim>\<open>src/driver/net/DM9000.c\<close>), address resolution (\<^verbatim>\<open>src/net/inet/arp.c\<close>) and
  the sending half of IP and ICMP (\<^verbatim>\<open>src/net/inet/ip.c\<close>, \<^verbatim>\<open>icmp.c\<close>). The state
  extends that of the scheduler, so that critical sections, timers, ticks and wake-ups are the ones
  of the theories below. The queues of socket buffers are HOL lists under the name of their head,
  as the interface of the intrusive list allows; a head that was zeroed is \<open>None\<close>. The
  results of \<^verbatim>\<open>kmalloc\<close> are a parameter of the state: the n-th allocation returns
  \<open>km n\<close>, and every buffer it returns is zeroed.
\<close>

section \<open>Constants\<close>

definition MAX_SKB_NUM :: nat where "MAX_SKB_NUM = 5000"
definition MAX_ARP_TABLE_NUM :: nat where "MAX_ARP_TABLE_NUM = 256"
definition IP_FRAG_LIST_HEAD_NUM :: nat where "IP_FRAG_LIST_HEAD_NUM = 32"
definition ENETUNREACH :: int where "ENETUNREACH = 101"
definition EIO :: int where "EIO = 5"
definition EPROTONOSUPPORT :: int where "EPROTONOSUPPORT = 93"
definition ENOTSOCK :: int where "ENOTSOCK = 88"
definition ECONNRESET :: int where "ECONNRESET = 104"
definition ETIMEDOUT :: int where "ETIMEDOUT = 110"
definition EBADF :: int where "EBADF = 9"
definition EAGAIN :: int where "EAGAIN = 11"
definition EFAULT :: int where "EFAULT = 14"
definition ENOENT :: int where "ENOENT = 2"
definition ETH_P_IP :: u16 where "ETH_P_IP = 0x0800"
definition ETH_P_ARP :: u16 where "ETH_P_ARP = 0x0806"
definition ARP_REQ :: u16 where "ARP_REQ = 1"
definition ARP_RSP :: u16 where "ARP_RSP = 2"
definition ARP_HW_TYPE_ETH :: u16 where "ARP_HW_TYPE_ETH = 1"
definition PROTO_ICMP :: byte where "PROTO_ICMP = 1"
definition PROTO_TCP :: byte where "PROTO_TCP = 6"
definition PROTO_UDP :: byte where "PROTO_UDP = 17"
definition ICMP_ER :: byte where "ICMP_ER = 0"
definition IP_MF :: u16 where "IP_MF = 0x2000"
definition IP_FRAG_MASK :: u16 where "IP_FRAG_MASK = 0x1fff"
definition IP_FRAG_LIFETIME :: u32 where "IP_FRAG_LIFETIME = 100"
definition IP_TICKS :: u32 where "IP_TICKS = 10"
definition NETDEV_TX_BUSY :: int where "NETDEV_TX_BUSY = 1"

text \<open>Offsets of the packed headers in a frame: the Ethernet header has 14 bytes, the IP header 20.\<close>

definition OFFSET_IPHDR :: nat where "OFFSET_IPHDR = 14"
definition OFFSET_IPDATA :: nat where "OFFSET_IPDATA = 34"

section \<open>State\<close>

record sk_buff =
  use_flag :: byte
  data_buf :: addr
  sdata :: pkt
  data_len :: u16
  sk_timeout :: u32
  sk_ndev :: addr

definition zero_skb :: sk_buff where
  "zero_skb = \<lparr>use_flag = 0, data_buf = NULL, sdata = (\<lambda>_. 0), data_len = 0, sk_timeout = 0, sk_ndev = NULL\<rparr>"

record net_device =
  nd_state :: u32
  macaddr :: "byte list"
  nd_ip :: u32
  nd_mtu :: u16

record arp_table =
  a_mac :: "byte list"
  a_ip :: u32
  a_ndev :: addr

record ipfrag =
  f_id :: u16
  current_len :: u16
  original_len :: u16
  f_timeout :: u32

text \<open>The heads of the lists that socket buffers are linked into.\<close>

datatype qhead = RxQ | ArpQ | TxQ addr | FragQ nat | RecvQ addr | SendQ addr | AckQ addr

text \<open>The chip: the frames written into its transmit memory and the lengths of the transmissions
  requested so far.\<close>

record net = sched +
  skb_at :: "addr \<Rightarrow> sk_buff"
  SKB :: "nat \<Rightarrow> addr"
  queue :: "qhead \<Rightarrow> addr list option"
  km :: "nat \<Rightarrow> addr"
  km_n :: nat
  ndev_at :: "addr \<Rightarrow> net_device"
  net_device_head :: "addr list"
  rx_wq :: addr
  ARP_TABLE :: "nat \<Rightarrow> arp_table"
  arp_send_q_timer :: addr
  ip_data_id :: u16
  ip_frag_list_head :: "nat \<Rightarrow> ipfrag"
  ip_timer :: addr
  tx_pkt_cnt :: u32
  queue_pkt_len :: u32
  chip_frames :: "byte list list"
  chip_requests :: "u32 list"

abbreviation upd_skb :: "addr \<Rightarrow> (sk_buff \<Rightarrow> sk_buff) \<Rightarrow> 'a net_scheme \<Rightarrow> 'a net_scheme" where
  "upd_skb k f s \<equiv> s\<lparr>skb_at := (skb_at s)(k := f (skb_at s k))\<rparr>"

abbreviation upd_data :: "addr \<Rightarrow> (pkt \<Rightarrow> pkt) \<Rightarrow> 'a net_scheme \<Rightarrow> 'a net_scheme" where
  "upd_data k f s \<equiv> upd_skb k (\<lambda>e. e\<lparr>sdata := f (sdata e)\<rparr>) s"

abbreviation pdata :: "'a net_scheme \<Rightarrow> addr \<Rightarrow> pkt" where
  "pdata s k \<equiv> sdata (skb_at s k)"

definition net_kmalloc :: "'a net_scheme \<Rightarrow> addr \<times> 'a net_scheme" where
  "net_kmalloc s = (km s (km_n s), s\<lparr>km_n := km_n s + 1\<rparr>)"

section \<open>Queues\<close>

definition q_elems :: "qhead \<Rightarrow> 'a net_scheme \<Rightarrow> addr list" where
  "q_elems q s = (case queue s q of None \<Rightarrow> [] | Some xs \<Rightarrow> xs)"

definition q_init :: "qhead \<Rightarrow> 'a net_scheme \<Rightarrow> 'a net_scheme" where
  "q_init q s = s\<lparr>queue := (queue s)(q := Some [])\<rparr>"

definition q_add_tail :: "addr \<Rightarrow> qhead \<Rightarrow> 'a net_scheme \<Rightarrow> 'a net_scheme" where
  "q_add_tail k q s = s\<lparr>queue := (queue s)(q := map_option (\<lambda>xs. xs @ [k]) (queue s q))\<rparr>"

definition q_del :: "addr \<Rightarrow> 'a net_scheme \<Rightarrow> 'a net_scheme" where
  "q_del k s = s\<lparr>queue := (\<lambda>q. map_option (remove1 k) (queue s q))\<rparr>"

section \<open>Socket buffers\<close>

definition alloc_skbuff :: "u16 \<Rightarrow> 'a net_scheme \<Rightarrow> addr \<times> 'a net_scheme" where
  "alloc_skbuff len s =
     (case find (\<lambda>i. use_flag (skb_at s (SKB s i)) = 0) [0..<MAX_SKB_NUM] of
        None \<Rightarrow> (NULL, s)
      | Some i \<Rightarrow>
          let k = SKB s i;
              (buf, s1) = net_kmalloc (enter_critical s);
              s2 = upd_skb k (\<lambda>e. e\<lparr>data_buf := buf, sdata := (\<lambda>_. 0)\<rparr>) s1
          in if buf = NULL then (NULL, exit_critical s2)
             else (k, exit_critical (upd_skb k (\<lambda>e. e\<lparr>use_flag := 1\<rparr>) s2)))"

definition free_skbuff :: "addr \<Rightarrow> 'a net_scheme \<Rightarrow> 'a net_scheme" where
  "free_skbuff k s =
     (if k = NULL then s
      else let s1 = q_del k s in s1\<lparr>skb_at := (skb_at s1)(k := zero_skb)\<rparr>)"

definition free_all_skb :: "qhead \<Rightarrow> 'a net_scheme \<Rightarrow> 'a net_scheme" where
  "free_all_skb q s = fold free_skbuff (q_elems q s) s"

section \<open>Device queue and driver\<close>

definition netif_stop_queue :: "addr \<Rightarrow> 'a net_scheme \<Rightarrow> 'a net_scheme" where
  "netif_stop_queue nd s = s\<lparr>ndev_at := (ndev_at s)(nd := (ndev_at s nd)\<lparr>nd_state := nd_state (ndev_at s nd) OR 1\<rparr>)\<rparr>"

definition xoff :: "'a net_scheme \<Rightarrow> addr \<Rightarrow> bool" where
  "xoff s nd \<longleftrightarrow> nd_state (ndev_at s nd) AND 1 \<noteq> 0"

definition DM9000_sendPcket :: "addr \<Rightarrow> addr \<Rightarrow> 'a net_scheme \<Rightarrow> int \<times> 'a net_scheme" where
  "DM9000_sendPcket k nd s =
     (let datas = pdata s k;
          len = (ucast (data_len (skb_at s k)) :: u32)
      in if tx_pkt_cnt s > 1 then (NETDEV_TX_BUSY, s)
         else
           let s1 = enter_critical s;
               s2 = s1\<lparr>tx_pkt_cnt := tx_pkt_cnt s1 + 1,
                       chip_frames := chip_frames s1 @ [ldn datas 0 (2 * ((unat len + 1) div 2))]\<rparr>;
               s3 = (if tx_pkt_cnt s2 = 1 then s2\<lparr>chip_requests := chip_requests s2 @ [len]\<rparr>
                     else netif_stop_queue nd (s2\<lparr>queue_pkt_len := len\<rparr>))
           in (0, free_skbuff k (exit_critical s3)))"

definition netif_schedule :: "addr \<Rightarrow> 'a net_scheme \<Rightarrow> 'a net_scheme" where
  "netif_schedule nd s =
     (case q_elems (TxQ nd) s of
        [] \<Rightarrow> s
      | k # _ \<Rightarrow> if xoff s nd then s else snd (DM9000_sendPcket k nd s))"

definition netif_wake_queue :: "addr \<Rightarrow> 'a net_scheme \<Rightarrow> 'a net_scheme" where
  "netif_wake_queue nd s =
     netif_schedule nd
       (s\<lparr>ndev_at := (ndev_at s)(nd := (ndev_at s nd)\<lparr>nd_state := nd_state (ndev_at s nd) AND NOT 1\<rparr>)\<rparr>)"

definition netif_tx_queue :: "addr \<Rightarrow> addr \<Rightarrow> 'a net_scheme \<Rightarrow> int \<times> 'a net_scheme" where
  "netif_tx_queue nd k s =
     (if xoff s nd then (0, q_add_tail k (TxQ nd) s) else DM9000_sendPcket k nd s)"

text \<open>The transmit interrupt; \<open>nsr\<close> is what the chip's status register reads.\<close>

definition dm9000_tx_done :: "u16 \<Rightarrow> addr \<Rightarrow> 'a net_scheme \<Rightarrow> 'a net_scheme" where
  "dm9000_tx_done nsr nd s =
     (if nsr AND 0xc \<noteq> 0
      then let s1 = s\<lparr>tx_pkt_cnt := tx_pkt_cnt s - 1\<rparr>;
               s2 = (if tx_pkt_cnt s1 > 0 then s1\<lparr>chip_requests := chip_requests s1 @ [queue_pkt_len s1 AND 0xffff]\<rparr> else s1)
           in netif_wake_queue nd s2
      else s)"

definition netif_rx :: "addr \<Rightarrow> 'a net_scheme \<Rightarrow> 'a net_scheme option" where
  "netif_rx k s =
     (if check_addr k \<and> check_addr (data_buf (skb_at s k))
      then Some (wake_up_interruptible (rx_wq s) (q_add_tail k RxQ s)) else None)"

text \<open>One frame out of the chip's receive memory: the two reads of the ready flag, the status, the
  length and the words of the frame are what the chip returns. A frame that is too long or cannot
  be stored stops the machine; a frame with an error status is drained word by word, where every
  word read replaces the length.\<close>

fun drain_loop :: "u16 list \<Rightarrow> nat \<Rightarrow> u16 \<Rightarrow> u16" where
  "drain_loop [] i len = len"
| "drain_loop (w # ws) i len = (if i < unat len then drain_loop ws (i + 2) w else len)"

definition fill_words :: "u16 list \<Rightarrow> nat \<Rightarrow> pkt \<Rightarrow> pkt" where
  "fill_words ws n p = fold (\<lambda>i. st16 (2 * i) (ws ! i)) [0..<n] p"

definition receivepacket ::
  "byte \<Rightarrow> byte \<Rightarrow> u16 \<Rightarrow> u16 \<Rightarrow> u16 list \<Rightarrow> addr \<Rightarrow> 'a net_scheme \<Rightarrow> (u16 \<times> 'a net_scheme) option" where
  "receivepacket ready1 ready2 status len ws nd s =
     (if ready1 \<noteq> 1 \<and> ready2 AND 1 \<noteq> 1 then Some (0, s)
      else if drop_bit 8 status AND 0xbf \<noteq> 0 then Some (drain_loop ws 0 len, s)
      else if len \<le> 1522
      then let (k, s1) = alloc_skbuff len s
           in if k = NULL then None
              else let s2 = upd_skb k (\<lambda>e. e\<lparr>sk_ndev := nd, data_len := len,
                              sdata := fill_words ws ((unat len + 1) div 2) (sdata e)\<rparr>) s1
                   in map_option (Pair len) (netif_rx k s2)
      else None)"

section \<open>Address resolution\<close>

definition search_arp_table :: "u32 \<Rightarrow> 'a net_scheme \<Rightarrow> nat option" where
  "search_arp_table ip s = find (\<lambda>i. a_ip (ARP_TABLE s i) = ip) [0..<MAX_ARP_TABLE_NUM]"

definition add_arp_table :: "byte list \<Rightarrow> u32 \<Rightarrow> addr \<Rightarrow> 'a net_scheme \<Rightarrow> int \<times> 'a net_scheme" where
  "add_arp_table mac ip nd s =
     (if ip = 0 then (- EINVAL, s)
      else case search_arp_table ip s of
        Some _ \<Rightarrow> (0, s)
      | None \<Rightarrow>
          (case find (\<lambda>i. a_ip (ARP_TABLE s i) = 0) [0..<MAX_ARP_TABLE_NUM] of
             None \<Rightarrow> (- ENOMEM, s)
           | Some i \<Rightarrow> (0, s\<lparr>ARP_TABLE := (ARP_TABLE s)(i := \<lparr>a_mac = mac, a_ip = ip, a_ndev = nd\<rparr>)\<rparr>)))"

definition arp_send_q_step :: "addr \<Rightarrow> 'a net_scheme \<Rightarrow> 'a net_scheme" where
  "arp_send_q_step k s =
     (case search_arp_table (ld32 (pdata s k) (OFFSET_IPHDR + 16)) s of
        Some i \<Rightarrow>
          let s1 = q_del k s;
              s2 = upd_data k (stn 0 (a_mac (ARP_TABLE s i))) s1
          in snd (netif_tx_queue (a_ndev (ARP_TABLE s i)) k s2)
      | None \<Rightarrow>
          let s1 = upd_skb k (\<lambda>e. if sk_timeout e \<noteq> 0 then e\<lparr>sk_timeout := sk_timeout e - 1\<rparr> else e) s
          in if sk_timeout (skb_at s1 k) = 0 then free_skbuff k s1 else s1)"

definition arp_send_q :: "'a net_scheme \<Rightarrow> 'a net_scheme" where
  "arp_send_q s = fold arp_send_q_step (q_elems ArpQ s) s"

definition arp_queue_tick :: "'a net_scheme \<Rightarrow> 'a net_scheme option" where
  "arp_queue_tick s =
     (let s1 = arp_send_q s
      in if q_elems ArpQ s1 \<noteq> [] then map_option snd (mod_timer (arp_send_q_timer s1) 5 s1) else Some s1)"

definition add_skb_to_arp_send_q :: "addr \<Rightarrow> 'a net_scheme \<Rightarrow> 'a net_scheme option" where
  "add_skb_to_arp_send_q k s =
     (let s1 = q_add_tail k ArpQ (upd_skb k (\<lambda>e. e\<lparr>sk_timeout := 20\<rparr>) s)
      in map_option snd (mod_timer (arp_send_q_timer s1) 5 s1))"

definition arp_request_frame :: "u32 \<Rightarrow> net_device \<Rightarrow> pkt \<Rightarrow> pkt" where
  "arp_request_frame ip nd p =
     (let bc = replicate 6 (0xff :: byte);
          p1 = st16 12 (htons ETH_P_ARP) (stn 6 (macaddr nd) (stn 0 bc p));
          p2 = st32 28 (htonl (nd_ip nd)) (st32 38 ip p1);
          p3 = st16 16 (htons ETH_P_IP) (st16 20 (htons ARP_REQ) p2);
          p4 = st16 14 (htons ARP_HW_TYPE_ETH) (p3(18 := 6, 19 := 4))
      in stn 32 bc (stn 22 (macaddr nd) p4))"

definition arp_send_request :: "u32 \<Rightarrow> addr \<Rightarrow> 'a net_scheme \<Rightarrow> int \<times> 'a net_scheme" where
  "arp_send_request ip nd s =
     (let (k, s1) = alloc_skbuff 128 s
      in if k = NULL then (- ENOMEM, s1)
         else let s2 = upd_data k (arp_request_frame ip (ndev_at s1 nd)) s1;
                  s3 = upd_skb k (\<lambda>e. e\<lparr>data_len := 42\<rparr>) s2
              in netif_tx_queue nd k s3)"

text \<open>\<open>ret\<close> is the value of the local variable that the default case never assigns.\<close>

definition arp_reply_frame :: "net_device \<Rightarrow> pkt \<Rightarrow> pkt" where
  "arp_reply_frame nd p =
     (let p1 = stn 0 (ldn p 22 6) p;
          p2 = st16 12 (htons ETH_P_ARP) (stn 6 (macaddr nd) p1);
          p3 = stn 32 (ldn p2 22 6) (st16 20 (htons ARP_RSP) p2);
          p4 = stn 22 (macaddr nd) p3
      in st32 28 (htonl (nd_ip nd)) (st32 38 (ld32 p4 28) p4))"

definition arp_process :: "int \<Rightarrow> addr \<Rightarrow> 'a net_scheme \<Rightarrow> int \<times> 'a net_scheme" where
  "arp_process ret k s =
     (let p = pdata s k; nd = sk_ndev (skb_at s k)
      in if ntohs (ld16 p 20) = ARP_REQ
         then let (r, s1) = add_arp_table (ldn p 22 6) (ld32 p 28) nd s;
                  s2 = (if ntohl (ld32 p 38) = nd_ip (ndev_at s1 nd)
                        then snd (netif_tx_queue nd k
                               (upd_skb k (\<lambda>e. e\<lparr>data_len := 42\<rparr>) (upd_data k (arp_reply_frame (ndev_at s1 nd)) s1)))
                        else free_skbuff k s1)
              in (r, arp_send_q s2)
         else if ntohs (ld16 p 20) = ARP_RSP
         then let (r, s1) = add_arp_table (ldn p 22 6) (ld32 p 28) nd s
              in (r, arp_send_q (free_skbuff k s1))
         else (ret, free_skbuff k s))"

definition updata_arp_table :: "addr \<Rightarrow> 'a net_scheme \<Rightarrow> 'a net_scheme" where
  "updata_arp_table k s =
     (let p = pdata s k
      in if ntohs (ld16 p 12) = ETH_P_IP
         then (case search_arp_table (ld32 p (OFFSET_IPHDR + 12)) s of
                 Some _ \<Rightarrow> s
               | None \<Rightarrow> snd (add_arp_table (ldn p 6 6) (ld32 p (OFFSET_IPHDR + 12)) (sk_ndev (skb_at s k)) s))
         else s)"

definition arp_init :: "'a net_scheme \<Rightarrow> (int \<times> 'a net_scheme) option" where
  "arp_init s = (let s1 = q_init ArpQ s in add_timer (arp_send_q_timer s1) s1)"

section \<open>Sending IP datagrams\<close>

definition register_netdev :: "addr \<Rightarrow> 'a net_scheme \<Rightarrow> int \<times> 'a net_scheme" where
  "register_netdev nd s = (0, s\<lparr>net_device_head := nd # net_device_head s\<rparr>)"

definition return_ndev :: "'a net_scheme \<Rightarrow> addr" where
  "return_ndev s = (case net_device_head s of [] \<Rightarrow> NULL | nd # _ \<Rightarrow> nd)"

definition ip_route :: "u32 \<Rightarrow> 'a net_scheme \<Rightarrow> addr" where
  "ip_route dest s = return_ndev s"

definition ip_do_send :: "addr \<Rightarrow> u32 \<Rightarrow> byte \<Rightarrow> addr \<Rightarrow> 'a net_scheme \<Rightarrow> (int \<times> 'a net_scheme) option" where
  "ip_do_send k dest proto nd s =
     (let s1 = upd_skb k (\<lambda>e. e\<lparr>sk_ndev := nd\<rparr>) s
      in case search_arp_table dest s1 of
           None \<Rightarrow>
             let (ret, s2) = arp_send_request dest nd s1
             in if ret < 0 then Some (ret, s2)
                else map_option (Pair 0) (add_skb_to_arp_send_q k s2)
         | Some i \<Rightarrow>
             let s2 = upd_data k (\<lambda>p. st16 12 (htons ETH_P_IP) (stn 6 (macaddr (ndev_at s1 nd))
                                    (stn 0 (a_mac (ARP_TABLE s1 i)) p))) s1
             in Some (netif_tx_queue nd k s2))"

text \<open>The header fields in the order the source writes them; the checksum covers the 20 bytes of the
  header with the field zeroed.\<close>

definition ip_header :: "u32 \<Rightarrow> u32 \<Rightarrow> byte \<Rightarrow> u16 \<Rightarrow> u16 \<Rightarrow> pkt \<Rightarrow> pkt" where
  "ip_header daddr saddr proto ident tot_len p =
     (let h = OFFSET_IPHDR;
          p1 = st32 (h + 16) daddr p;
          p2 = st32 (h + 12) saddr p1;
          p3 = p2(h + 9 := proto, h + 8 := 128, h + 1 := 0);
          p4 = st16 (h + 4) ident p3;
          p5 = p4(h := 0x45);
          p6 = st16 (h + 2) tot_len p5;
          p7 = st16 (h + 10) 0 p6
      in st16 (h + 10) (inet_chksum p7 h 20) p7)"

partial_function (option) ip_fragment_loop ::
  "addr \<Rightarrow> u32 \<Rightarrow> byte \<Rightarrow> addr \<Rightarrow> u16 \<Rightarrow> u16 \<Rightarrow> 'a net_scheme \<Rightarrow> (int \<times> 'a net_scheme) option" where
  "ip_fragment_loop k dest proto nd total_len fragoff s =
     (if total_len = 0 then Some (0, free_skbuff k s)
      else
        let mtu = nd_mtu (ndev_at s nd); (kn, s1) = alloc_skbuff mtu s
        in if kn = NULL then Some (- ENOMEM, free_skbuff k s1)
           else
             let room = ucast ((ucast mtu - 34 :: u32) div 8) * 8;
                 ip_data_len = (if room > total_len then total_len else room);
                 src = pdata s1 k;
                 p1 = stn OFFSET_IPDATA (ldn src (OFFSET_IPDATA + unat fragoff) (unat ip_data_len)) (pdata s1 kn);
                 total' = total_len - ip_data_len;
                 foff = htons (if total' \<noteq> 0 then drop_bit 3 fragoff OR IP_MF else drop_bit 3 fragoff);
                 p2 = st16 (OFFSET_IPHDR + 6) foff p1;
                 p3 = ip_header dest (htonl (nd_ip (ndev_at s1 nd))) proto (htons (ip_data_id s1)) (htons (ip_data_len + 20)) p2;
                 s2 = upd_skb kn (\<lambda>e. e\<lparr>sdata := p3, data_len := ip_data_len + 34\<rparr>) s1
             in do {
                  (ret, s3) \<leftarrow> ip_do_send kn dest proto nd s2;
                  if ret < 0 then Some (- EIO, free_skbuff k s3)
                  else ip_fragment_loop k dest proto nd total' (fragoff + ip_data_len) s3
                })"

definition ip_fragment :: "addr \<Rightarrow> u32 \<Rightarrow> byte \<Rightarrow> addr \<Rightarrow> 'a net_scheme \<Rightarrow> (int \<times> 'a net_scheme) option" where
  "ip_fragment k dest proto nd s =
     (let s1 = s\<lparr>ip_data_id := ip_data_id s + 1\<rparr>;
          dl = data_len (skb_at s1 k);
          s2 = upd_data k (st16 (OFFSET_IPHDR + 2) (htons (dl - 14))) s1
      in ip_fragment_loop k dest proto nd (dl - 34) 0 s2)"

definition ip_send :: "addr \<Rightarrow> u32 \<Rightarrow> byte \<Rightarrow> 'a net_scheme \<Rightarrow> (int \<times> 'a net_scheme) option" where
  "ip_send k dest proto s =
     (let nd = ip_route dest s
      in if nd = NULL then Some (- ENETUNREACH, s)
         else
           let s1 = upd_skb k (\<lambda>e. e\<lparr>sk_ndev := nd\<rparr>) s
           in if data_len (skb_at s1 k) > nd_mtu (ndev_at s1 nd) then ip_fragment k dest proto nd s1
              else
                let s2 = s1\<lparr>ip_data_id := ip_data_id s1 + 1\<rparr>;
                    s3 = upd_data k (ip_header dest (htonl (nd_ip (ndev_at s2 nd))) proto (htons (ip_data_id s2))
                           (htons (data_len (skb_at s2 k) - 14))) s2
                in ip_do_send k dest proto nd s3)"

section \<open>ICMP\<close>

definition icmp_send :: "addr \<Rightarrow> u32 \<Rightarrow> byte \<Rightarrow> byte \<Rightarrow> u16 \<Rightarrow> 'a net_scheme \<Rightarrow> (int \<times> 'a net_scheme) option" where
  "icmp_send k dest type code len s =
     (let h = OFFSET_IPDATA;
          s1 = upd_data k (\<lambda>p. let p1 = st16 (h + 2) 0 (p(h + 1 := code, h := type))
                               in st16 (h + 2) (inet_chksum p1 h (8 + len)) p1) s
      in ip_send k dest PROTO_ICMP s1)"

definition icmp_process :: "addr \<Rightarrow> 'a net_scheme \<Rightarrow> (int \<times> 'a net_scheme) option" where
  "icmp_process k s =
     (let p = pdata s k;
          tot = ntohs (ld16 p (OFFSET_IPHDR + 2));
          s1 = upd_skb k (\<lambda>e. e\<lparr>data_len := tot + 14\<rparr>) s
      in icmp_send k (ld32 p (OFFSET_IPHDR + 12)) ICMP_ER 0 (tot - 20 - 8) s1)"

end
