(* ===== verification/Tcp.thy ===== *)
theory Tcp
  imports Net Completion
begin

text \<open>
  TCP (\<^verbatim>\<open>src/net/inet/tcp.c\<close>) and the Internet sockets it works on
  (\<^verbatim>\<open>src/net/inet/inet_socket.c\<close>): segmentation and the send window, the retransmission and
  acknowledgement timer, building and parsing of headers and options, the receive queue, and the
  connection state machine. The segments of a send window are owned by it, so its three lists hold
  the segments themselves; the sockets on the active, listening and UDP queues are addresses. A
  function that waits returns \<open>Blocked\<close> where the source would sleep.
\<close>

section \<open>Constants and state\<close>

datatype tcp_status = CLOSED | LISTEN | SYN_SENT | SYN_RCVD | ESTABLISHED | FIN_WAIT_1 | FIN_WAIT_2
  | CLOSE_WAIT | CLOSING | LAST_ACK | TIME_WAIT

definition TCP_SEG_TIMEOUT_FLAG :: u32 where "TCP_SEG_TIMEOUT_FLAG = 1"
definition TCP_SEG_SEND_RETRIES :: u16 where "TCP_SEG_SEND_RETRIES = 10"
definition TCP_RETRY_TIMES :: u16 where "TCP_RETRY_TIMES = 10"
definition SYN_RCVD_HOLDING_TIME :: u32 where "SYN_RCVD_HOLDING_TIME = 1000"
definition TCP_FIN_WAIT_TIME :: u32 where "TCP_FIN_WAIT_TIME = 500"
definition OFFSET_TCPHDR :: nat where "OFFSET_TCPHDR = 34"
definition OFFSET_TCPOPT :: nat where "OFFSET_TCPOPT = 54"
definition INET_PROTO_TCP :: byte where "INET_PROTO_TCP = 6"
definition INET_PROTO_UDP :: byte where "INET_PROTO_UDP = 17"

record tcp_seg =
  seg_data :: "byte list"
  seg_send_seq :: u32
  seg_len :: u16
  seg_retries :: u16
  expected_ack :: u32

record i_socket =
  recv_data_len :: u32
  read_ptr :: u16
  i_backlog :: int
  i_errno :: int
  wq_priv :: addr
  sack :: byte
  mss :: u16
  rto :: u32
  rtt :: u32
  window :: u16
  window_shift :: u32
  tot_size :: u32
  used_size :: u32
  w_wait :: "tcp_seg list"
  w_ready :: "tcp_seg list"
  w_wait_ack :: "tcp_seg list"
  i_flags :: u32
  status :: tcp_status
  local_ip :: u32
  remote_ip :: u32
  local_port :: u16
  remote_port :: u16
  i_timeout :: u16
  retries :: u16
  max_ack_backlog :: byte
  ack_backlog :: byte
  received_ack :: u32
  ack_seq :: u32
  send_seq :: u32
  i_prot_opt :: nat
  i_socket_of :: addr

definition zero_isk :: i_socket where
  "zero_isk = \<lparr>recv_data_len = 0, read_ptr = 0, i_backlog = 0, i_errno = 0, wq_priv = NULL, sack = 0, mss = 0,
     rto = 0, rtt = 0, window = 0, window_shift = 0, tot_size = 0, used_size = 0, w_wait = [], w_ready = [],
     w_wait_ack = [], i_flags = 0, status = CLOSED, local_ip = 0, remote_ip = 0, local_port = 0, remote_port = 0,
     i_timeout = 0, retries = 0, max_ack_backlog = 0, ack_backlog = 0, received_ack = 0, ack_seq = 0, send_seq = 0,
     i_prot_opt = 0, i_socket_of = NULL\<rparr>"

record inetst = net +
  isk_at :: "addr \<Rightarrow> i_socket"
  active_queue :: "addr list"
  listen_queue :: "addr list"
  udp_queue :: "addr list"
  tcp_port :: u16
  udp_port :: u16
  tcp_timer_fn :: addr

abbreviation upd_isk :: "addr \<Rightarrow> (i_socket \<Rightarrow> i_socket) \<Rightarrow> 'a inetst_scheme \<Rightarrow> 'a inetst_scheme" where
  "upd_isk i f s \<equiv> s\<lparr>isk_at := (isk_at s)(i := f (isk_at s i))\<rparr>"

definition isk_timer :: "addr \<Rightarrow> addr" where
  "isk_timer i = i + 160"

text \<open>Unlinking a socket from whatever queue it is on.\<close>

definition isk_list_del :: "addr \<Rightarrow> 'a inetst_scheme \<Rightarrow> 'a inetst_scheme" where
  "isk_list_del i s = s\<lparr>active_queue := remove1 i (active_queue s), listen_queue := remove1 i (listen_queue s),
     udp_queue := remove1 i (udp_queue s)\<rparr>"

section \<open>Internet sockets\<close>

definition alloc_isocket :: "'a inetst_scheme \<Rightarrow> addr \<times> 'a inetst_scheme" where
  "alloc_isocket s =
     (let (i, s1) = net_kmalloc s
      in if i = NULL then (NULL, s1)
         else (i, q_init (RecvQ i) (q_init (SendQ i) (q_init (AckQ i) (s1\<lparr>isk_at := (isk_at s1)(i := zero_isk)\<rparr>)))))"

definition free_isock :: "addr \<Rightarrow> 'a inetst_scheme \<Rightarrow> 'a inetst_scheme option" where
  "free_isock i s =
     (let s1 = isk_list_del i s;
          s2 = free_all_skb (RecvQ i) s1;
          s3 = free_all_skb (SendQ i) s2;
          s4 = free_all_skb (AckQ i) s3
      in do {
           s5 \<leftarrow> del_timer (isk_timer i) s4;
           Some (s5\<lparr>isk_at := (isk_at s5)(i := zero_isk),
                    queue := (queue s5)(RecvQ i := None, SendQ i := None, AckQ i := None)\<rparr>)
         })"

section \<open>Header fields\<close>

definition doff :: "pkt \<Rightarrow> nat" where
  "doff p = unat (drop_bit 4 (p (OFFSET_TCPHDR + 12)))"

definition set_doff :: "nat \<Rightarrow> pkt \<Rightarrow> pkt" where
  "set_doff n p = p(OFFSET_TCPHDR + 12 := (p (OFFSET_TCPHDR + 12) AND 0x0f) OR push_bit 4 (of_nat n))"

definition tcp_flag :: "nat \<Rightarrow> pkt \<Rightarrow> bool" where
  "tcp_flag n p = bit (p (OFFSET_TCPHDR + 13)) n"

definition set_flag :: "nat \<Rightarrow> bool \<Rightarrow> pkt \<Rightarrow> pkt" where
  "set_flag n b p = p(OFFSET_TCPHDR + 13 :=
     (if b then p (OFFSET_TCPHDR + 13) OR push_bit n 1 else p (OFFSET_TCPHDR + 13) AND NOT (push_bit n 1)))"

abbreviation fin :: "pkt \<Rightarrow> bool" where "fin p \<equiv> tcp_flag 0 p"
abbreviation syn :: "pkt \<Rightarrow> bool" where "syn p \<equiv> tcp_flag 1 p"
abbreviation rst :: "pkt \<Rightarrow> bool" where "rst p \<equiv> tcp_flag 2 p"
abbreviation ack :: "pkt \<Rightarrow> bool" where "ack p \<equiv> tcp_flag 4 p"
abbreviation urg :: "pkt \<Rightarrow> bool" where "urg p \<equiv> tcp_flag 5 p"

definition th_source :: "pkt \<Rightarrow> u16" where "th_source p = ld16 p OFFSET_TCPHDR"
definition th_dest :: "pkt \<Rightarrow> u16" where "th_dest p = ld16 p (OFFSET_TCPHDR + 2)"
definition th_seq :: "pkt \<Rightarrow> u32" where "th_seq p = ld32 p (OFFSET_TCPHDR + 4)"
definition th_ack_seq :: "pkt \<Rightarrow> u32" where "th_ack_seq p = ld32 p (OFFSET_TCPHDR + 8)"
definition th_window :: "pkt \<Rightarrow> u16" where "th_window p = ld16 p (OFFSET_TCPHDR + 14)"

definition tcp_get_data_lenght :: "pkt \<Rightarrow> u16" where
  "tcp_get_data_lenght p = ntohs (ld16 p (OFFSET_IPHDR + 2)) - 20 - of_nat (doff p * 4)"

definition tcp_get_ackseq :: "pkt \<Rightarrow> u32" where
  "tcp_get_ackseq p = htonl (th_seq p) + (ucast (ntohs (ld16 p (OFFSET_IPHDR + 2))) - 20 - of_nat (doff p * 4))"

definition tcp_get_data_off :: "pkt \<Rightarrow> nat" where
  "tcp_get_data_off p = OFFSET_TCPHDR + doff p * 4"

section \<open>Ports and lookup\<close>

definition tcp_get_an_unused_port :: "'a inetst_scheme \<Rightarrow> u16 \<times> 'a inetst_scheme" where
  "tcp_get_an_unused_port s = (tcp_port s, s\<lparr>tcp_port := tcp_port s + 1\<rparr>)"

definition tcp_generate_a_seq :: u32 where
  "tcp_generate_a_seq = 0x1234"

definition tcp_get_mss :: u16 where
  "tcp_get_mss = 1460"

definition tcp_find_sock :: "addr \<Rightarrow> 'a inetst_scheme \<Rightarrow> addr" where
  "tcp_find_sock k s =
     (let p = pdata s k
      in if ack p
         then (case find (\<lambda>i. remote_ip (isk_at s i) = ntohl (ld32 p (OFFSET_IPHDR + 12)) \<and>
                            remote_port (isk_at s i) = ntohs (th_source p)) (active_queue s) of
                 None \<Rightarrow> NULL | Some i \<Rightarrow> i)
         else if syn p
         then (case find (\<lambda>i. local_ip (isk_at s i) = ntohl (ld32 p (OFFSET_IPHDR + 16)) \<and>
                            local_port (isk_at s i) = ntohs (th_dest p)) (listen_queue s) of
                 None \<Rightarrow> NULL | Some i \<Rightarrow> i)
         else NULL)"

section \<open>Building segments\<close>

definition tcp_select_window :: "addr \<Rightarrow> 'a inetst_scheme \<Rightarrow> u16 \<times> 'a inetst_scheme" where
  "tcp_select_window i s =
     (let w = window (isk_at s i);
          w' = (if w = 0 then 4096 else if w < 40960 then w + 4096 else w)
      in (w', upd_isk i (\<lambda>e. e\<lparr>window := w'\<rparr>) s))"

definition tcp_build_header ::
  "addr \<Rightarrow> addr \<Rightarrow> u16 \<Rightarrow> u16 \<Rightarrow> u32 \<Rightarrow> u32 \<Rightarrow> bool \<Rightarrow> bool \<Rightarrow> bool \<Rightarrow> 'a inetst_scheme \<Rightarrow> 'a inetst_scheme" where
  "tcp_build_header k i source dest seq ackseq fack fsyn ffin s =
     (if k = NULL \<or> i = NULL then s
      else
        let h = OFFSET_TCPHDR; (w, s1) = tcp_select_window i s
        in upd_data k (\<lambda>p.
             let p1 = set_flag 4 fack (st16 (h + 2) dest (st16 h source p));
                 p2 = st32 (h + 8) (htonl ackseq) (st32 (h + 4) (htonl seq) p1);
                 p3 = st16 (h + 14) (htons w) p2
             in set_flag 0 ffin (set_flag 1 fsyn p3)) s1)"

definition tcp_options :: "bool \<Rightarrow> u32 \<Rightarrow> bool \<Rightarrow> bool \<Rightarrow> bool \<Rightarrow> u32 \<Rightarrow> u32 \<Rightarrow> u32 \<Rightarrow> u32 list" where
  "tcp_options if_mss v_mss if_ts if_sack if_wscale wscale tstamp ts_recent =
     (if if_mss then [push_bit 24 2 OR push_bit 16 4 OR v_mss] else []) @
     (if if_ts
      then [if if_sack then push_bit 24 4 OR push_bit 16 2 OR push_bit 8 8 OR 10
            else push_bit 24 1 OR push_bit 16 1 OR push_bit 8 8 OR 10, tstamp, ts_recent]
      else if if_sack then [push_bit 24 1 OR push_bit 16 1 OR push_bit 8 4 OR 2] else []) @
     (if if_wscale then [push_bit 24 1 OR push_bit 16 3 OR push_bit 8 3 OR wscale] else [])"

fun put_options :: "nat \<Rightarrow> u32 list \<Rightarrow> pkt \<Rightarrow> pkt" where
  "put_options i [] p = p"
| "put_options i (v # vs) p = put_options (i + 4) vs (st32 i (htonl v) p)"

definition tcp_build_options ::
  "addr \<Rightarrow> bool \<Rightarrow> u32 \<Rightarrow> bool \<Rightarrow> bool \<Rightarrow> bool \<Rightarrow> u32 \<Rightarrow> u32 \<Rightarrow> u32 \<Rightarrow> 'a inetst_scheme \<Rightarrow> 'a inetst_scheme" where
  "tcp_build_options k if_mss v_mss if_ts if_sack if_wscale wscale tstamp ts_recent s =
     (let vs = tcp_options if_mss v_mss if_ts if_sack if_wscale wscale tstamp ts_recent
      in upd_data k (\<lambda>p. set_doff ((20 + 4 * length vs) div 4) (put_options OFFSET_TCPOPT vs p)) s)"

text \<open>The checksum over the pseudo header, which overwrites the end of the IP header, and the segment.\<close>

definition tcp_set_check :: "addr \<Rightarrow> u32 \<Rightarrow> u32 \<Rightarrow> u16 \<Rightarrow> 'a inetst_scheme \<Rightarrow> 'a inetst_scheme" where
  "tcp_set_check k src dest sz s =
     upd_data k (\<lambda>p.
       let (c, p1) = inet_check src dest OFFSET_TCPHDR sz INET_PROTO_TCP (st16 (OFFSET_TCPHDR + 16) 0 p)
       in st16 (OFFSET_TCPHDR + 16) c p1) s"

section \<open>Sending\<close>

definition alloc_tcp_seg :: "'a inetst_scheme \<Rightarrow> bool \<times> 'a inetst_scheme" where
  "alloc_tcp_seg s =
     (let (a, s1) = net_kmalloc s
      in if a = NULL then (False, s1)
         else let (d, s2) = net_kmalloc s1 in (d \<noteq> NULL, s2))"

definition queue_seg :: "addr \<Rightarrow> tcp_seg \<Rightarrow> 'a inetst_scheme \<Rightarrow> 'a inetst_scheme" where
  "queue_seg i g s =
     upd_isk i (\<lambda>e.
       if used_size e + ucast (seg_len g) \<le> tot_size e
       then e\<lparr>w_ready := w_ready e @ [g], used_size := used_size e + ucast (seg_len g)\<rparr>
       else e\<lparr>w_wait := w_wait e @ [g]\<rparr>) s"

partial_function (option) tcp_do_segment ::
  "addr \<Rightarrow> byte list \<Rightarrow> 'a inetst_scheme \<Rightarrow> (int \<times> 'a inetst_scheme) option" where
  "tcp_do_segment i buf s =
     (if buf = [] then Some (0, s)
      else
        let m = unat (mss (isk_at s i));
            n = (if length buf \<ge> m then m else length buf);
            (ok, s1) = alloc_tcp_seg s
        in if \<not> ok then Some (- ENOMEM, s1)
           else
             let sq = send_seq (isk_at s1 i);
                 g = \<lparr>seg_data = take n buf, seg_send_seq = sq, seg_len = of_nat n,
                      seg_retries = TCP_SEG_SEND_RETRIES, expected_ack = sq + of_nat n\<rparr>;
                 s2 = upd_isk i (\<lambda>e. e\<lparr>send_seq := send_seq e + of_nat n\<rparr>) s1
             in tcp_do_segment i (drop n buf) (queue_seg i g s2))"

definition tcp_send_seg :: "addr \<Rightarrow> tcp_seg \<Rightarrow> 'a inetst_scheme \<Rightarrow> (int \<times> 'a inetst_scheme) option" where
  "tcp_send_seg i g s =
     (let (k, s1) = alloc_skbuff (14 + 20 + 60 + seg_len g) s
      in if k = NULL then Some (- ENOMEM, s1)
         else
           let e = isk_at s1 i;
               s2 = tcp_build_header k i (htons (local_port e)) (htons (remote_port e)) (seg_send_seq g) (ack_seq e) True False False s1;
               s3 = tcp_build_options k False 0 False False False 0 0 0 s2;
               d = doff (pdata s3 k);
               s4 = upd_skb k (\<lambda>b. b\<lparr>data_len := 34 + of_nat (d * 4) + seg_len g\<rparr>) s3;
               s5 = upd_data k (stn (34 + d * 4) (seg_data g)) s4;
               s6 = tcp_set_check k (htonl (local_ip e)) (htonl (remote_ip e)) (of_nat (d * 4) + seg_len g) s5
           in ip_send k (htonl (remote_ip e)) PROTO_TCP s6)"

text \<open>The first loop moves waiting segments that fit; the second sends the ready ones in order and stops
  at the first that cannot be sent.\<close>

fun window_admit :: "tcp_seg list \<Rightarrow> i_socket \<Rightarrow> i_socket" where
  "window_admit [] e = e"
| "window_admit (g # gs) e =
     (if tot_size e - used_size e \<ge> ucast (seg_len g)
      then window_admit gs (e\<lparr>w_wait := gs, w_ready := w_ready e @ [g], used_size := used_size e + ucast (seg_len g)\<rparr>)
      else e)"

fun window_send :: "addr \<Rightarrow> tcp_seg list \<Rightarrow> 'a inetst_scheme \<Rightarrow> 'a inetst_scheme option" where
  "window_send i [] s = Some s"
| "window_send i (g # gs) s = do {
     (ret, s1) \<leftarrow> tcp_send_seg i g s;
     if ret < 0 then Some s1
     else window_send i gs (upd_isk i (\<lambda>e. e\<lparr>w_ready := gs, w_wait_ack := w_wait_ack e @ [g]\<rparr>) s1)
   }"

definition tcp_process_send_window :: "addr \<Rightarrow> 'a inetst_scheme \<Rightarrow> 'a inetst_scheme option" where
  "tcp_process_send_window i s =
     (if i_flags (isk_at s i) AND TCP_SEG_TIMEOUT_FLAG \<noteq> 0 then Some s
      else let s1 = upd_isk i (\<lambda>e. window_admit (w_wait e) e) s
           in window_send i (w_ready (isk_at s1 i)) s1)"

definition tcp_send_syn :: "addr \<Rightarrow> 'a inetst_scheme \<Rightarrow> (int \<times> 'a inetst_scheme) option" where
  "tcp_send_syn i s =
     (let (k, s1) = alloc_skbuff 74 s
      in if k = NULL then Some (- ENOMEM, s1)
         else
           let seq = tcp_generate_a_seq;
               s2 = upd_isk i (\<lambda>e. e\<lparr>send_seq := seq\<rparr>) s1;
               e = isk_at s2 i;
               s3 = tcp_build_header k i (htons (local_port e)) (htons (remote_port e)) (htonl seq) 0 False True False s2;
               s4 = tcp_build_options k True 1460 False True False 0 0 0 s3;
               d = doff (pdata s4 k);
               s5 = upd_skb k (\<lambda>b. b\<lparr>data_len := 34 + of_nat (d * 4)\<rparr>) s4;
               s6 = tcp_set_check k (htonl (local_ip e)) (htonl (remote_ip e)) (of_nat (d * 4)) s5
           in ip_send k (htonl (remote_ip e)) PROTO_TCP s6)"

text \<open>\<open>tcph\<close> is the header being answered, \<open>now\<close> whether the acknowledgement goes out at once.\<close>

definition tcp_send_ack ::
  "addr \<Rightarrow> pkt \<Rightarrow> u32 \<Rightarrow> u32 \<Rightarrow> bool \<Rightarrow> bool \<Rightarrow> bool \<Rightarrow> 'a inetst_scheme \<Rightarrow> (int \<times> 'a inetst_scheme) option" where
  "tcp_send_ack i tcph seq ackseq fsyn ffin now s =
     (if i = NULL then Some (- ENOTSOCK, s)
      else
        let (k, s1) = alloc_skbuff 94 s
        in if k = NULL then Some (- ENOMEM, s1)
           else
             let e = isk_at s1 i;
                 s2 = tcp_build_header k i (th_dest tcph) (th_source tcph) seq ackseq True fsyn ffin s1;
                 s3 = (if fsyn then tcp_build_options k True (ucast tcp_get_mss) False True False 0 0 0 s2
                       else tcp_build_options k False 0 True False False 0 0x1234 0x5678 s2);
                 d = doff (pdata s3 k);
                 s4 = upd_skb k (\<lambda>b. b\<lparr>data_len := 34 + of_nat (d * 4)\<rparr>) s3;
                 s5 = tcp_set_check k (htonl (local_ip e)) (htonl (remote_ip e)) (of_nat (d * 4)) s4
             in if now then ip_send k (htonl (remote_ip e)) PROTO_TCP s5
                else Some (0, upd_isk i (\<lambda>e. e\<lparr>ack_backlog := ack_backlog e + 1\<rparr>) (q_add_tail k (AckQ i) s5)))"

definition tcp_send_fin :: "addr \<Rightarrow> u32 \<Rightarrow> u32 \<Rightarrow> int" where
  "tcp_send_fin i seq ackseq = 0"

section \<open>Options of a received segment\<close>

fun skip_nops :: "pkt \<Rightarrow> nat \<Rightarrow> nat \<Rightarrow> nat \<times> nat" where
  "skip_nops p ptr 0 = (ptr, 0)"
| "skip_nops p ptr (Suc n) = (if p ptr = 1 then skip_nops p (ptr + 1) n else (ptr, Suc n))"

partial_function (option) tcp_opt_loop :: "pkt \<Rightarrow> nat \<Rightarrow> int \<Rightarrow> i_socket \<Rightarrow> i_socket option" where
  "tcp_opt_loop p ptr len e =
     (if len > 0
      then let (ptr1, n) = skip_nops p ptr (nat len)
           in if n = 0 then Some e
              else let opt_code = p ptr1; opt_size = unat (p (ptr1 + 1))
                   in if opt_code = 0 then Some e
                      else tcp_opt_loop p (ptr1 + opt_size) (int n - int opt_size)
                             (if opt_code = 2 then e\<lparr>mss := ntohs (ld16 p (ptr1 + 2))\<rparr>
                              else if opt_code = 4 then e\<lparr>sack := 1\<rparr>
                              else if opt_code = 3 then e\<lparr>window_shift := ucast (p (ptr1 + 2))\<rparr>
                              else e)
      else Some e)"

definition tcp_set_options :: "addr \<Rightarrow> addr \<Rightarrow> 'a inetst_scheme \<Rightarrow> 'a inetst_scheme option" where
  "tcp_set_options i k s =
     (let p = pdata s k
      in map_option (\<lambda>e. s\<lparr>isk_at := (isk_at s)(i := e)\<rparr>)
           (tcp_opt_loop p OFFSET_TCPOPT (int (doff p * 4) - 20) (isk_at s i)))"

section \<open>Timer\<close>

definition tcp_if_timeout :: "i_socket \<Rightarrow> u32 \<Rightarrow> 'a inetst_scheme \<Rightarrow> bool" where
  "tcp_if_timeout e time s \<longleftrightarrow> (OS_TICKS s - ucast (i_timeout e)) * HZ > time"

definition isk_fail :: "addr \<Rightarrow> int \<Rightarrow> 'a inetst_scheme \<Rightarrow> 'a inetst_scheme option" where
  "isk_fail i err s = do {
     s1 \<leftarrow> del_timer (isk_timer i) s;
     Some (upd_isk i (\<lambda>e. e\<lparr>status := CLOSED, i_errno := err\<rparr>) s1)
   }"

definition tcp_syn_sent_timer :: "addr \<Rightarrow> 'a inetst_scheme \<Rightarrow> 'a inetst_scheme option" where
  "tcp_syn_sent_timer i s =
     (if retries (isk_at s i) \<noteq> 0
      then do {
        (ret, s1) \<leftarrow> tcp_send_syn i (upd_isk i (\<lambda>e. e\<lparr>retries := retries e - 1, i_timeout := ucast (OS_TICKS s)\<rparr>) s);
        if ret < 0 then isk_fail i ret s1
        else do {
          (ret, s2) \<leftarrow> mod_timer (isk_timer i) 20 s1;
          if ret < 0 then isk_fail i ret s2 else Some s2
        }
      }
      else isk_fail i (- ETIMEDOUT) s)"

definition tcp_fin_timer :: "addr \<Rightarrow> 'a inetst_scheme \<Rightarrow> 'a inetst_scheme option" where
  "tcp_fin_timer i s =
     (if tcp_if_timeout (isk_at s i) TCP_FIN_WAIT_TIME s
      then if retries (isk_at s i) = 0
           then free_isock i (upd_isk i (\<lambda>e. e\<lparr>i_errno := - ETIMEDOUT, status := CLOSED\<rparr>) s)
           else let s1 = upd_isk i (\<lambda>e. e\<lparr>retries := retries e - 1, i_timeout := ucast (OS_TICKS s)\<rparr>) s
                in if tcp_send_fin i (send_seq (isk_at s1 i)) (ack_seq (isk_at s1 i)) < 0
                   then free_isock i (upd_isk i (\<lambda>e. e\<lparr>i_errno := - EIO, status := CLOSED\<rparr>) s1)
                   else Some s1
      else Some s)"

definition tcp_syn_rcvd_timer :: "addr \<Rightarrow> 'a inetst_scheme \<Rightarrow> 'a inetst_scheme option" where
  "tcp_syn_rcvd_timer i s =
     (if tcp_if_timeout (isk_at s i) SYN_RCVD_HOLDING_TIME s
      then do {
        s1 \<leftarrow> del_timer (isk_timer i) (upd_isk i (\<lambda>e. e\<lparr>status := LISTEN\<rparr>) s);
        let s2 = isk_list_del i s1;
        Some (s2\<lparr>listen_queue := listen_queue s2 @ [i]\<rparr>)
      }
      else Some s)"

text \<open>The handler of the connection's state, and whether the timer is armed again afterwards.\<close>

definition tcp_timer_state :: "addr \<Rightarrow> 'a inetst_scheme \<Rightarrow> (bool \<times> 'a inetst_scheme) option" where
  "tcp_timer_state i s =
     (case status (isk_at s i) of
        SYN_RCVD \<Rightarrow> map_option (Pair True) (tcp_syn_rcvd_timer i s)
      | SYN_SENT \<Rightarrow> map_option (Pair False) (tcp_syn_sent_timer i s)
      | ESTABLISHED \<Rightarrow> map_option (Pair True) (tcp_process_send_window i s)
      | FIN_WAIT_1 \<Rightarrow> map_option (Pair True) (tcp_fin_timer i s)
      | CLOSING \<Rightarrow> map_option (Pair True) (tcp_fin_timer i s)
      | LAST_ACK \<Rightarrow> map_option (Pair True) (tcp_fin_timer i s)
      | TIME_WAIT \<Rightarrow> map_option (Pair True) (free_isock i (upd_isk i (\<lambda>e. e\<lparr>i_errno := 0, status := CLOSED\<rparr>) s))
      | _ \<Rightarrow> Some (False, s))"

definition tcp_timer_entry :: "addr \<Rightarrow> 'a inetst_scheme \<Rightarrow> 'a inetst_scheme option" where
  "tcp_timer_entry i s =
     (if i = NULL then Some s
      else do {
        s1 \<leftarrow> (case q_elems (AckQ i) s of
                 [] \<Rightarrow> Some s
               | k # _ \<Rightarrow> map_option snd (ip_send k (htonl (remote_ip (isk_at s i))) PROTO_TCP
                            (upd_isk i (\<lambda>e. e\<lparr>ack_backlog := ack_backlog e - 1\<rparr>) (q_del k s))));
        (again, s2) \<leftarrow> tcp_timer_state i s1;
        if again then map_option snd (mod_timer (isk_timer i) 1 s2) else Some s2
      })"

section \<open>Acknowledgements and connection set-up\<close>

fun ack_segs :: "u32 \<Rightarrow> u16 \<Rightarrow> tcp_seg list \<Rightarrow> i_socket \<Rightarrow> i_socket" where
  "ack_segs received wnd [] e = e"
| "ack_segs received wnd (g # gs) e =
     (if expected_ack g \<le> received
      then ack_segs received wnd gs
             (e\<lparr>used_size := used_size e - ucast (seg_len g), tot_size := ucast (htons wnd)\<rparr>)
      else ack_segs received wnd gs (e\<lparr>w_wait_ack := w_wait_ack e @ [g]\<rparr>))"

definition tcp_ack_handler :: "addr \<Rightarrow> pkt \<Rightarrow> 'a inetst_scheme \<Rightarrow> int \<times> 'a inetst_scheme" where
  "tcp_ack_handler i tcph s =
     (let received = ntohl (th_ack_seq tcph);
          s1 = upd_isk i (\<lambda>e.
            if status e = LAST_ACK \<and> received = send_seq e + 1 then e\<lparr>i_errno := - ECONNRESET, status := CLOSED\<rparr>
            else if status e = FIN_WAIT_1 \<and> received = send_seq e + 1
            then e\<lparr>i_timeout := ucast (OS_TICKS s), status := FIN_WAIT_2\<rparr> else e) s;
          s2 = upd_isk i (\<lambda>e. if received_ack e < received then e\<lparr>received_ack := received\<rparr> else e) s1;
          s3 = enter_critical s2;
          s4 = upd_isk i (\<lambda>e. ack_segs received (th_window tcph) (w_wait_ack e)
                 (e\<lparr>i_flags := i_flags e AND NOT TCP_SEG_TIMEOUT_FLAG, w_wait_ack := []\<rparr>)) s3
      in (0, exit_critical s4))"

definition tcp_connect_request_handler :: "addr \<Rightarrow> addr \<Rightarrow> 'a inetst_scheme \<Rightarrow> (int \<times> 'a inetst_scheme) option" where
  "tcp_connect_request_handler k i s =
     (let p = pdata s k;
          s1 = upd_isk i (\<lambda>e. e\<lparr>received_ack := 0, send_seq := tcp_generate_a_seq,
                 remote_ip := ntohl (ld32 p (OFFSET_IPHDR + 12)), remote_port := ntohs (th_source p),
                 ack_seq := ntohl (th_seq p) + 1\<rparr>) s
      in do {
           s2 \<leftarrow> tcp_set_options i k s1;
           let t = isk_timer i;
           let s3 = upd_isk i (\<lambda>e. e\<lparr>tot_size := ucast (ntohs (th_window p))\<rparr>) s2;
           (r, s4) \<leftarrow> add_timer t (s3\<lparr>tm_data := (tm_data s3)(t := i), tm_expires := (tm_expires s3)(t := 3),
                         tm_function := (tm_function s3)(t := tcp_timer_fn s3)\<rparr>);
           let s5 = upd_isk i (\<lambda>e. e\<lparr>i_timeout := ucast (OS_TICKS s4)\<rparr>) s4;
           (r, s6) \<leftarrow> tcp_send_ack i p (send_seq (isk_at s5 i)) (ack_seq (isk_at s5 i)) True False False s5;
           let s7 = isk_list_del i s6;
           Some (0, s7\<lparr>active_queue := active_queue s7 @ [i]\<rparr>)
         })"

definition complete_establish :: "addr \<Rightarrow> 'a inetst_scheme \<Rightarrow> 'a inetst_scheme" where
  "complete_establish i s =
     (if i = NULL then s
      else let t = (OS_TICKS s - ucast (i_timeout (isk_at s i))) * (1000 div HZ);
               s1 = upd_isk i (\<lambda>e. e\<lparr>status := ESTABLISHED, send_seq := send_seq e + 1, rtt := t, rto := 2 * t,
                      max_ack_backlog := 3\<rparr>) s
           in wake_up_interruptible (wq_priv (isk_at s1 i)) s1)"

section \<open>The receive queue\<close>

definition seq_of :: "'a net_scheme \<Rightarrow> addr \<Rightarrow> u32" where
  "seq_of s k = ntohl (th_seq (pdata s k))"

text \<open>The backward search from the tail: \<open>None\<close> when the sequence number is already queued,
  otherwise the part of the (reversed) queue the new segment goes behind.\<close>

fun sort_search :: "(addr \<Rightarrow> u32) \<Rightarrow> u32 \<Rightarrow> addr list \<Rightarrow> addr list option" where
  "sort_search f seq [] = Some []"
| "sort_search f seq (k # ks) =
     (if f k < seq then Some (k # ks) else if seq = f k then None else sort_search f seq ks)"

fun ack_loop :: "addr \<Rightarrow> addr list \<Rightarrow> int \<Rightarrow> 'a inetst_scheme \<Rightarrow> (int \<times> 'a inetst_scheme) option" where
  "ack_loop i [] ret s = Some (ret, s)"
| "ack_loop i (k # ks) ret s =
     (if ack_seq (isk_at s i) \<noteq> seq_of s k
      then tcp_send_ack i (pdata s k) (send_seq (isk_at s i)) (ack_seq (isk_at s i)) False False True s
      else
        let s1 = upd_isk i (\<lambda>e. e\<lparr>ack_seq := tcp_get_ackseq (pdata s k)\<rparr>) s
        in do {
             (ret, s2) \<leftarrow> tcp_send_ack i (pdata s k) (send_seq (isk_at s1 i)) (ack_seq (isk_at s1 i)) False False False s1;
             if ret < 0 then Some (ret, s2) else ack_loop i ks ret s2
           })"

partial_function (option) flush_acks :: "addr \<Rightarrow> 'a inetst_scheme \<Rightarrow> 'a inetst_scheme option" where
  "flush_acks i s =
     (if q_elems (AckQ i) s = [] then Some s
      else do { s1 \<leftarrow> tcp_timer_entry i s; flush_acks i s1 })"

text \<open>The duplicate case returns inside the critical section.\<close>

definition tcp_seg_sort :: "addr \<Rightarrow> addr \<Rightarrow> 'a inetst_scheme \<Rightarrow> (int \<times> 'a inetst_scheme) option" where
  "tcp_seg_sort i k s =
     (if i = NULL \<or> k = NULL then Some (- ENOTSOCK, s)
      else
        let seq = seq_of s k
        in if seq < ack_seq (isk_at s i) then Some (0, free_skbuff k s)
           else
             let s1 = enter_critical s; xs = q_elems (RecvQ i) s1
             in case sort_search (seq_of s1) seq (rev xs) of
                  None \<Rightarrow> Some (0, free_skbuff k s1)
                | Some rest \<Rightarrow>
                    let later = drop (length rest) xs;
                        s2 = s1\<lparr>queue := (queue s1)(RecvQ i \<mapsto> rev rest @ k # later)\<rparr>;
                        s3 = exit_critical (upd_isk i (\<lambda>e. e\<lparr>recv_data_len := recv_data_len e + ucast (tcp_get_data_lenght (pdata s2 k))\<rparr>) s2);
                        s4 = (if recv_data_len (isk_at s3 i) \<noteq> 0 then wake_up_interruptible (wq_priv (isk_at s3 i)) s3 else s3)
                    in do {
                         (ret, s5) \<leftarrow> ack_loop i (k # later) 0 (enter_critical s4);
                         let s6 = exit_critical s5;
                         if ack_backlog (isk_at s6 i) \<ge> max_ack_backlog (isk_at s6 i)
                         then do { s7 \<leftarrow> flush_acks i (enter_critical s6); Some (ret, exit_critical s7) }
                         else Some (ret, s6)
                       })"

section \<open>The state machine\<close>

definition tcp_time_wait :: "addr \<Rightarrow> 'a inetst_scheme \<Rightarrow> (int \<times> 'a inetst_scheme) option" where
  "tcp_time_wait i s =
     (let s1 = upd_isk i (\<lambda>e. e\<lparr>retries := TCP_RETRY_TIMES, status := TIME_WAIT, i_timeout := ucast (OS_TICKS s)\<rparr>) s
      in do {
           (r, s2) \<leftarrow> mod_timer (isk_timer i) 20 s1;
           if r < 0 then map_option (Pair 0) (free_isock i s2) else Some (0, s2)
         })"

definition tcp_fin_handler :: "addr \<Rightarrow> pkt \<Rightarrow> 'a inetst_scheme \<Rightarrow> (int \<times> 'a inetst_scheme) option" where
  "tcp_fin_handler i tcph s =
     (if i = NULL then Some (- ENOENT, s)
      else do {
        (r, s1) \<leftarrow> tcp_send_ack i tcph (received_ack (isk_at s i)) (ntohl (th_seq tcph) + 1) False False True s;
        case status (isk_at s1 i) of
          ESTABLISHED \<Rightarrow> Some (0, upd_isk i (\<lambda>e. e\<lparr>status := CLOSE_WAIT\<rparr>) s1)
        | FIN_WAIT_1 \<Rightarrow> tcp_time_wait i s1
        | FIN_WAIT_2 \<Rightarrow> tcp_time_wait i s1
        | _ \<Rightarrow> Some (0, s1)
      })"

text \<open>The states in which data flows: a reset or a second SYN closes the connection, a FIN is answered
  and moves it to \<open>LAST_ACK\<close>, data goes to the receive queue and keeps the buffer.\<close>

definition tcp_data_states :: "addr \<Rightarrow> addr \<Rightarrow> 'a inetst_scheme \<Rightarrow> (int \<times> 'a inetst_scheme) option" where
  "tcp_data_states k i s =
     (let p = pdata s k
      in if rst p \<or> syn p
         then Some (0, free_skbuff k (upd_isk i (\<lambda>e. e\<lparr>i_errno := - ECONNRESET, status := CLOSED\<rparr>) s))
         else
           let s1 = (if ack p then snd (tcp_ack_handler i p s) else s)
           in if fin p
              then do {
                (ret, s2) \<leftarrow> tcp_fin_handler i p s1;
                if ret < 0
                then Some (ret, free_skbuff k (upd_isk i (\<lambda>e. e\<lparr>i_errno := - ECONNRESET, status := CLOSED\<rparr>) s2))
                else do {
                  let s3 = upd_isk i (\<lambda>e. e\<lparr>retries := TCP_RETRY_TIMES, i_timeout := ucast (OS_TICKS s2)\<rparr>) s2;
                  (r, s4) \<leftarrow> tcp_send_ack i p (received_ack (isk_at s3 i)) (ntohl (th_seq p) + 1) False True True s3;
                  Some (ret, free_skbuff k (upd_isk i (\<lambda>e. e\<lparr>status := LAST_ACK\<rparr>) s4))
                }
              }
              else if tcp_get_data_lenght p > 0 then tcp_seg_sort i k s1
              else Some (0, free_skbuff k s1))"

definition tcp_syn_sent_state :: "addr \<Rightarrow> addr \<Rightarrow> 'a inetst_scheme \<Rightarrow> (int \<times> 'a inetst_scheme) option" where
  "tcp_syn_sent_state k i s =
     (let p = pdata s k
      in if rst p then Some (0, free_skbuff k (upd_isk i (\<lambda>e. e\<lparr>i_errno := - ECONNRESET, status := CLOSED\<rparr>) s))
         else if \<not> syn p \<or> \<not> ack p then Some (0, free_skbuff k s)
         else
           let (ret, s1) = tcp_ack_handler i p s;
               s2 = upd_isk i (\<lambda>e. e\<lparr>send_seq := htonl (th_ack_seq p), ack_seq := htonl (th_seq p) + 1\<rparr>) s1
           in do {
                (r, s3) \<leftarrow> tcp_send_ack i p (send_seq (isk_at s2 i)) (ack_seq (isk_at s2 i)) False False True s2;
                s4 \<leftarrow> tcp_set_options i k s3;
                Some (ret, free_skbuff k (complete_establish i s4))
              })"

definition tcp_listen_state :: "addr \<Rightarrow> addr \<Rightarrow> 'a inetst_scheme \<Rightarrow> (int \<times> 'a inetst_scheme) option" where
  "tcp_listen_state k i s =
     (let p = pdata s k
      in if rst p \<or> ack p then Some (0, free_skbuff k s)
         else do {
           (ret, s1) \<leftarrow> (if syn p then tcp_connect_request_handler k i s else Some (0, s));
           Some (ret, free_skbuff k (if ret = 0 then upd_isk i (\<lambda>e. e\<lparr>status := SYN_RCVD\<rparr>) s1 else s1))
         })"

definition tcp_received_data_handler :: "addr \<Rightarrow> 'a inetst_scheme \<Rightarrow> (int \<times> 'a inetst_scheme) option" where
  "tcp_received_data_handler k s =
     (if k = NULL then Some (0, s)
      else
        let p = pdata s k; i = tcp_find_sock k s
        in if i = NULL then Some (- ENOTSOCK, free_skbuff k s)
           else case status (isk_at s i) of
                  LAST_ACK \<Rightarrow> let (ret, s1) = tcp_ack_handler i p s in Some (ret, free_skbuff k s1)
                | ESTABLISHED \<Rightarrow> tcp_data_states k i s
                | CLOSE_WAIT \<Rightarrow> tcp_data_states k i s
                | FIN_WAIT_1 \<Rightarrow> tcp_data_states k i s
                | FIN_WAIT_2 \<Rightarrow> tcp_data_states k i s
                | TIME_WAIT \<Rightarrow> tcp_data_states k i s
                | SYN_SENT \<Rightarrow> tcp_syn_sent_state k i s
                | SYN_RCVD \<Rightarrow>
                    let (ret, s1) = tcp_ack_handler i p s
                    in if ret < 0 \<or> syn p then Some (ret, free_skbuff k s1)
                       else Some (ret, free_skbuff k (complete_establish i (upd_isk i (\<lambda>e. e\<lparr>status := ESTABLISHED\<rparr>) s1)))
                | LISTEN \<Rightarrow> tcp_listen_state k i s
                | _ \<Rightarrow> Some (0, free_skbuff k s))"

section \<open>Calls from above\<close>

definition tcp_connect_wait :: "addr \<Rightarrow> 'a inetst_scheme \<Rightarrow> wait_outcome \<times> 'a inetst_scheme" where
  "tcp_connect_wait i s =
     (if status (isk_at s i) = SYN_SENT then (Blocked, s)
      else (Returns (i_errno (isk_at s i)), if i_errno (isk_at s i) \<noteq> 0 then isk_list_del i s else s))"

definition tcp_connect :: "addr \<Rightarrow> u32 \<Rightarrow> u16 \<Rightarrow> 'a inetst_scheme \<Rightarrow> (wait_outcome \<times> 'a inetst_scheme) option" where
  "tcp_connect i sin_addr sin_port s =
     (let (port, s1) = tcp_get_an_unused_port s;
          s2 = upd_isk i (\<lambda>e. e\<lparr>remote_ip := ntohl sin_addr, remote_port := ntohs sin_port, local_port := port\<rparr>) s1;
          nd = ip_route sin_addr s2
      in if nd = NULL then Some (Returns (- ENETUNREACH), s2)
         else
           let t = isk_timer i;
               s3 = upd_isk i (\<lambda>e. e\<lparr>local_ip := nd_ip (ndev_at s2 nd), retries := TCP_RETRY_TIMES\<rparr>) s2;
               s4 = s3\<lparr>tm_expires := (tm_expires s3)(t := 10), tm_data := (tm_data s3)(t := i),
                       tm_function := (tm_function s3)(t := tcp_timer_fn s3)\<rparr>
           in do {
                (ret, s5) \<leftarrow> tcp_send_syn i s4;
                if ret < 0 then Some (Returns ret, s5)
                else do {
                  (ret, s6) \<leftarrow> add_timer t (upd_isk i (\<lambda>e. e\<lparr>status := SYN_SENT, i_timeout := ucast (OS_TICKS s5)\<rparr>) s5);
                  if ret < 0 then Some (Returns ret, s6)
                  else Some (tcp_connect_wait i (s6\<lparr>active_queue := i # active_queue s6\<rparr>))
                }
              })"

definition tcp_close :: "addr \<Rightarrow> 'a inetst_scheme \<Rightarrow> 'a inetst_scheme option" where
  "tcp_close i s =
     (let e = isk_at s i
      in if status e = ESTABLISHED \<or> status e = SYN_SENT \<or> status e = SYN_RCVD
         then if tcp_send_fin i (send_seq e) (ack_seq e) < 0 then free_isock i s
              else Some (upd_isk i (\<lambda>e. e\<lparr>i_timeout := ucast (OS_TICKS s), status := FIN_WAIT_1\<rparr>) s)
         else if status e = CLOSED then free_isock i s
         else Some s)"

definition tcp_bind :: "addr \<Rightarrow> u32 \<Rightarrow> u16 \<Rightarrow> 'a inetst_scheme \<Rightarrow> int \<times> 'a inetst_scheme" where
  "tcp_bind i sin_addr sin_port s =
     (if i = NULL then (- EBADF, s)
      else (0, upd_isk i (\<lambda>e. e\<lparr>local_port := ntohs sin_port, local_ip := ntohl sin_addr\<rparr>) s))"

text \<open>The copy loop of \<open>tcp_recv\<close>: the bytes copied so far, the room left, and the state.\<close>

fun recv_loop :: "addr \<Rightarrow> addr list \<Rightarrow> byte list \<Rightarrow> int \<Rightarrow> 'a inetst_scheme \<Rightarrow> byte list \<times> int \<times> 'a inetst_scheme" where
  "recv_loop i [] out room s = (out, room, s)"
| "recv_loop i (k # ks) out room s =
     (let p = pdata s k;
          rp = read_ptr (isk_at s i);
          remain = tcp_get_data_lenght p - rp;
          from = tcp_get_data_off p + unat rp
      in if uint remain \<le> room
         then recv_loop i ks (out @ ldn p from (unat remain)) (room - uint remain)
                (free_skbuff k (upd_isk i (\<lambda>e. e\<lparr>read_ptr := 0\<rparr>) s))
         else (out @ ldn p from (nat room), 0, upd_isk i (\<lambda>e. e\<lparr>read_ptr := read_ptr e + of_int room\<rparr>) s))"

definition tcp_recv :: "addr \<Rightarrow> addr \<Rightarrow> int \<Rightarrow> bool \<Rightarrow> 'a inetst_scheme \<Rightarrow> wait_outcome \<times> byte list \<times> 'a inetst_scheme" where
  "tcp_recv i ubuf len nonblock s =
     (if i = NULL then (Returns (- EBADF), [], s)
      else if ubuf = NULL then (Returns (- EFAULT), [], s)
      else if nonblock \<and> q_elems (RecvQ i) s \<noteq> [] then (Returns (- EAGAIN), [], s)
      else if recv_data_len (isk_at s i) = 0 then (Blocked, [], s)
      else if i_errno (isk_at s i) \<noteq> 0 then (Returns (i_errno (isk_at s i)), [], s)
      else
        let s1 = enter_critical s;
            (out, room, s2) = recv_loop i (q_elems (RecvQ i) s1) [] len s1;
            s3 = exit_critical s2
        in (Returns (len - room), out,
            upd_isk i (\<lambda>e. e\<lparr>recv_data_len := recv_data_len e - of_int (len - room)\<rparr>) s3))"

definition tcp_listen :: "addr \<Rightarrow> int \<Rightarrow> 'a inetst_scheme \<Rightarrow> int \<times> 'a inetst_scheme" where
  "tcp_listen i backlog s =
     (if status (isk_at s i) \<noteq> CLOSED then (- EINVAL, s)
      else (0, upd_isk i (\<lambda>e. e\<lparr>status := LISTEN, i_backlog := backlog\<rparr>) s))"

definition tcp_send :: "addr \<Rightarrow> addr \<Rightarrow> byte list \<Rightarrow> 'a inetst_scheme \<Rightarrow> (int \<times> 'a inetst_scheme) option" where
  "tcp_send i buf bytes s =
     (if i = NULL then Some (- ENOTSOCK, s)
      else if buf = NULL then Some (- EINVAL, s)
      else if bytes = [] then Some (0, s)
      else tcp_do_segment i bytes s)"

definition tcp_accept :: "addr \<Rightarrow> 'a inetst_scheme \<Rightarrow> addr \<times> 'a inetst_scheme" where
  "tcp_accept i s =
     (let (n, s1) = alloc_isocket s; e = isk_at s1 i
      in if n = NULL then (NULL, s1)
         else let s2 = upd_isk n (\<lambda>f. f\<lparr>i_prot_opt := i_prot_opt e, i_backlog := i_backlog e, mss := mss e, window := window e,
                         local_ip := local_ip e, local_port := local_port e, retries := retries e, status := status e\<rparr>) s1
              in (n, s2\<lparr>listen_queue := listen_queue s2 @ [n]\<rparr>))"

end
