(* ===== verification/Net_Inv.thy ===== *)
theory Net_Inv
  imports Net Sched_Inv
begin

text \<open>
  Correctness of the lower half of the network stack: what the header routines write, which frame
  reaches the chip, and what the resolver's table and queue do.
\<close>

section \<open>Headers\<close>

lemma ld32_cong: "(\<And>k. i \<le> k \<Longrightarrow> k < i + 4 \<Longrightarrow> p k = q k) \<Longrightarrow> ld32 p i = ld32 q i"
  by (simp add: ld32_def ld16_def)

lemma chksum_cong:
  assumes "\<And>j. i \<le> j \<Longrightarrow> j < i + 2 * ((unat n + 1) div 2) \<Longrightarrow> p j = q j"
  shows "inet_chksum p i n = inet_chksum q i n"
  unfolding unat_inet_chksum using pkt_words_cong [of i _ p q, OF assms] by simp

lemma ip_header_other:
  "j < 14 \<or> 34 \<le> j \<or> j = 20 \<or> j = 21 \<Longrightarrow> ip_header daddr saddr proto ident tot p j = p j"
  by (auto simp: ip_header_def Let_def OFFSET_IPHDR_def st16_def st32_def)

lemma ip_header_fields:
  "ld32 (ip_header daddr saddr proto ident tot p) 30 = daddr"
  "ld32 (ip_header daddr saddr proto ident tot p) 26 = saddr"
  "ip_header daddr saddr proto ident tot p 23 = proto"
  "ld16 (ip_header daddr saddr proto ident tot p) 16 = tot"
  "ld16 (ip_header daddr saddr proto ident tot p) 18 = ident"
  "ip_header daddr saddr proto ident tot p 14 = 0x45"
proof -
  let ?p = "ip_header daddr saddr proto ident tot p"
  have "ld32 ?p 30 = ld32 (st32 30 daddr p) 30"
    by (rule ld32_cong) (auto simp: ip_header_def Let_def OFFSET_IPHDR_def st16_def st32_def)
  then show "ld32 ?p 30 = daddr" by simp
  have "ld32 ?p 26 = ld32 (st32 26 saddr p) 26"
    by (rule ld32_cong) (auto simp: ip_header_def Let_def OFFSET_IPHDR_def st16_def st32_def)
  then show "ld32 ?p 26 = saddr" by simp
  show "?p 23 = proto" by (simp add: ip_header_def Let_def OFFSET_IPHDR_def st16_def)
  have "ld16 ?p 16 = ld16 (st16 16 tot p) 16"
    by (rule ld16_cong) (simp_all add: ip_header_def Let_def OFFSET_IPHDR_def st16_def)
  then show "ld16 ?p 16 = tot" by simp
  have "ld16 ?p 18 = ld16 (st16 18 ident p) 18"
    by (rule ld16_cong) (simp_all add: ip_header_def Let_def OFFSET_IPHDR_def st16_def)
  then show "ld16 ?p 18 = ident" by simp
  show "?p 14 = 0x45" by (simp add: ip_header_def Let_def OFFSET_IPHDR_def st16_def)
qed

lemma ip_header_verifies: "inet_chksum (ip_header daddr saddr proto ident tot p) 14 20 = 0"
proof -
  define q where "q = st16 24 0 (st16 16 tot ((st16 18 ident ((st32 26 saddr (st32 30 daddr p))
     (23 := proto, 22 := 128, 15 := 0)))(14 := 0x45)))"
  have h: "ip_header daddr saddr proto ident tot p = st16 24 (inet_chksum q 14 20) q"
    by (simp add: ip_header_def Let_def OFFSET_IPHDR_def q_def)
  have "inet_chksum (st16 (14 + 2 * 5) (inet_chksum q 14 20) q) 14 20 = 0"
    by (rule chksum_verifies) (simp_all add: q_def)
  then show ?thesis by (simp add: h)
qed

section \<open>Frames on the chip\<close>

definition pkt_of :: "byte list \<Rightarrow> pkt" where
  "pkt_of f = (\<lambda>j. if j < length f then f ! j else 0)"

lemma pkt_of_ldn: "j < n \<Longrightarrow> pkt_of (ldn p 0 n) j = p j"
  by (simp add: pkt_of_def ldn_def)

lemma crit_net [simp]:
  "skb_at (enter_critical s) = skb_at s" "skb_at (exit_critical s) = skb_at s"
  "chip_frames (enter_critical s) = chip_frames s" "chip_frames (exit_critical s) = chip_frames s"
  "chip_requests (enter_critical s) = chip_requests s" "chip_requests (exit_critical s) = chip_requests s"
  "tx_pkt_cnt (enter_critical s) = tx_pkt_cnt s" "tx_pkt_cnt (exit_critical s) = tx_pkt_cnt s"
  "queue (enter_critical s) = queue s" "queue (exit_critical s) = queue s"
  "ndev_at (enter_critical s) = ndev_at s" "ndev_at (exit_critical s) = ndev_at s"
  "ARP_TABLE (enter_critical s) = ARP_TABLE s" "ARP_TABLE (exit_critical s) = ARP_TABLE s"
  "net_device_head (enter_critical s) = net_device_head s" "net_device_head (exit_critical s) = net_device_head s"
  by (simp_all add: enter_critical_def exit_critical_def disable_irq_def enable_irq_def Let_def)

lemma free_skbuff_sel [simp]:
  "chip_frames (free_skbuff k s) = chip_frames s" "tx_pkt_cnt (free_skbuff k s) = tx_pkt_cnt s"
  "ndev_at (free_skbuff k s) = ndev_at s" "ARP_TABLE (free_skbuff k s) = ARP_TABLE s"
  "k \<noteq> NULL \<Longrightarrow> skb_at (free_skbuff k s) = (skb_at s)(k := zero_skb)"
  by (simp_all add: free_skbuff_def q_del_def Let_def)

lemma unat_up [simp]: "unat (ucast (w :: u16) :: u32) = unat w"
proof -
  have "unat w < 2 ^ 32" using unat_u16 [of w] by simp
  then show ?thesis by (simp add: unsigned_ucast_eq take_bit_nat_eq_self)
qed

lemma sendPcket_ok:
  assumes "tx_pkt_cnt s \<le> 1" "k \<noteq> NULL"
  shows "\<exists>s'. DM9000_sendPcket k nd s = (0, s') \<and>
     chip_frames s' = chip_frames s @ [ldn (pdata s k) 0 (2 * ((unat (data_len (skb_at s k)) + 1) div 2))] \<and>
     skb_at s' = (skb_at s)(k := zero_skb)"
  using assms by (auto simp: DM9000_sendPcket_def Let_def netif_stop_queue_def)

text \<open>The frame of a datagram for a resolved destination.\<close>

definition ip_frame :: "byte list \<Rightarrow> byte list \<Rightarrow> u32 \<Rightarrow> u32 \<Rightarrow> byte \<Rightarrow> u16 \<Rightarrow> pkt \<Rightarrow> byte list \<Rightarrow> bool" where
  "ip_frame dmac smac daddr saddr proto n payload f \<longleftrightarrow>
     length f = 2 * ((unat n + 1) div 2) \<and>
     ldn (pkt_of f) 0 6 = dmac \<and> ldn (pkt_of f) 6 6 = smac \<and> ntohs (ld16 (pkt_of f) 12) = ETH_P_IP \<and>
     pkt_of f 14 = 0x45 \<and> ntohs (ld16 (pkt_of f) 16) = n - 14 \<and> pkt_of f 23 = proto \<and>
     ld32 (pkt_of f) 26 = saddr \<and> ld32 (pkt_of f) 30 = daddr \<and>
     inet_chksum (pkt_of f) 14 20 = 0 \<and> (\<forall>j. 34 \<le> j \<longrightarrow> j < unat n \<longrightarrow> pkt_of f j = payload j)"

lemma ip_frame_built:
  assumes mac: "length dmac = 6" "length smac = 6" and n: "34 \<le> unat n"
    and f: "f = ldn (st16 12 (htons ETH_P_IP) (stn 6 smac (stn 0 dmac
        (ip_header daddr saddr proto ident (htons (n - 14)) p)))) 0 (2 * ((unat n + 1) div 2))"
  shows "ip_frame dmac smac daddr saddr proto n p f"
proof -
  let ?h = "ip_header daddr saddr proto ident (htons (n - 14)) p"
  let ?q = "st16 12 (htons ETH_P_IP) (stn 6 smac (stn 0 dmac ?h))"
  have len: "length f = 2 * ((unat n + 1) div 2)" "unat n \<le> length f" by (simp_all add: f)
  have at: "pkt_of f j = ?q j" if "j < length f" for j
    using that pkt_of_ldn [of j _ ?q] len(1) by (simp add: f)
  have at34: "pkt_of f j = ?q j" if "j < 34" for j using that n len(2) at by simp
  have hi: "pkt_of f j = ?h j" if "14 \<le> j" "j < length f" for j
    using that at by (simp add: st16_def stn_def mac)
  have d: "ldn (pkt_of f) 0 6 = ldn (stn 0 dmac ?h) 0 6"
    by (rule ldn_cong) (simp add: at34 st16_def stn_def mac)
  have sm: "ldn (pkt_of f) 6 6 = ldn (stn 6 smac (stn 0 dmac ?h)) 6 6"
    by (rule ldn_cong) (simp add: at34 st16_def)
  have pr: "ld16 (pkt_of f) 12 = ld16 ?q 12" by (rule ld16_cong) (simp_all add: at34)
  have f16: "ld16 (pkt_of f) 16 = ld16 ?h 16" using hi n len(2) by (intro ld16_cong) simp_all
  have f26: "ld32 (pkt_of f) 26 = ld32 ?h 26" "ld32 (pkt_of f) 30 = ld32 ?h 30"
    using hi n len(2) by (auto intro!: ld32_cong)
  have ck: "inet_chksum (pkt_of f) 14 20 = inet_chksum ?h 14 20"
    using hi n len(2) by (intro chksum_cong) simp
  have pay: "pkt_of f j = p j" if "34 \<le> j" "j < unat n" for j
    using hi [of j] that len(2) by (simp add: ip_header_other)
  have b: "pkt_of f 14 = 0x45" "pkt_of f 23 = proto" using hi n len(2) by (simp_all add: ip_header_fields)
  from d sm mac have m: "ldn (pkt_of f) 0 6 = dmac" "ldn (pkt_of f) 6 6 = smac"
    using ldn_stn [of 0 dmac ?h] ldn_stn [of 6 smac "stn 0 dmac ?h"] by simp_all
  show ?thesis unfolding ip_frame_def
    using len(1) m pr f16 f26 ck pay b by (simp add: ip_header_fields ip_header_verifies)
qed

lemma ip_send_resolved:
  assumes route: "net_device_head s = nd # nds" "nd \<noteq> NULL"
    and n: "data_len (skb_at s k) = n" "n \<le> nd_mtu (ndev_at s nd)"
    and arp: "search_arp_table dest s = Some i"
    and dev: "\<not> xoff s nd" "tx_pkt_cnt s \<le> 1" and k: "k \<noteq> NULL"
  shows "\<exists>s'. ip_send k dest proto s = Some (0, s') \<and> skb_at s' k = zero_skb \<and>
     chip_frames s' = chip_frames s @ [ldn (st16 12 (htons ETH_P_IP) (stn 6 (macaddr (ndev_at s nd)) (stn 0 (a_mac (ARP_TABLE s i))
        (ip_header dest (htonl (nd_ip (ndev_at s nd))) proto (htons (ip_data_id s + 1)) (htons (n - 14)) (pdata s k)))))
          0 (2 * ((unat n + 1) div 2))]"
proof -
  define s1 where "s1 = upd_skb k (\<lambda>e. e\<lparr>sk_ndev := nd, sdata := st16 12 (htons ETH_P_IP) (stn 6 (macaddr (ndev_at s nd))
     (stn 0 (a_mac (ARP_TABLE s i)) (ip_header dest (htonl (nd_ip (ndev_at s nd))) proto (htons (ip_data_id s + 1)) (htons (n - 14)) (sdata e))))\<rparr>)
     (s\<lparr>ip_data_id := ip_data_id s + 1\<rparr>)"
  have "ip_send k dest proto s = Some (netif_tx_queue nd k s1)"
    using route n(1) leD [OF n(2)] arp by (simp add: ip_send_def ip_route_def return_ndev_def Let_def ip_do_send_def search_arp_table_def s1_def)
  also have "netif_tx_queue nd k s1 = DM9000_sendPcket k nd s1"
    using dev(1) by (simp add: netif_tx_queue_def xoff_def s1_def)
  finally show ?thesis using sendPcket_ok [of s1 k nd] dev(2) k n(1) by (auto simp: s1_def)
qed

section \<open>The resolver's table\<close>

lemma find_upt_Some:
  "find P [0..<n] = Some i \<longleftrightarrow> i < n \<and> P i \<and> (\<forall>j<i. \<not> P j)"
  by (auto simp: find_Some_iff nth_append)

lemma find_upt_None: "find P [0..<n] = None \<longleftrightarrow> (\<forall>i<n. \<not> P i)"
  by (auto simp: find_None_iff)

text \<open>What the resolver knows: the hardware address and device of each protocol address.\<close>

definition resolves :: "'a net_scheme \<Rightarrow> u32 \<rightharpoonup> byte list \<times> addr" where
  "resolves s ip = map_option (\<lambda>i. (a_mac (ARP_TABLE s i), a_ndev (ARP_TABLE s i))) (search_arp_table ip s)"

lemma add_arp_table_resolves:
  assumes "ip \<noteq> 0" "add_arp_table mac ip nd s = (r, s')"
  shows "(r = 0 \<and> (if resolves s ip = None
      then \<forall>x. x \<noteq> 0 \<longrightarrow> resolves s' x = ((resolves s)(ip \<mapsto> (mac, nd))) x else s' = s)) \<or>
    (r = - ENOMEM \<and> s' = s \<and> resolves s ip = None \<and> (\<forall>i<MAX_ARP_TABLE_NUM. a_ip (ARP_TABLE s i) \<noteq> 0))"
proof (cases "search_arp_table ip s")
  case None
  note miss = this
  show ?thesis
  proof (cases "find (\<lambda>i. a_ip (ARP_TABLE s i) = 0) [0..<MAX_ARP_TABLE_NUM]")
    case None
    with miss assms show ?thesis by (auto simp: add_arp_table_def resolves_def find_upt_None ENOMEM_def)
  next
    case (Some i)
    then have i: "i < MAX_ARP_TABLE_NUM" "a_ip (ARP_TABLE s i) = 0" by (auto simp: find_upt_Some)
    have s': "r = 0" "s' = s\<lparr>ARP_TABLE := (ARP_TABLE s)(i := \<lparr>a_mac = mac, a_ip = ip, a_ndev = nd\<rparr>)\<rparr>"
      using assms miss Some by (auto simp: add_arp_table_def)
    have no: "\<forall>j<MAX_ARP_TABLE_NUM. a_ip (ARP_TABLE s j) \<noteq> ip"
      using miss by (simp add: search_arp_table_def find_upt_None)
    have here: "search_arp_table ip s' = Some i"
      using i no by (auto simp: search_arp_table_def find_upt_Some s')
    have there: "search_arp_table x s' = search_arp_table x s" if "x \<noteq> 0" "x \<noteq> ip" for x
    proof -
      have "(\<lambda>j. a_ip (ARP_TABLE s' j) = x) = (\<lambda>j. a_ip (ARP_TABLE s j) = x)"
        using that i by (auto simp: s')
      then show ?thesis by (simp only: search_arp_table_def)
    qed
    have keep: "resolves s' x = resolves s x" if "x \<noteq> 0" "x \<noteq> ip" for x
    proof (cases "search_arp_table x s")
      case (Some j)
      with i that have "j \<noteq> i" by (auto simp: search_arp_table_def find_upt_Some)
      then show ?thesis using Some there [OF that] by (simp add: resolves_def s')
    qed (simp add: resolves_def there [OF that])
    have "resolves s' ip = Some (mac, nd)" by (simp add: resolves_def here) (simp add: s')
    then show ?thesis using miss s'(1) keep by (auto simp: resolves_def)
  qed
next
  case (Some i)
  then show ?thesis using assms by (auto simp: add_arp_table_def resolves_def)
qed

section \<open>Properties\<close>

definition demo_net :: net where
  "demo_net = sched.extend demo_sched
     (net.fields (\<lambda>k. if k = 0x30006000 then zero_skb\<lparr>use_flag := 1, data_buf := 0x30008000, data_len := 60\<rparr> else zero_skb)
        (\<lambda>i. 0x30006000 + of_nat i * 28) (\<lambda>q. Some []) (\<lambda>n. 0x30000000 OR push_bit 11 (of_nat n)) 0
        (\<lambda>nd. \<lparr>nd_state = 0, macaddr = [1, 2, 3, 4, 5, 6], nd_ip = 0xc0a8080a, nd_mtu = 1514\<rparr>) [0x30007000] NULL
        (\<lambda>i. if i = 0 then \<lparr>a_mac = [10, 11, 12, 13, 14, 15], a_ip = 0x0108a8c0, a_ndev = 0x30007000\<rparr>
             else \<lparr>a_mac = [0, 0, 0, 0, 0, 0], a_ip = 0, a_ndev = NULL\<rparr>)
        0x30003000 1000 (\<lambda>i. \<lparr>f_id = 0, current_len = 0, original_len = 0, f_timeout = 0\<rparr>) 0x30003040 0 0 [] [])"

lemma demo_net_sel:
  "net_device_head demo_net = [0x30007000]" "tx_pkt_cnt demo_net = 0" "chip_frames demo_net = []"
  "nd_mtu (ndev_at demo_net nd) = 1514" "macaddr (ndev_at demo_net nd) = [1, 2, 3, 4, 5, 6]"
  "nd_ip (ndev_at demo_net nd) = 0xc0a8080a" "\<not> xoff demo_net nd"
  "search_arp_table 0x0108a8c0 demo_net = Some 0" "a_mac (ARP_TABLE demo_net 0) = [10, 11, 12, 13, 14, 15]"
  "data_len (skb_at demo_net 0x30006000) = 60" "pdata demo_net 0x30006000 = (\<lambda>_. 0)"
  by (simp_all add: demo_net_def sched.extend_def net.fields_def xoff_def search_arp_table_def find_upt_Some
      MAX_ARP_TABLE_NUM_def zero_skb_def)

text \<open>C14. Sending a datagram that fits the device to a resolved destination returns 0, gives the
  buffer back to the pool and appends exactly one frame to the chip: it is addressed from the device to
  the resolved hardware address, its IP header names the protocol, the addresses and the length and
  verifies (its checksum sums to zero), and every payload byte is the one the caller stored.\<close>

theorem ip_send_puts_frame:
  assumes "net_device_head s = nd # nds" "nd \<noteq> NULL" "k \<noteq> NULL"
    and "34 \<le> unat (data_len (skb_at s k))" "data_len (skb_at s k) \<le> nd_mtu (ndev_at s nd)"
    and "search_arp_table dest s = Some i" "length (a_mac (ARP_TABLE s i)) = 6" "length (macaddr (ndev_at s nd)) = 6"
    and "\<not> xoff s nd" "tx_pkt_cnt s \<le> 1"
  shows "\<exists>s' f. ip_send k dest proto s = Some (0, s') \<and> skb_at s' k = zero_skb \<and> chip_frames s' = chip_frames s @ [f] \<and>
     ip_frame (a_mac (ARP_TABLE s i)) (macaddr (ndev_at s nd)) dest (htonl (nd_ip (ndev_at s nd))) proto
       (data_len (skb_at s k)) (pdata s k) f"
  using ip_send_resolved [OF assms(1,2) refl assms(5,6,9,10,3), of proto]
    ip_frame_built [OF assms(7,8,4) refl] by blast

theorem ip_send_puts_frame_witness:
  "\<exists>s' f. ip_send 0x30006000 0x0108a8c0 17 demo_net = Some (0, s') \<and> skb_at s' 0x30006000 = zero_skb \<and>
     chip_frames s' = chip_frames demo_net @ [f] \<and>
     ip_frame [10, 11, 12, 13, 14, 15] [1, 2, 3, 4, 5, 6] 0x0108a8c0 (htonl 0xc0a8080a) 17 60 (\<lambda>_. 0) f"
  using ip_send_puts_frame [of demo_net "0x30007000" "[]" "0x30006000" "0x0108a8c0" 0 17]
  by (simp add: demo_net_sel)

end
