(* ===== verification/Inet_Recv.thy ===== *)
theory Inet_Recv
  imports Tcp Net_Inv
begin

text \<open>
  UDP (\<^verbatim>\<open>src/net/inet/udp.c\<close>) and the receiving half of the stack: reassembly and dispatch in
  \<^verbatim>\<open>src/net/inet/ip.c\<close>, \<^verbatim>\<open>src/net/inet/eth.c\<close> and the receive thread of
  \<^verbatim>\<open>src/net/netif.c\<close>. \<open>None\<close> is a fault or a call that does not return.
\<close>

section \<open>UDP\<close>

definition OFFSET_UDPHDR :: nat where "OFFSET_UDPHDR = 34"
definition OFFSET_UDPDATA :: nat where "OFFSET_UDPDATA = 42"
definition PACKET_RECVED :: u32 where "PACKET_RECVED = 1"

definition find_udp_use_local_port :: "u16 \<Rightarrow> 'a inetst_scheme \<Rightarrow> addr" where
  "find_udp_use_local_port port s =
     (case find (\<lambda>i. local_port (isk_at s i) = port) (udp_queue s) of None \<Rightarrow> NULL | Some i \<Rightarrow> i)"

definition udp_get_an_unused_port :: "'a inetst_scheme \<Rightarrow> u16 \<times> 'a inetst_scheme" where
  "udp_get_an_unused_port s = (udp_port s, s\<lparr>udp_port := udp_port s + 1\<rparr>)"

definition udp_new_sock :: "addr \<Rightarrow> 'a inetst_scheme \<Rightarrow> 'a inetst_scheme" where
  "udp_new_sock i s =
     (if i = NULL then s
      else let (port, s1) = udp_get_an_unused_port s;
               s2 = upd_isk i (\<lambda>e. e\<lparr>local_port := port\<rparr>) s1
           in s2\<lparr>udp_queue := udp_queue s2 @ [i]\<rparr>)"

definition udp_sendto :: "addr \<Rightarrow> byte list \<Rightarrow> u32 \<Rightarrow> u16 \<Rightarrow> 'a inetst_scheme \<Rightarrow> (int \<times> 'a inetst_scheme) option" where
  "udp_sendto i buf dest sin_port s =
     (if i = NULL then Some (- EBADF, s)
      else
        let nd = ip_route dest s; len = (of_nat (length buf) :: u16)
        in if nd = NULL then Some (- ENETUNREACH, s)
           else
             let src = htonl (nd_ip (ndev_at s nd)); (k, s1) = alloc_skbuff (len + 42) s
             in if k = NULL then None
                else
                  let h = OFFSET_UDPHDR;
                      s2 = upd_data k (\<lambda>p.
                        let p1 = stn OFFSET_UDPDATA buf p;
                            p2 = st16 h (htons (local_port (isk_at s1 i))) (st16 (h + 2) sin_port p1);
                            p3 = st16 (h + 6) 0 (st16 (h + 4) (htons (len + 8)) p2);
                            (c, p4) = inet_check src dest h (len + 8) INET_PROTO_UDP p3
                        in st16 (h + 6) c p4) s1;
                      s3 = upd_skb k (\<lambda>e. e\<lparr>data_len := len + 42\<rparr>) s2
                  in ip_send k dest INET_PROTO_UDP s3)"

fun udp_copy :: "'a inetst_scheme \<Rightarrow> addr list \<Rightarrow> byte list \<Rightarrow> int \<Rightarrow> byte list \<times> int" where
  "udp_copy s [] out room = (out, room)"
| "udp_copy s (k # ks) out room =
     (let n = data_len (skb_at s k); p = pdata s k
      in if room \<ge> uint n then udp_copy s ks (out @ ldn p OFFSET_UDPDATA (unat n)) (room - uint n)
         else if room > 0 then (out @ ldn p OFFSET_UDPDATA (nat room), 0)
         else udp_copy s ks out room)"

definition udp_recvfrom :: "addr \<Rightarrow> addr \<Rightarrow> int \<Rightarrow> bool \<Rightarrow> addr \<Rightarrow> 'a inetst_scheme \<Rightarrow> wait_outcome \<times> byte list \<times> 'a inetst_scheme" where
  "udp_recvfrom i ubuf len noblock sin s =
     (if i = NULL then (Returns (- EBADF), [], s)
      else if ubuf = NULL then (Returns (- EFAULT), [], s)
      else if sin = NULL then (Returns (- EINVAL), [], s)
      else if noblock \<and> i_flags (isk_at s i) AND PACKET_RECVED = 0 then (Returns (- EAGAIN), [], s)
      else if q_elems (RecvQ i) s = [] then (Blocked, [], s)
      else
        let s1 = enter_critical s;
            (out, room) = udp_copy s1 (q_elems (RecvQ i) s1) [] len;
            s2 = q_init (RecvQ i) (free_all_skb (RecvQ i) s1)
        in (Returns (len - room), out, exit_critical s2))"

definition udp_process :: "addr \<Rightarrow> 'a inetst_scheme \<Rightarrow> int \<times> 'a inetst_scheme" where
  "udp_process k s =
     (let i = find_udp_use_local_port (ntohs (ld16 (pdata s k) (OFFSET_UDPHDR + 2))) s
      in if i = NULL then (- ENETUNREACH, free_skbuff k s)
         else (0, q_add_tail k (RecvQ i) (upd_isk i (\<lambda>e. e\<lparr>i_errno := 0\<rparr>) s)))"

section \<open>Reassembly\<close>

definition search_frag_list :: "u16 \<Rightarrow> 'a net_scheme \<Rightarrow> nat option" where
  "search_frag_list ident s = find (\<lambda>i. f_id (ip_frag_list_head s i) = ident) [0..<IP_FRAG_LIST_HEAD_NUM]"

abbreviation upd_frag :: "nat \<Rightarrow> (ipfrag \<Rightarrow> ipfrag) \<Rightarrow> 'a net_scheme \<Rightarrow> 'a net_scheme" where
  "upd_frag i f s \<equiv> s\<lparr>ip_frag_list_head := (ip_frag_list_head s)(i := f (ip_frag_list_head s i))\<rparr>"

text \<open>Adding to a head whose links were zeroed is a fault.\<close>

definition add_frag_list :: "addr \<Rightarrow> 'a net_scheme \<Rightarrow> (nat option \<times> 'a net_scheme) option" where
  "add_frag_list k s =
     (case find (\<lambda>i. f_id (ip_frag_list_head s i) = 0) [0..<IP_FRAG_LIST_HEAD_NUM] of
        None \<Rightarrow> Some (None, s)
      | Some i \<Rightarrow>
          (case queue s (FragQ i) of
             None \<Rightarrow> None
           | Some _ \<Rightarrow>
               let s1 = upd_frag i (\<lambda>e. e\<lparr>f_id := ntohs (ld16 (pdata s k) (OFFSET_IPHDR + 4))\<rparr>) s
               in Some (Some i, upd_frag i (\<lambda>e. e\<lparr>f_timeout := OS_TICKS s\<rparr>) (q_add_tail k (FragQ i) s1))))"

definition free_frag_list :: "nat \<Rightarrow> 'a net_scheme \<Rightarrow> 'a net_scheme option" where
  "free_frag_list i s =
     (case queue s (FragQ i) of
        None \<Rightarrow> None
      | Some ks \<Rightarrow>
          let s1 = fold free_skbuff ks s
          in Some (s1\<lparr>ip_frag_list_head := (ip_frag_list_head s1)(i := \<lparr>f_id = 0, current_len = 0, original_len = 0, f_timeout = 0\<rparr>),
                      queue := (queue s1)(FragQ i := None)\<rparr>))"

fun frag_expire :: "u32 \<Rightarrow> nat list \<Rightarrow> 'a net_scheme \<Rightarrow> 'a net_scheme option" where
  "frag_expire tick [] s = Some s"
| "frag_expire tick (i # is') s = do {
     s1 \<leftarrow> (if f_id (ip_frag_list_head s i) \<noteq> 0 \<and> tick - f_timeout (ip_frag_list_head s i) > IP_FRAG_LIFETIME
            then free_frag_list i s else Some s);
     frag_expire tick is' s1
   }"

definition ip_timer_tick :: "'a net_scheme \<Rightarrow> 'a net_scheme option" where
  "ip_timer_tick s = do {
     s1 \<leftarrow> frag_expire (OS_TICKS s) [0..<IP_FRAG_LIST_HEAD_NUM] s;
     map_option snd (mod_timer (ip_timer s1) IP_TICKS s1)
   }"

definition ip_init :: "'a net_scheme \<Rightarrow> 'a net_scheme option" where
  "ip_init s =
     (let s1 = fold (\<lambda>i s. q_init (FragQ i)
            (upd_frag i (\<lambda>_. \<lparr>f_id = 0, current_len = 0, original_len = 0, f_timeout = 0\<rparr>) s)) [0..<IP_FRAG_LIST_HEAD_NUM] s
      in map_option snd (add_timer (ip_timer s1) s1))"

section \<open>Dispatch\<close>

definition ip_do_recv :: "addr \<Rightarrow> 'a inetst_scheme \<Rightarrow> (int \<times> 'a inetst_scheme) option" where
  "ip_do_recv k s =
     (let proto = pdata s k (OFFSET_IPHDR + 9)
      in if proto = PROTO_ICMP then icmp_process k s
         else if proto = PROTO_UDP then Some (udp_process k s)
         else if proto = PROTO_TCP then tcp_received_data_handler k s
         else Some (- EPROTONOSUPPORT, free_skbuff k s))"

text \<open>The copy uses the length and the offset of the fragment as they stand in the header: the length
  in network order, the offset in units of eight bytes.\<close>

definition glue_frag :: "addr \<Rightarrow> addr \<Rightarrow> 'a net_scheme \<Rightarrow> 'a net_scheme" where
  "glue_frag k f s =
     (let p = pdata s f;
          dest = OFFSET_IPDATA + unat (ntohs (ld16 p (OFFSET_IPHDR + 6)) AND IP_FRAG_MASK)
      in upd_data k (stn dest (ldn p OFFSET_IPDATA (unat (ld16 p (OFFSET_IPHDR + 2))))) s)"

definition ip_fragment_glue :: "nat \<Rightarrow> 'a inetst_scheme \<Rightarrow> (int \<times> 'a inetst_scheme) option" where
  "ip_fragment_glue i s =
     (let (k, s1) = alloc_skbuff (original_len (ip_frag_list_head s i)) s
      in if k = NULL then map_option (Pair 0) (free_frag_list i s1)
         else do {
           s2 \<leftarrow> free_frag_list i (fold (glue_frag k) (q_elems (FragQ i) s1) s1);
           ip_do_recv k s2
         })"

definition ip_try_fragment_glue :: "addr \<Rightarrow> 'a inetst_scheme \<Rightarrow> (int \<times> 'a inetst_scheme) option" where
  "ip_try_fragment_glue k s =
     (if k = NULL then Some (0, s)
      else
        let p = pdata s k; frag_off = ntohs (ld16 p (OFFSET_IPHDR + 6)); tot_len = ld16 p (OFFSET_IPHDR + 2)
        in do {
             (h, s1) \<leftarrow> (case search_frag_list (ntohs (ld16 p (OFFSET_IPHDR + 4))) s of
                          Some i \<Rightarrow> Some (Some i, s)
                        | None \<Rightarrow> add_frag_list k s);
             case h of
               None \<Rightarrow> Some (0, free_skbuff k s1)
             | Some i \<Rightarrow>
                 let s2 = upd_frag i (\<lambda>e. e\<lparr>current_len := current_len e + tot_len\<rparr>) s1;
                     s3 = (if frag_off AND IP_MF = 0
                           then upd_frag i (\<lambda>e. e\<lparr>original_len := (frag_off AND IP_FRAG_MASK) + tot_len\<rparr>) s2 else s2)
                 in if current_len (ip_frag_list_head s3 i) = original_len (ip_frag_list_head s3 i)
                    then ip_fragment_glue i s3 else Some (0, s3)
           })"

definition ip_recv :: "addr \<Rightarrow> 'a inetst_scheme \<Rightarrow> (int \<times> 'a inetst_scheme) option" where
  "ip_recv k s =
     (let frag_off = ntohs (ld16 (pdata s k) (OFFSET_IPHDR + 6))
      in if frag_off AND IP_MF \<noteq> 0 \<or> frag_off AND IP_FRAG_MASK \<noteq> 0 then ip_try_fragment_glue k s else ip_do_recv k s)"

definition eth_recv :: "int \<Rightarrow> addr \<Rightarrow> 'a inetst_scheme \<Rightarrow> (int \<times> 'a inetst_scheme) option" where
  "eth_recv ret k s =
     (let proto = ntohs (ld16 (pdata s k) 12)
      in if proto = ETH_P_IP then ip_recv k (updata_arp_table k s)
         else if proto = ETH_P_ARP then Some (arp_process ret k s)
         else Some (0, free_skbuff k s))"

text \<open>One round of the receive thread: every frame queued at the start of the round is unlinked and
  handled in order.\<close>

fun rx_round :: "int \<Rightarrow> addr list \<Rightarrow> 'a inetst_scheme \<Rightarrow> 'a inetst_scheme option" where
  "rx_round ret [] s = Some s"
| "rx_round ret (k # ks) s = do {
     (r, s1) \<leftarrow> eth_recv ret k (exit_critical (q_del k (enter_critical s)));
     rx_round ret ks s1
   }"

definition netif_rx_thread_round :: "int \<Rightarrow> 'a inetst_scheme \<Rightarrow> 'a inetst_scheme option" where
  "netif_rx_thread_round ret s = rx_round ret (q_elems RxQ s) s"

end
