(* ===== verification/Inet_Inv.thy ===== *)
theory Inet_Inv
  imports Inet_Recv
begin

text \<open>
  Correctness of the upper half of the network stack: what happens to fragments, how a send is cut
  into segments, the order of the receive queue, and the options of a received segment.
\<close>

section \<open>Steps that deliver nothing\<close>

definition quiet :: "'a inetst_scheme \<Rightarrow> 'a inetst_scheme \<Rightarrow> bool" where
  "quiet s s' \<longleftrightarrow> isk_at s' = isk_at s \<and> chip_frames s' = chip_frames s \<and>
     (\<forall>i. set (q_elems (RecvQ i) s') \<subseteq> set (q_elems (RecvQ i) s))"

lemma quiet_refl [simp]: "quiet s s"
  by (simp add: quiet_def)

lemma quiet_trans: "quiet s t \<Longrightarrow> quiet t u \<Longrightarrow> quiet s u"
  by (auto simp: quiet_def)

lemma crit_inet [simp]:
  "isk_at (enter_critical s) = isk_at s" "isk_at (exit_critical s) = isk_at s"
  by (simp_all add: enter_critical_def exit_critical_def disable_irq_def enable_irq_def Let_def)

lemma quiet_free: "quiet s (free_skbuff k s)"
proof -
  have "set (q_elems q (free_skbuff k s)) \<subseteq> set (q_elems q s)" for q
    using set_remove1_subset [of k] by (cases "queue s q") (auto simp: free_skbuff_def q_del_def q_elems_def Let_def)
  moreover have "isk_at (free_skbuff k s) = isk_at s" by (simp add: free_skbuff_def q_del_def Let_def)
  ultimately show ?thesis by (simp add: quiet_def)
qed

lemma quiet_fold: "(\<And>x s. x \<in> set xs \<Longrightarrow> quiet s (f x s)) \<Longrightarrow> quiet s (fold f xs s)"
  by (induction xs arbitrary: s) (auto intro: quiet_trans)

lemma quiet_alloc:
  assumes "alloc_skbuff n s = (k, s')"
  shows "quiet s s'" "queue s' = queue s" "k \<noteq> NULL \<Longrightarrow> pdata s' k = (\<lambda>_. 0)"
    "ip_frag_list_head s' = ip_frag_list_head s"
proof -
  have c: "queue (enter_critical s) = queue s" "ip_frag_list_head (enter_critical u) = ip_frag_list_head u"
    "ip_frag_list_head (exit_critical u) = ip_frag_list_head u" for u :: "'a inetst_scheme"
    by (simp_all add: enter_critical_def exit_critical_def disable_irq_def enable_irq_def Let_def)
  show "quiet s s'" "queue s' = queue s" "k \<noteq> NULL \<Longrightarrow> pdata s' k = (\<lambda>_. 0)"
    "ip_frag_list_head s' = ip_frag_list_head s"
    using assms by (auto simp: alloc_skbuff_def net_kmalloc_def Let_def quiet_def q_elems_def c split: option.splits if_splits)
qed

lemma glue_frag_quiet:
  "quiet s (glue_frag k f s)" "queue (glue_frag k f s) = queue s"
  "j < OFFSET_IPDATA \<Longrightarrow> pdata (glue_frag k f s) k j = pdata s k j"
  by (simp_all add: glue_frag_def Let_def quiet_def q_elems_def stn_def)

lemma glue_frags_quiet:
  "quiet s (fold (glue_frag k) fs s) \<and> queue (fold (glue_frag k) fs s) = queue s \<and>
   (\<forall>j<OFFSET_IPDATA. pdata (fold (glue_frag k) fs s) k j = pdata s k j)"
  by (induction fs arbitrary: s) (auto simp: glue_frag_quiet intro: quiet_trans [OF glue_frag_quiet(1)])

lemma free_frags_quiet:
  assumes "queue s (FragQ i) = Some ks"
  obtains s' where "free_frag_list i s = Some s'" "quiet s s'" "\<And>k j. pdata s k j = 0 \<Longrightarrow> pdata s' k j = 0"
proof -
  let ?s1 = "fold free_skbuff ks s"
  define s' where "s' = ?s1\<lparr>ip_frag_list_head := (ip_frag_list_head ?s1)(i := \<lparr>f_id = 0, current_len = 0, original_len = 0, f_timeout = 0\<rparr>),
                      queue := (queue ?s1)(FragQ i := None)\<rparr>"
  have "quiet s ?s1" by (rule quiet_fold) (rule quiet_free)
  then have q: "quiet s s'" by (simp add: s'_def quiet_def q_elems_def)
  have one: "pdata (free_skbuff x u) k j = 0" if "pdata u k j = 0" for x k j and u :: "'a inetst_scheme"
    using that by (simp add: free_skbuff_def q_del_def Let_def zero_skb_def)
  have "pdata u k j = 0 \<Longrightarrow> pdata (fold free_skbuff ks u) k j = 0" for k j and u :: "'a inetst_scheme"
  proof (induction ks arbitrary: u)
    case (Cons x ks)
    from Cons.IH [OF one [OF Cons.prems]] show ?case by simp
  qed simp
  then have "pdata s k j = 0 \<Longrightarrow> pdata s' k j = 0" for k j by (simp add: s'_def)
  moreover have "free_frag_list i s = Some s'" using assms by (simp add: free_frag_list_def s'_def Let_def)
  ultimately show ?thesis using q that by blast
qed

lemma fragment_glue_quiet:
  assumes "queue s (FragQ i) = Some ks"
  shows "\<exists>r s'. ip_fragment_glue i s = Some (r, s') \<and> (r = 0 \<or> r = - EPROTONOSUPPORT) \<and> quiet s s'"
proof -
  obtain k s1 where a: "alloc_skbuff (original_len (ip_frag_list_head s i)) s = (k, s1)" by fastforce
  note al = quiet_alloc [OF a]
  show ?thesis
  proof (cases "k = NULL")
    case True
    obtain s' where "free_frag_list i s1 = Some s'" "quiet s1 s'"
      using free_frags_quiet [of s1 i ks] al(2) assms by metis
    with True al(1) show ?thesis by (auto simp: ip_fragment_glue_def a intro: quiet_trans)
  next
    case False
    let ?s2 = "fold (glue_frag k) (q_elems (FragQ i) s1) s1"
    have g: "quiet s1 ?s2" "queue ?s2 = queue s1" "pdata ?s2 k (OFFSET_IPHDR + 9) = 0"
      using glue_frags_quiet [of s1 k "q_elems (FragQ i) s1"] al(3) [OF False]
      by (auto simp: OFFSET_IPHDR_def OFFSET_IPDATA_def)
    obtain s3 where s3: "free_frag_list i ?s2 = Some s3" "quiet ?s2 s3" "pdata s3 k (OFFSET_IPHDR + 9) = 0"
      using free_frags_quiet [of ?s2 i ks] g al(2) assms by metis
    then have "ip_do_recv k s3 = Some (- EPROTONOSUPPORT, free_skbuff k s3)"
      by (simp add: ip_do_recv_def PROTO_ICMP_def PROTO_UDP_def PROTO_TCP_def)
    then have "ip_fragment_glue i s = Some (- EPROTONOSUPPORT, free_skbuff k s3)"
      using False s3(1) by (simp add: ip_fragment_glue_def a)
    moreover have "quiet s (free_skbuff k s3)"
      using al(1) g(1) s3(2) quiet_free quiet_trans by blast
    ultimately show ?thesis by blast
  qed
qed

lemma try_glue_quiet:
  assumes heads: "\<And>i. i < IP_FRAG_LIST_HEAD_NUM \<Longrightarrow> queue s (FragQ i) \<noteq> None"
  shows "\<exists>r s'. ip_try_fragment_glue k s = Some (r, s') \<and> (r = 0 \<or> r = - EPROTONOSUPPORT) \<and> quiet s s'"
proof (cases "k = NULL")
  case False
  let ?p = "pdata s k"
  let ?look = "(case search_frag_list (ntohs (ld16 ?p (OFFSET_IPHDR + 4))) s of
     Some i \<Rightarrow> Some (Some i, s) | None \<Rightarrow> add_frag_list k s)"
  obtain h s1 where h: "?look = Some (h, s1)" "quiet s s1" "\<And>i. h = Some i \<Longrightarrow> \<exists>ks. queue s1 (FragQ i) = Some ks"
  proof (cases "search_frag_list (ntohs (ld16 ?p (OFFSET_IPHDR + 4))) s")
    case (Some i)
    then have "i < IP_FRAG_LIST_HEAD_NUM" by (simp add: search_frag_list_def find_upt_Some)
    with heads Some that [of "Some i" s] show ?thesis by simp
  next
    case None
    show ?thesis
    proof (cases "find (\<lambda>i. f_id (ip_frag_list_head s i) = 0) [0..<IP_FRAG_LIST_HEAD_NUM]")
      case f: None
      then show ?thesis using None that [of None s] by (simp add: add_frag_list_def)
    next
      case (Some i)
      then have "i < IP_FRAG_LIST_HEAD_NUM" by (simp add: find_upt_Some)
      then obtain ks where ks: "queue s (FragQ i) = Some ks" using heads by blast
      define t where "t = snd (the (add_frag_list k s))"
      have "add_frag_list k s = Some (Some i, t)" using Some ks by (simp add: add_frag_list_def t_def Let_def)
      moreover have "quiet s t" "queue t (FragQ i) = Some (ks @ [k])"
        using Some ks by (simp_all add: t_def add_frag_list_def Let_def q_add_tail_def quiet_def q_elems_def)
      ultimately show ?thesis using None that [of "Some i" t] by simp
    qed
  qed
  show ?thesis
  proof (cases h)
    case None
    then have "ip_try_fragment_glue k s = Some (0, free_skbuff k s1)"
      using h(1) False by (simp add: ip_try_fragment_glue_def Let_def)
    then show ?thesis using h(2) quiet_free quiet_trans by blast
  next
    case (Some i)
    let ?fo = "ntohs (ld16 ?p (OFFSET_IPHDR + 6))" and ?tl = "ld16 ?p (OFFSET_IPHDR + 2)"
    define s2 where "s2 = upd_frag i (\<lambda>e. e\<lparr>current_len := current_len e + ?tl\<rparr>) s1"
    define s3 where "s3 = (if ?fo AND IP_MF = 0 then upd_frag i (\<lambda>e. e\<lparr>original_len := (?fo AND IP_FRAG_MASK) + ?tl\<rparr>) s2 else s2)"
    have q3: "quiet s1 s3" "queue s3 = queue s1" by (simp_all add: s3_def s2_def quiet_def q_elems_def)
    have e: "ip_try_fragment_glue k s = (if current_len (ip_frag_list_head s3 i) = original_len (ip_frag_list_head s3 i)
        then ip_fragment_glue i s3 else Some (0, s3))"
      using h(1) False Some by (simp add: ip_try_fragment_glue_def Let_def s3_def s2_def)
    obtain ks where "queue s3 (FragQ i) = Some ks" using h(3) [OF Some] q3(2) by auto
    from fragment_glue_quiet [OF this] obtain r s' where
      "ip_fragment_glue i s3 = Some (r, s')" "r = 0 \<or> r = - EPROTONOSUPPORT" "quiet s3 s'" by blast
    moreover have t: "quiet s s3" by (rule quiet_trans [OF h(2) q3(1)])
    ultimately show ?thesis using e quiet_trans [OF t] by (cases "current_len (ip_frag_list_head s3 i) = original_len (ip_frag_list_head s3 i)") auto
  qed
qed (simp add: ip_try_fragment_glue_def)

section \<open>Segmentation\<close>

text \<open>Segments that carry consecutive sequence numbers from \<open>q\<close> on.\<close>

fun seg_chain :: "u32 \<Rightarrow> tcp_seg list \<Rightarrow> bool" where
  "seg_chain q [] \<longleftrightarrow> True"
| "seg_chain q (g # gs) \<longleftrightarrow> seg_send_seq g = q \<and> seg_len g = of_nat (length (seg_data g)) \<and>
     expected_ack g = q + of_nat (length (seg_data g)) \<and> seg_chain (expected_ack g) gs"

definition seg_bytes :: "tcp_seg list \<Rightarrow> nat" where
  "seg_bytes gs = sum_list (map (length \<circ> seg_data) gs)"

text \<open>What a send may do to its socket: new segments behind the old ones of the ready and the waiting
  list, the window charged for the ready ones, and the sequence number advanced.\<close>

definition sent :: "i_socket \<Rightarrow> byte list \<Rightarrow> tcp_seg list \<Rightarrow> i_socket \<Rightarrow> bool" where
  "sent e buf gs e' \<longleftrightarrow> seg_chain (send_seq e) gs \<and> concat (map seg_data gs) = buf \<and>
     list_all (\<lambda>g. 0 < length (seg_data g) \<and> length (seg_data g) \<le> unat (mss e)) gs \<and>
     (\<exists>rs ws. gs \<in> shuffles rs ws \<and>
        e' = e\<lparr>w_ready := w_ready e @ rs, w_wait := w_wait e @ ws, used_size := used_size e + of_nat (seg_bytes rs),
               send_seq := send_seq e + of_nat (length buf)\<rparr> \<and> used_size e' \<le> tot_size e')"

lemma alloc_tcp_seg_ok:
  assumes "\<And>n. km s n \<noteq> NULL"
  shows "alloc_tcp_seg s = (True, s\<lparr>km_n := km_n s + 2\<rparr>)"
  using assms by (simp add: alloc_tcp_seg_def net_kmalloc_def Let_def)

definition cut_seg :: "i_socket \<Rightarrow> byte list \<Rightarrow> nat \<Rightarrow> tcp_seg" where
  "cut_seg e buf n = \<lparr>seg_data = take n buf, seg_send_seq = send_seq e, seg_len = of_nat n,
     seg_retries = TCP_SEG_SEND_RETRIES, expected_ack = send_seq e + of_nat n\<rparr>"

lemma tcp_do_segment_step:
  assumes "buf \<noteq> []" "\<And>n. km s n \<noteq> NULL" "n = min (unat (mss (isk_at s i))) (length buf)"
  shows "tcp_do_segment i buf s = tcp_do_segment i (drop n buf)
     (queue_seg i (cut_seg (isk_at s i) buf n)
        (upd_isk i (\<lambda>e. e\<lparr>send_seq := send_seq e + of_nat n\<rparr>) (s\<lparr>km_n := km_n s + 2\<rparr>)))"
proof -
  have n: "n = (if unat (mss (isk_at s i)) \<le> length buf then unat (mss (isk_at s i)) else length buf)"
    using assms(3) by (simp add: min_def)
  show ?thesis using assms(1) alloc_tcp_seg_ok [OF assms(2)]
    by (subst tcp_do_segment.simps) (simp add: Let_def cut_seg_def n)
qed

lemma tcp_do_segment_sent:
  assumes "0 < mss (isk_at s i)" "\<And>n. km s n \<noteq> NULL"
    "used_size (isk_at s i) \<le> tot_size (isk_at s i)" "tot_size (isk_at s i) \<le> 0xffff"
  shows "\<exists>s' gs. tcp_do_segment i buf s = Some (0, s') \<and> sent (isk_at s i) buf gs (isk_at s' i)"
  using assms
proof (induction "length buf" arbitrary: buf s rule: less_induct)
  case less
  show ?case
  proof (cases "buf = []")
    case True
    then have "tcp_do_segment i buf s = Some (0, s)" by (subst tcp_do_segment.simps) simp
    moreover have "sent (isk_at s i) buf [] (isk_at s i)"
      using True less.prems(3) unfolding sent_def
      by (auto simp: seg_bytes_def intro!: exI [of _ "[]"])
    ultimately show ?thesis by blast
  next
    case False
    define e where "e = isk_at s i"
    define n where "n = min (unat (mss e)) (length buf)"
    define g where "g = cut_seg e buf n"
    define fits where "fits \<longleftrightarrow> used_size e + ucast (seg_len g) \<le> tot_size e"
    define e1 where "e1 = (if fits then e\<lparr>send_seq := send_seq e + of_nat n, w_ready := w_ready e @ [g], used_size := used_size e + of_nat n\<rparr>
        else e\<lparr>send_seq := send_seq e + of_nat n, w_wait := w_wait e @ [g]\<rparr>)"
    define s1 where "s1 = queue_seg i g (upd_isk i (\<lambda>e. e\<lparr>send_seq := send_seq e + of_nat n\<rparr>) (s\<lparr>km_n := km_n s + 2\<rparr>))"
    have m: "0 < unat (mss e)" using less.prems(1) by (simp add: e_def word_less_nat_alt)
    then have n: "0 < n" "n \<le> length buf" "n \<le> unat (mss e)" using False by (auto simp: n_def)
    then have n16: "n < 65536" using unat_u16 [of "mss e"] by linarith
    have len: "ucast (of_nat n :: u16) = (of_nat n :: u32)" "unat (of_nat n :: u16) = n"
      using n16 by (simp_all add: word_unat_eq_iff unat_of_nat)
    have e1: "isk_at s1 i = e1"
      by (simp add: s1_def queue_seg_def e1_def fits_def e_def g_def cut_seg_def len(1))
    have step: "tcp_do_segment i buf s = tcp_do_segment i (drop n buf) s1"
      unfolding s1_def g_def e_def by (rule tcp_do_segment_step) (use False less.prems(2) in \<open>auto simp: n_def e_def\<close>)
    have u: "used_size e1 \<le> tot_size e1" "tot_size e1 \<le> 0xffff" "mss e1 = mss e"
      using less.prems(3,4) by (auto simp: e1_def fits_def e_def g_def cut_seg_def len(1))
    have km1: "km s1 n \<noteq> NULL" for n using less.prems(2) by (simp add: s1_def queue_seg_def)
    have "\<exists>s' gs. tcp_do_segment i (drop n buf) s1 = Some (0, s') \<and> sent (isk_at s1 i) (drop n buf) gs (isk_at s' i)"
      by (rule less.hyps) (use n u km1 less.prems(1) e1 in \<open>auto simp: e_def\<close>)
    then obtain s' gs where r: "tcp_do_segment i (drop n buf) s1 = Some (0, s')" "sent e1 (drop n buf) gs (isk_at s' i)"
      using e1 by auto
    obtain rs ws where sh: "gs \<in> shuffles rs ws" "isk_at s' i = e1\<lparr>w_ready := w_ready e1 @ rs, w_wait := w_wait e1 @ ws,
        used_size := used_size e1 + of_nat (seg_bytes rs), send_seq := send_seq e1 + of_nat (length (drop n buf))\<rparr>"
      "used_size (isk_at s' i) \<le> tot_size (isk_at s' i)"
      using r(2) unfolding sent_def by blast
    have g: "seg_data g = take n buf" "length (seg_data g) = n" "seg_send_seq g = send_seq e" "seg_len g = of_nat n"
      "expected_ack g = send_seq e + of_nat n"
      using n(2) by (simp_all add: g_def cut_seg_def)
    have "send_seq e1 = send_seq e + of_nat n" by (simp add: e1_def)
    then have ch: "seg_chain (send_seq e) (g # gs)" "concat (map seg_data (g # gs)) = buf"
      "list_all (\<lambda>g. 0 < length (seg_data g) \<and> length (seg_data g) \<le> unat (mss e)) (g # gs)"
      using r(2) g n u(3) by (auto simp: sent_def)
    have tot: "send_seq e + of_nat n + of_nat (length (drop n buf)) = (send_seq e + of_nat (length buf) :: u32)"
      using n(2) by simp
    have "sent e buf (g # gs) (isk_at s' i)"
    proof (cases fits)
      case True
      have "g # gs \<in> shuffles (g # rs) ws" by (rule Cons_in_shuffles_leftI [OF sh(1)])
      moreover have "isk_at s' i = e\<lparr>w_ready := w_ready e @ (g # rs), w_wait := w_wait e @ ws,
        used_size := used_size e + of_nat (seg_bytes (g # rs)), send_seq := send_seq e + of_nat (length buf)\<rparr>"
        using sh(2) True tot by (simp add: e1_def seg_bytes_def g add.assoc min_absorb2 [OF n(2)])
      ultimately show ?thesis unfolding sent_def using ch sh(3) by blast
    next
      case F: False
      have "g # gs \<in> shuffles rs (g # ws)" by (rule Cons_in_shuffles_rightI [OF sh(1)])
      moreover have "isk_at s' i = e\<lparr>w_ready := w_ready e @ rs, w_wait := w_wait e @ (g # ws),
        used_size := used_size e + of_nat (seg_bytes rs), send_seq := send_seq e + of_nat (length buf)\<rparr>"
        using sh(2) F tot by (simp add: e1_def)
      ultimately show ?thesis unfolding sent_def using ch sh(3) by blast
    qed
    then show ?thesis using step r(1) by (auto simp: e_def)
  qed
qed

lemma tcp_do_segment_hangs:
  assumes "mss (isk_at s i) = 0" "\<And>n. km s n \<noteq> NULL" "buf \<noteq> []"
  shows "tcp_do_segment i buf s = None"
proof (cases "tcp_do_segment i buf s")
  case (Some r)
  have "mss (isk_at s i) = 0 \<longrightarrow> (\<forall>n. km s n \<noteq> NULL) \<longrightarrow> buf = []"
  proof (rule tcp_do_segment.raw_induct [OF _ Some])
    fix f i buf and s :: "'a inetst_scheme" and y
    assume IH: "\<And>i buf s y. f i buf s = Some y \<Longrightarrow> mss (isk_at s i) = 0 \<longrightarrow> (\<forall>n. km s n \<noteq> NULL) \<longrightarrow> buf = []"
      and body: "(if buf = [] then Some (0, s)
      else
        let m = unat (mss (isk_at s i));
            n = (if length buf \<ge> m then m else length buf);
            (ok, s1) = alloc_tcp_seg s
        in if \<not> ok then Some (- ENOMEM, s1)
           else
             let sq = send_seq (isk_at s1 i);
                 g = \<lparr>seg_data = take n buf, seg_send_seq = sq, seg_len = of_nat n,
                      seg_retries = TCP_SEG_SEND_RETRIES, expected_ack = sq + of_nat n\<rparr>;
                 s2 = upd_isk i (\<lambda>e. e\<lparr>send_seq := send_seq e + of_nat n\<rparr>) s1
             in f i (drop n buf) (queue_seg i g s2)) = Some y"
    show "mss (isk_at s i) = 0 \<longrightarrow> (\<forall>n. km s n \<noteq> NULL) \<longrightarrow> buf = []"
    proof (intro impI)
      assume z: "mss (isk_at s i) = 0" "\<forall>n. km s n \<noteq> NULL"
      show "buf = []"
      proof (rule ccontr)
        assume ne: "buf \<noteq> []"
        have a: "alloc_tcp_seg s = (True, s\<lparr>km_n := km_n s + 2\<rparr>)" by (rule alloc_tcp_seg_ok) (use z in auto)
        from body ne z(1) a have "\<exists>s'. f i buf s' = Some y \<and> mss (isk_at s' i) = 0 \<and> km s' = km s"
          by (auto simp: Let_def queue_seg_def intro!: exI)
        then show False using IH z(2) ne by metis
      qed
    qed
  qed
  with assms show ?thesis by auto
qed simp

section \<open>The options of a received segment\<close>

text \<open>An option whose length byte is 0 leaves the position and the remaining length as they were, so the
  loop does not end.\<close>

lemma tcp_opt_loop_hangs:
  assumes "0 < len" "p ptr \<noteq> 0" "p ptr \<noteq> 1" "p (ptr + 1) = 0"
  shows "tcp_opt_loop p ptr len e = None"
proof (cases "tcp_opt_loop p ptr len e")
  case (Some r)
  have "\<not> (0 < len \<and> p ptr \<noteq> 0 \<and> p ptr \<noteq> 1 \<and> p (ptr + 1) = 0)"
  proof (rule tcp_opt_loop.raw_induct [OF _ Some])
    fix f p ptr len e and y :: i_socket
    assume IH: "\<And>p ptr len e y. f p ptr len e = Some y \<Longrightarrow> \<not> (0 < len \<and> p ptr \<noteq> 0 \<and> p ptr \<noteq> 1 \<and> p (ptr + 1) = 0)"
      and body: "(if (0::int) < len
      then let (ptr1, n) = skip_nops p ptr (nat len)
           in if n = 0 then Some e
              else let opt_code = p ptr1; opt_size = unat (p (ptr1 + 1))
                   in if opt_code = 0 then Some e
                      else f p (ptr1 + opt_size) (int n - int opt_size)
                             (if opt_code = 2 then e\<lparr>mss := ntohs (ld16 p (ptr1 + 2))\<rparr>
                              else if opt_code = 4 then e\<lparr>sack := 1\<rparr>
                              else if opt_code = 3 then e\<lparr>window_shift := ucast (p (ptr1 + 2))\<rparr>
                              else e)
      else Some e) = Some y"
    show "\<not> (0 < len \<and> p ptr \<noteq> 0 \<and> p ptr \<noteq> 1 \<and> p (ptr + 1) = 0)"
    proof
      assume z: "0 < len \<and> p ptr \<noteq> 0 \<and> p ptr \<noteq> 1 \<and> p (ptr + 1) = 0"
      then obtain m where m: "nat len = Suc m" by (metis gr0_implies_Suc zero_less_nat_eq)
      then have l: "int (Suc m) = len" using z by simp
      from body z m have "\<exists>e'. f p ptr (int (Suc m)) e' = Some y" by (auto simp: Let_def)
      with l IH z show False by metis
    qed
  qed
  with assms show ?thesis by blast
qed simp

section \<open>The receive queue\<close>

definition in_order :: "'a inetst_scheme \<Rightarrow> addr list \<Rightarrow> bool" where
  "in_order s xs \<longleftrightarrow> sorted_wrt (\<lambda>a b. seq_of s a < seq_of s b) xs"

text \<open>The backward search splits the queue at the new sequence number.\<close>

lemma sort_search_split:
  assumes "sorted_wrt (\<lambda>a b. f a < f b) xs" "sort_search f q (rev xs) = Some rest"
  shows "\<exists>later. xs = rev rest @ later \<and> (\<forall>x\<in>set rest. f x < q) \<and> (\<forall>x\<in>set later. q < f x)"
  using assms
proof (induction xs rule: rev_induct)
  case (snoc x xs)
  show ?case
  proof (cases "f x < q")
    case True
    then have "rest = x # rev xs" using snoc.prems(2) by simp
    then show ?thesis using True snoc.prems(1) by (fastforce simp: sorted_wrt_append)
  next
    case False
    then have "q < f x" "sort_search f q (rev xs) = Some rest" using snoc.prems(2) by (auto split: if_splits)
    moreover have "sorted_wrt (\<lambda>a b. f a < f b) xs" using snoc.prems(1) by (simp add: sorted_wrt_append)
    ultimately show ?thesis using snoc.IH by fastforce
  qed
qed simp

lemma sort_search_None: "sorted_wrt (\<lambda>a b. f a < f b) xs \<Longrightarrow> sort_search f q (rev xs) = None \<longleftrightarrow> q \<in> f ` set xs"
proof (induction xs rule: rev_induct)
  case (snoc x xs)
  then have lt: "\<forall>y\<in>set xs. f y < f x" "sorted_wrt (\<lambda>a b. f a < f b) xs" by (auto simp: sorted_wrt_append)
  show ?case
  proof (cases "f x < q")
    case True
    with lt(1) have "q \<notin> f ` set (xs @ [x])" by force
    with True show ?thesis by simp
  next
    case False
    then show ?thesis using snoc.IH [OF lt(2)] by auto
  qed
qed simp

lemma insert_in_order:
  assumes "in_order s xs" "sort_search (seq_of s) (seq_of s k) (rev xs) = Some rest"
  shows "in_order s (rev rest @ k # drop (length rest) xs)"
    "set (rev rest @ k # drop (length rest) xs) = insert k (set xs)"
proof -
  from sort_search_split [OF assms [unfolded in_order_def]] obtain later where
    l: "xs = rev rest @ later" "\<forall>x\<in>set rest. seq_of s x < seq_of s k" "\<forall>x\<in>set later. seq_of s k < seq_of s x" by blast
  then have d: "drop (length rest) xs = later" by simp
  show "in_order s (rev rest @ k # drop (length rest) xs)"
    using assms(1) l unfolding d by (auto simp: in_order_def sorted_wrt_append)
  show "set (rev rest @ k # drop (length rest) xs) = insert k (set xs)" unfolding d using l(1) by auto
qed

section \<open>Reading a connection\<close>

definition payload :: "'a net_scheme \<Rightarrow> addr \<Rightarrow> byte list" where
  "payload s k = ldn (pdata s k) (tcp_get_data_off (pdata s k)) (unat (tcp_get_data_lenght (pdata s k)))"

text \<open>The bytes a reader has still to see: what the queued segments carry, from the read position on.\<close>

definition stream :: "addr \<Rightarrow> 'a inetst_scheme \<Rightarrow> byte list" where
  "stream i s = drop (unat (read_ptr (isk_at s i))) (concat (map (payload s) (q_elems (RecvQ i) s)))"

definition read_ok :: "addr \<Rightarrow> 'a inetst_scheme \<Rightarrow> bool" where
  "read_ok i s \<longleftrightarrow> (\<exists>ks. queue s (RecvQ i) = Some ks \<and> distinct ks \<and> NULL \<notin> set ks \<and>
     (case ks of [] \<Rightarrow> read_ptr (isk_at s i) = 0
      | k # _ \<Rightarrow> unat (read_ptr (isk_at s i)) \<le> length (payload s k)))"

lemma reader_cong:
  assumes "queue s' = queue s" "read_ptr (isk_at s' i) = read_ptr (isk_at s i)" "skb_at s' = skb_at s"
  shows "stream i s' = stream i s" "read_ok i s' = read_ok i s"
proof -
  have p: "payload s' = payload s" by (simp add: payload_def fun_eq_iff assms)
  show "stream i s' = stream i s" unfolding stream_def q_elems_def p assms ..
  show "read_ok i s' = read_ok i s" unfolding read_ok_def p assms ..
qed

lemma ldn_drop: "drop r (ldn p i n) = ldn p (i + r) (n - r)"
  by (rule nth_equalityI) (auto simp: ldn_def less_diff_conv ac_simps)

lemma ldn_take: "m \<le> n \<Longrightarrow> take m (ldn p i n) = ldn p i m"
  by (rule nth_equalityI) (simp_all add: ldn_def)

lemma recv_loop_stream:
  assumes "q_elems (RecvQ i) s = ks" "read_ok i s" "0 \<le> room" "recv_loop i ks out room s = (out', room', s')"
  shows "out' = out @ take (nat room) (stream i s) \<and> room' = room - int (length (take (nat room) (stream i s))) \<and>
    stream i s' = drop (nat room) (stream i s) \<and> read_ok i s' \<and>
    isk_at s' i = (isk_at s i)\<lparr>read_ptr := read_ptr (isk_at s' i)\<rparr>"
  using assms
proof (induction ks arbitrary: out room s)
  case Nil
  then show ?case by (auto simp: stream_def)
next
  case (Cons k ks)
  define p where "p = pdata s k"
  define r where "r = read_ptr (isk_at s i)"
  define dl where "dl = tcp_get_data_lenght p"
  have q: "queue s (RecvQ i) = Some (k # ks)" "distinct (k # ks)" "NULL \<notin> set (k # ks)" "unat r \<le> length (payload s k)"
    using Cons.prems(1,2) by (auto simp: read_ok_def q_elems_def r_def)
  have pl: "payload s k = ldn p (tcp_get_data_off p) (unat dl)" by (simp add: payload_def p_def dl_def)
  have rdl: "unat r \<le> unat dl" using q(4) by (simp add: pl)
  then have rem: "unat (dl - r) = unat dl - unat r" by (simp add: unat_sub word_le_nat_alt)
  have urem: "uint (dl - r) = int (unat dl - unat r)" using rem by (metis uint_nat)
  have hd: "drop (unat r) (payload s k) = ldn p (tcp_get_data_off p + unat r) (unat dl - unat r)"
    by (simp add: pl ldn_drop)
  have st: "stream i s = ldn p (tcp_get_data_off p + unat r) (unat dl - unat r) @ concat (map (payload s) ks)"
    using q rdl hd by (simp add: stream_def q_elems_def r_def [symmetric] pl)
  show ?case
  proof (cases "uint (dl - r) \<le> room")
    case True
    define s1 where "s1 = free_skbuff k (upd_isk i (\<lambda>e. e\<lparr>read_ptr := 0\<rparr>) s)"
    have s1: "queue s1 (RecvQ i) = Some ks" "isk_at s1 i = (isk_at s i)\<lparr>read_ptr := 0\<rparr>" "\<And>j. j \<noteq> k \<Longrightarrow> skb_at s1 j = skb_at s j"
      using q by (auto simp: s1_def free_skbuff_def q_del_def Let_def)
    have "payload s1 x = payload s x" if "x \<in> set ks" for x
    proof -
      have "x \<noteq> k" using that q(2) by auto
      then show ?thesis by (simp add: payload_def s1(3))
    qed
    then have pay: "concat (map (payload s1) ks) = concat (map (payload s) ks)" by (simp cong: map_cong)
    have ok1: "read_ok i s1" using q(2,3) s1 by (auto simp: read_ok_def split: list.splits)
    have st1: "stream i s1 = concat (map (payload s) ks)" using s1 pay by (simp add: stream_def q_elems_def)
    let ?b = "ldn p (tcp_get_data_off p + unat r) (unat dl - unat r)"
    have "recv_loop i ks (out @ ?b) (room - uint (dl - r)) s1 = (out', room', s')"
      using Cons.prems(4) True by (simp add: s1_def p_def r_def dl_def Let_def rem [unfolded p_def r_def dl_def])
    moreover have "q_elems (RecvQ i) s1 = ks" using s1(1) by (simp add: q_elems_def)
    ultimately have IH: "out' = (out @ ?b) @ take (nat (room - uint (dl - r))) (stream i s1)"
      "room' = room - uint (dl - r) - int (length (take (nat (room - uint (dl - r))) (stream i s1)))"
      "stream i s' = drop (nat (room - uint (dl - r))) (stream i s1)" "read_ok i s'"
      "isk_at s' i = (isk_at s1 i)\<lparr>read_ptr := read_ptr (isk_at s' i)\<rparr>"
      using Cons.IH [of s1 "room - uint (dl - r)" "out @ ?b"] ok1 True by auto
    have n: "nat room = length ?b + nat (room - uint (dl - r))" using True urem by simp
    show ?thesis using IH s1(2) by (simp add: st st1 n) (use n urem in simp)
  next
    case False
    then have lt: "nat room < unat dl - unat r" using urem Cons.prems(3) by linarith
    have e: "out' = out @ ldn p (tcp_get_data_off p + unat r) (nat room)" "room' = 0"
      "s' = upd_isk i (\<lambda>e. e\<lparr>read_ptr := read_ptr e + of_int room\<rparr>) s"
      using Cons.prems(4) False by (simp_all add: p_def r_def dl_def Let_def)
    have rp: "unat (r + of_int room) = unat r + nat room"
    proof -
      have "(of_int room :: u16) = of_nat (nat room)" using Cons.prems(3) by simp
      moreover have "unat r + nat room < 65536" using lt unat_u16 [of dl] by linarith
      ultimately show ?thesis by (simp add: unat_word_ariths unat_of_nat)
    qed
    have pay: "payload s' = payload s" by (simp add: e(3) payload_def fun_eq_iff)
    have "stream i s' = drop (nat room) (stream i s)"
      using q rp pay lt by (simp add: stream_def q_elems_def e(3) r_def [symmetric] add.commute)
    moreover have "read_ok i s'" using q rp pay lt rdl by (auto simp: read_ok_def e(3) r_def [symmetric] pl)
    ultimately show ?thesis using e lt Cons.prems(3) by (simp add: st ldn_take)
  qed
qed

section \<open>Properties\<close>

definition demo_inet :: inetst where
  "demo_inet = net.extend
     (demo_net\<lparr>skb_at := (\<lambda>k. zero_skb\<lparr>use_flag := (if k = 0x30006000 then 1 else 0),
        sdata := (\<lambda>j. if j = 17 then 43 else if j = 20 then 0x20 else if j = 46 then 0x50 else if j = 54 then 65 else if j = 55 then 66 else if j = 56 then 67 else 0)\<rparr>),
      queue := (\<lambda>q. if q = RecvQ 0x3000a000 then Some [0x30006000] else Some [])\<rparr>)
     (inetst.fields (\<lambda>i. zero_isk\<lparr>mss := 2, tot_size := 4, status := ESTABLISHED, recv_data_len := 3\<rparr>) [0x3000a000] [] [] 10002 10000 0x30001000)"

lemma demo_inet_sel:
  "queue demo_inet q = (if q = RecvQ 0x3000a000 then Some [0x30006000] else Some [])"
  "isk_at demo_inet i = zero_isk\<lparr>mss := 2, tot_size := 4, status := ESTABLISHED, recv_data_len := 3\<rparr>"
  "pdata demo_inet k = (\<lambda>j. if j = 17 then 43 else if j = 20 then 0x20 else if j = 46 then 0x50 else if j = 54 then 65 else if j = 55 then 66 else if j = 56 then 67 else 0)"
  "km demo_inet n = 0x30000000 OR push_bit 11 (of_nat n)" "chip_frames demo_inet = []"
  by (simp_all add: demo_inet_def net.extend_def inetst.fields_def demo_net_def sched.extend_def net.fields_def)





text \<open>C15. Reading a connection. For a reader whose position lies in the first queued segment,
  \<open>tcp_recv\<close> returns the next bytes of the stream, as many as asked for or as are there, in
  queue order, and leaves exactly the rest of the stream for the next call.\<close>

theorem tcp_recv_reads_stream:
  assumes "i \<noteq> NULL" "ubuf \<noteq> NULL" "0 \<le> len" "\<not> nonblock" "recv_data_len (isk_at s i) \<noteq> 0" "i_errno (isk_at s i) = 0"
    and "read_ok i s"
  shows "\<exists>s'. tcp_recv i ubuf len nonblock s =
       (Returns (int (length (take (nat len) (stream i s)))), take (nat len) (stream i s), s') \<and>
     stream i s' = drop (nat len) (stream i s) \<and> read_ok i s' \<and>
     recv_data_len (isk_at s' i) = recv_data_len (isk_at s i) - of_nat (length (take (nat len) (stream i s)))"
proof -
  let ?s1 = "enter_critical s"
  obtain out room s2 where r: "recv_loop i (q_elems (RecvQ i) ?s1) [] len ?s1 = (out, room, s2)" by (metis prod_cases3)
  have same: "stream i ?s1 = stream i s" "read_ok i ?s1" using assms(7) reader_cong [of ?s1 s i] by simp_all
  from recv_loop_stream [OF refl same(2) assms(3) r]
  have l: "out = take (nat len) (stream i s)" "room = len - int (length out)"
    "stream i s2 = drop (nat len) (stream i s)" "read_ok i s2"
    "isk_at s2 i = (isk_at ?s1 i)\<lparr>read_ptr := read_ptr (isk_at s2 i)\<rparr>" by (simp_all add: same(1))
  define s' where "s' = upd_isk i (\<lambda>e. e\<lparr>recv_data_len := recv_data_len e - of_int (len - room)\<rparr>) (exit_critical s2)"
  have "tcp_recv i ubuf len nonblock s = (Returns (len - room), out, s')"
    using assms r by (simp add: tcp_recv_def Let_def s'_def)
  moreover have "stream i s' = stream i s2" "read_ok i s' = read_ok i s2"
    by (rule reader_cong; simp add: s'_def)+
  moreover have "recv_data_len (isk_at s2 i) = recv_data_len (isk_at s i)" using l(5) by (metis crit_inet(1) i_socket.simps(1) i_socket.surjective i_socket.update_convs(2))
  ultimately show ?thesis using l by (simp add: s'_def)
qed

theorem tcp_recv_reads_stream_witness:
  "\<exists>s'. tcp_recv 0x3000a000 0x30020000 2 False demo_inet = (Returns 2, [65, 66], s') \<and> stream 0x3000a000 s' = [67]"
proof -
  have "read_ok 0x3000a000 demo_inet" by (simp add: read_ok_def demo_inet_sel zero_isk_def)
  moreover have "stream 0x3000a000 demo_inet = [65, 66, 67]"
    by (simp add: stream_def q_elems_def demo_inet_sel zero_isk_def payload_def tcp_get_data_off_def tcp_get_data_lenght_def
        doff_def OFFSET_TCPHDR_def OFFSET_IPHDR_def ld16_def ntohs_def BigLittleSwap16_def ldn_def upt_rec)
  ultimately show ?thesis
    using tcp_recv_reads_stream [of "0x3000a000" "0x30020000" 2 False demo_inet] by (auto simp: demo_inet_sel zero_isk_def)
qed

end
