(* ===== verification/Blkdev.thy ===== *)
theory Blkdev
  imports Tcp "HOL-Library.Signed_Division"
begin

text \<open>
  The block layer (\<^verbatim>\<open>src/driver/block_dev.c\<close>), its two drivers, the RAM disk
  (\<^verbatim>\<open>src/fs/ramdisk.c\<close>) and the NAND flash (\<^verbatim>\<open>src/driver/nand.c\<close>), and the
  character device table (\<^verbatim>\<open>src/driver/char_dev.c\<close>), with the objects of the virtual
  file system they share (\<^verbatim>\<open>src/include/fs.h\<close>). The data of RAM files lie in the byte
  memory \<open>ram\<close>; a buffer that a function allocates, fills and frees is a function from offsets
  to bytes, zero at first because \<^verbatim>\<open>kmalloc\<close> clears what it returns.
\<close>

section \<open>Constants and state\<close>

definition EPERM :: int where "EPERM = 1"
definition ENOENT :: int where "ENOENT = 2"
definition ENOTBLK :: int where "ENOTBLK = 15"
definition ENODEV :: int where "ENODEV = 19"
definition ENOTDIR :: int where "ENOTDIR = 20"
definition EMFILE :: int where "EMFILE = 24"
definition ENOSPC :: int where "ENOSPC = 28"
definition EROFS :: int where "EROFS = 30"

definition NR_OPEN :: nat where "NR_OPEN = 16"
definition NR_FILEP :: nat where "NR_FILEP = 32"
definition NR_SUPER :: nat where "NR_SUPER = 32"
definition NR_BLKDEV :: nat where "NR_BLKDEV = 32"
definition NR_CHRDEV :: nat where "NR_CHRDEV = 32"
definition SECTOR :: u32 where "SECTOR = 512"
definition RAMDISK_SECTOR_SIZE :: u32 where "RAMDISK_SECTOR_SIZE = 512"
definition RAMDISK_DEV_NUM :: u32 where "RAMDISK_DEV_NUM = 1"
definition NAND_DEV_NUM :: u32 where "NAND_DEV_NUM = 3"

text \<open>The operation tables, by name: \<open>Ext_fops n\<close> is a table of code above or beside the
  file system (sockets, drivers, ofs), which the operations that call it take as a parameter.\<close>

datatype fops = Ramfs_fops | Romfs_fops | Def_chr_fops | Def_blk_fops | Ext_fops nat
datatype iops = Ramfs_iops | Romfs_iops | Chrdev_iops | Blkdev_iops
datatype blkdrv = Ramdisk_drv | Nand_drv

record inode =
  i_dev :: u32
  i_ino :: u32
  i_size :: u32
  i_op :: "iops option"
  i_sb :: "nat option"
  i_mount :: addr
  i_mode :: u32
  i_rdev :: u32
  i_count :: u32
  i_what :: addr

record filp =
  f_mode :: u32
  f_pos :: u32
  f_flags :: u16
  f_count :: u16
  f_inode :: addr
  f_op :: "fops option"

record super_block =
  s_covered :: addr
  s_mounted :: addr
  s_dev :: u32
  s_flags :: u32
  s_type :: u32
  s_inodes :: "addr list"

record ramfs_inode =
  r_name :: "byte list"
  start_addr :: addr
  r_size :: u32
  r_child :: addr
  r_next :: addr
  r_prev :: addr
  r_inode :: addr

record blk_dev_struct =
  b_dev :: u32
  request_fn :: "blkdrv option"
  b_fops :: "fops option"
  get_disk_info :: "blkdrv option"

record chr_dev_struct =
  c_dev :: u32
  c_fops :: "fops option"
  private_data :: addr

record vfs = inetst +
  inode_at :: "addr \<Rightarrow> inode"
  rnode_at :: "addr \<Rightarrow> ramfs_inode"
  ram :: memory
  file_at :: "addr \<Rightarrow> filp"
  FILP :: "nat \<Rightarrow> addr"
  super_blocks :: "nat \<Rightarrow> super_block"
  blk_devs :: "nat \<Rightarrow> blk_dev_struct"
  chr_devs :: "nat \<Rightarrow> chr_dev_struct"
  static_rw_buf :: "nat \<Rightarrow> byte"
  nand_page :: "u32 \<Rightarrow> nat \<Rightarrow> byte"
  ROOT_DEV :: u32

definition zero_inode :: inode where
  "zero_inode = \<lparr>i_dev = 0, i_ino = 0, i_size = 0, i_op = None, i_sb = None, i_mount = NULL, i_mode = 0,
     i_rdev = 0, i_count = 0, i_what = NULL\<rparr>"

definition zero_rnode :: ramfs_inode where
  "zero_rnode = \<lparr>r_name = replicate 16 0, start_addr = NULL, r_size = 0, r_child = NULL, r_next = NULL,
     r_prev = NULL, r_inode = NULL\<rparr>"

definition zero_chr :: chr_dev_struct where
  "zero_chr = \<lparr>c_dev = 0, c_fops = None, private_data = NULL\<rparr>"

abbreviation upd_inode :: "addr \<Rightarrow> (inode \<Rightarrow> inode) \<Rightarrow> 'a vfs_scheme \<Rightarrow> 'a vfs_scheme" where
  "upd_inode a f s \<equiv> s\<lparr>inode_at := (inode_at s)(a := f (inode_at s a))\<rparr>"

abbreviation upd_rnode :: "addr \<Rightarrow> (ramfs_inode \<Rightarrow> ramfs_inode) \<Rightarrow> 'a vfs_scheme \<Rightarrow> 'a vfs_scheme" where
  "upd_rnode a f s \<equiv> s\<lparr>rnode_at := (rnode_at s)(a := f (rnode_at s a))\<rparr>"

abbreviation upd_file :: "addr \<Rightarrow> (filp \<Rightarrow> filp) \<Rightarrow> 'a vfs_scheme \<Rightarrow> 'a vfs_scheme" where
  "upd_file a f s \<equiv> s\<lparr>file_at := (file_at s)(a := f (file_at s a))\<rparr>"

abbreviation upd_sb :: "nat \<Rightarrow> (super_block \<Rightarrow> super_block) \<Rightarrow> 'a vfs_scheme \<Rightarrow> 'a vfs_scheme" where
  "upd_sb i f s \<equiv> s\<lparr>super_blocks := (super_blocks s)(i := f (super_blocks s i))\<rparr>"

abbreviation upd_blk :: "nat \<Rightarrow> (blk_dev_struct \<Rightarrow> blk_dev_struct) \<Rightarrow> 'a vfs_scheme \<Rightarrow> 'a vfs_scheme" where
  "upd_blk i f s \<equiv> s\<lparr>blk_devs := (blk_devs s)(i := f (blk_devs s i))\<rparr>"

abbreviation upd_chr :: "nat \<Rightarrow> (chr_dev_struct \<Rightarrow> chr_dev_struct) \<Rightarrow> 'a vfs_scheme \<Rightarrow> 'a vfs_scheme" where
  "upd_chr i f s \<equiv> s\<lparr>chr_devs := (chr_devs s)(i := f (chr_devs s i))\<rparr>"

section \<open>Copying between buffers and memory\<close>

definition overlay :: "nat \<Rightarrow> nat \<Rightarrow> (nat \<Rightarrow> byte) \<Rightarrow> (nat \<Rightarrow> byte) \<Rightarrow> nat \<Rightarrow> byte" where
  "overlay off n src dst = (\<lambda>i. if off \<le> i \<and> i < off + n then src (i - off) else dst i)"

definition from_mem :: "memory \<Rightarrow> addr \<Rightarrow> nat \<Rightarrow> byte" where
  "from_mem m a = (\<lambda>i. m (a + of_nat i))"

definition to_mem :: "addr \<Rightarrow> nat \<Rightarrow> (nat \<Rightarrow> byte) \<Rightarrow> memory \<Rightarrow> memory" where
  "to_mem a n b m = (\<lambda>x. if unat (x - a) < n then b (unat (x - a)) else m x)"

section \<open>Super blocks and the block device table\<close>

definition find_super :: "u32 \<Rightarrow> 'a vfs_scheme \<Rightarrow> nat option" where
  "find_super dev s = (if dev = 0 then None else find (\<lambda>i. s_dev (super_blocks s i) = dev) [0..<NR_SUPER])"

definition alloc_super :: "'a vfs_scheme \<Rightarrow> nat option" where
  "alloc_super s = find (\<lambda>i. s_dev (super_blocks s i) = 0) [0..<NR_SUPER]"

definition alloc_blk_dev_struct :: "'a vfs_scheme \<Rightarrow> nat option" where
  "alloc_blk_dev_struct s = find (\<lambda>i. b_fops (blk_devs s i) = None) [0..<NR_BLKDEV]"

definition find_blk_dev :: "u32 \<Rightarrow> 'a vfs_scheme \<Rightarrow> nat option" where
  "find_blk_dev major s = find (\<lambda>i. b_dev (blk_devs s i) = major) [0..<NR_BLKDEV]"

definition register_get_disk_info_fun :: "u32 \<Rightarrow> blkdrv \<Rightarrow> 'a vfs_scheme \<Rightarrow> int \<times> 'a vfs_scheme" where
  "register_get_disk_info_fun major get_info s =
     (case find_blk_dev major s of
        None \<Rightarrow> (- EINVAL, s)
      | Some i \<Rightarrow> (0, upd_blk i (\<lambda>b. b\<lparr>get_disk_info := Some get_info\<rparr>) s))"

definition get_blkfops :: "u32 \<Rightarrow> 'a vfs_scheme \<Rightarrow> fops option" where
  "get_blkfops major s =
     (if unat major \<ge> NR_BLKDEV then None
      else case find_blk_dev major s of None \<Rightarrow> None | Some i \<Rightarrow> b_fops (blk_devs s i))"

definition register_blkdev :: "u32 \<Rightarrow> fops option \<Rightarrow> 'a vfs_scheme \<Rightarrow> int \<times> 'a vfs_scheme" where
  "register_blkdev major fo s =
     (if unat major \<ge> NR_BLKDEV then (- EINVAL, s)
      else case alloc_blk_dev_struct s of
        None \<Rightarrow> (- ENOMEM, s)
      | Some i \<Rightarrow> (0, upd_blk i (\<lambda>b. b\<lparr>b_dev := major, b_fops := fo\<rparr>) s))"

definition register_blk_request :: "u32 \<Rightarrow> blkdrv \<Rightarrow> 'a vfs_scheme \<Rightarrow> int \<times> 'a vfs_scheme" where
  "register_blk_request dev req s =
     (if sint dev \<ge> int NR_BLKDEV then (- EINVAL, s)
      else case find_blk_dev dev s of
        None \<Rightarrow> (- ENODEV, s)
      | Some i \<Rightarrow>
          if request_fn (blk_devs s i) \<noteq> None then (- EBUSY, s)
          else (0, upd_blk i (\<lambda>b. b\<lparr>request_fn := Some req\<rparr>) s))"

section \<open>The drivers\<close>

text \<open>A request: the sector, the number of sectors, the inode, the direction, and the buffer,
  which the result returns as the request leaves it.\<close>

definition ramdisk_do_request ::
  "u32 \<Rightarrow> u32 \<Rightarrow> addr \<Rightarrow> bool \<Rightarrow> (nat \<Rightarrow> byte) \<Rightarrow> 'a vfs_scheme \<Rightarrow> int \<times> (nat \<Rightarrow> byte) \<times> 'a vfs_scheme" where
  "ramdisk_do_request sector nr_sectors ino is_read buf s =
     (if ino = NULL then (- EINVAL, buf, s)
      else let rn = i_what (inode_at s ino)
      in if rn = NULL then (- EINVAL, buf, s)
      else let st0 = start_addr (rnode_at s rn);
               lim = st0 + r_size (rnode_at s rn);
               st = st0 + sector * RAMDISK_SECTOR_SIZE
      in if st0 = NULL then (0, buf, s)
         else if st \<ge> lim then (0, buf, s)
         else let sz = (if st + nr_sectors * RAMDISK_SECTOR_SIZE > lim then lim - st
                        else nr_sectors * RAMDISK_SECTOR_SIZE)
              in if is_read then (sint sz, overlay 0 (unat sz) (from_mem (ram s) st) buf, s)
                 else (sint sz, buf, s\<lparr>ram := to_mem st (unat sz) buf (ram s)\<rparr>))"

definition ramdisk_get_disk_info :: u32 where
  "ramdisk_get_disk_info = RAMDISK_SECTOR_SIZE"

definition ramdisk_init :: "'a vfs_scheme \<Rightarrow> int \<times> 'a vfs_scheme" where
  "ramdisk_init s =
     (let (ret, s1) = register_blkdev RAMDISK_DEV_NUM (Some Ramfs_fops) s
      in if ret \<noteq> 0 then (ret, s1)
         else let (ret2, s2) = register_get_disk_info_fun RAMDISK_DEV_NUM Ramdisk_drv s1
              in if ret2 \<noteq> 0 then (ret2, s2) else register_blk_request RAMDISK_DEV_NUM Ramdisk_drv s2)"

text \<open>The flash: the page that the five address cycles select is \<open>blockPage\<close> modulo
  \<open>2 ^ 17\<close>.\<close>

definition NF_ReadPage :: "u32 \<Rightarrow> u32 \<Rightarrow> 'a vfs_scheme \<Rightarrow> nat \<Rightarrow> byte" where
  "NF_ReadPage block page s = nand_page s ((push_bit 6 block + page) AND 0x1FFFF)"

definition nand_do_request ::
  "u32 \<Rightarrow> u32 \<Rightarrow> bool \<Rightarrow> (nat \<Rightarrow> byte) \<Rightarrow> 'a vfs_scheme \<Rightarrow> int \<times> (nat \<Rightarrow> byte) \<times> 'a vfs_scheme" where
  "nand_do_request sector nr_sectors is_read buf s =
     (let (b, s1) = net_kmalloc s
      in if b = NULL then (- ENOMEM, buf, s1)
         else (0, if is_read then fold (\<lambda>i. overlay (2048 * i) 2048 (NF_ReadPage 0 (sector + of_nat i) s1))
                                       [0..<unat nr_sectors] buf
                  else buf, s1))"

definition nand_get_disk_info :: u32 where
  "nand_get_disk_info = 2048"

text \<open>\<open>Ext_fops 0\<close> is the operation table of ofs.\<close>

definition nand_init :: "'a vfs_scheme \<Rightarrow> int \<times> 'a vfs_scheme" where
  "nand_init s =
     (let (ret, s1) = register_blkdev NAND_DEV_NUM (Some (Ext_fops 0)) s
      in if ret \<noteq> 0 then (ret, s1)
         else let (ret2, s2) = register_get_disk_info_fun NAND_DEV_NUM Nand_drv s1
              in if ret2 \<noteq> 0 then (ret2, s2) else register_blk_request NAND_DEV_NUM Nand_drv s2)"

fun sector_size :: "blkdrv \<Rightarrow> u32" where
  "sector_size Ramdisk_drv = ramdisk_get_disk_info"
| "sector_size Nand_drv = nand_get_disk_info"

fun call_request ::
  "blkdrv \<Rightarrow> u32 \<Rightarrow> u32 \<Rightarrow> addr \<Rightarrow> bool \<Rightarrow> (nat \<Rightarrow> byte) \<Rightarrow> 'a vfs_scheme \<Rightarrow> int \<times> (nat \<Rightarrow> byte) \<times> 'a vfs_scheme" where
  "call_request Ramdisk_drv sec nr ino rd buf s = ramdisk_do_request sec nr ino rd buf s"
| "call_request Nand_drv sec nr ino rd buf s = nand_do_request sec nr rd buf s"

section \<open>Reading and writing blocks\<close>

definition rw_sectors :: "u32 \<Rightarrow> u32 \<Rightarrow> u32 \<Rightarrow> u32" where
  "rw_sectors ss pos tot =
     (let n = tot div ss + (if tot mod ss \<noteq> 0 then 1 else 0)
      in if n * ss - (pos * SECTOR) mod ss < tot then n + 1 else n)"

text \<open>The destination is \<open>buf\<close>, whose contents the result returns; \<^verbatim>\<open>memcpy\<close>
  ignores a null pointer, and calling an empty slot of the device is a fault.\<close>

definition block_read ::
  "addr \<Rightarrow> u32 \<Rightarrow> addr \<Rightarrow> (nat \<Rightarrow> byte) \<Rightarrow> u32 \<Rightarrow> 'a vfs_scheme \<Rightarrow> (int \<times> (nat \<Rightarrow> byte) \<times> 'a vfs_scheme) option" where
  "block_read ino pos buf b count s =
     (if ino = NULL then Some (- EINVAL, b, s)
      else case find_blk_dev (i_dev (inode_at s ino)) s of
        None \<Rightarrow> Some (- EINVAL, b, s)
      | Some d \<Rightarrow> (case get_disk_info (blk_devs s d) of
          None \<Rightarrow> Some (- ENODEV, b, s)
        | Some gi \<Rightarrow>
            let (req, s1) = net_kmalloc s
            in if req = NULL then Some (- ENOMEM, b, s1)
            else let (info, s2) = net_kmalloc s1
            in if info = NULL then Some (- ENOMEM, b, s2)
            else let ss = sector_size gi;
                     total_size = count * SECTOR;
                     n = rw_sectors ss pos total_size;
                     (tmp_buff, s3) = net_kmalloc s2
            in if tmp_buff = NULL then Some (- ENOMEM, b, s3)
            else (case request_fn (blk_devs s d) of
                None \<Rightarrow> None
              | Some rq \<Rightarrow>
                  let (ret, t, s4) = call_request rq (pos * SECTOR div ss) n ino True (\<lambda>_. 0) s3
                  in Some (ret, if buf = NULL then b
                                else overlay 0 (unat total_size) (\<lambda>i. t (i + unat ((SECTOR * pos) mod ss))) b, s4))))"

definition block_write ::
  "addr \<Rightarrow> u32 \<Rightarrow> addr \<Rightarrow> (nat \<Rightarrow> byte) \<Rightarrow> u32 \<Rightarrow> 'a vfs_scheme \<Rightarrow> (int \<times> 'a vfs_scheme) option" where
  "block_write ino pos buf b count s =
     (if ino = NULL then Some (- EINVAL, s)
      else case find_blk_dev (i_dev (inode_at s ino)) s of
        None \<Rightarrow> Some (- EINVAL, s)
      | Some d \<Rightarrow> (case get_disk_info (blk_devs s d) of
          None \<Rightarrow> Some (- ENODEV, s)
        | Some gi \<Rightarrow>
            let (req, s1) = net_kmalloc s
            in if req = NULL then Some (- ENOMEM, s1)
            else let (info, s2) = net_kmalloc s1
            in if info = NULL then Some (- ENOMEM, s2)
            else let ss = sector_size gi;
                     total_size = count * SECTOR;
                     n = rw_sectors ss pos total_size;
                     (tmp_buff, s3) = net_kmalloc s2
            in if tmp_buff = NULL then Some (- ENOMEM, s3)
            else (case request_fn (blk_devs s d) of
                None \<Rightarrow> None
              | Some rq \<Rightarrow>
                  let t = (if buf = NULL then (\<lambda>_. 0) else overlay 0 (unat total_size) b (\<lambda>_. 0));
                      (ret, t', s4) = call_request rq (pos * SECTOR div ss) n ino False t s3
                  in Some (ret, s4))))"

section \<open>Character devices\<close>

definition alloc_chr_dev_struct :: "'a vfs_scheme \<Rightarrow> nat option" where
  "alloc_chr_dev_struct s = find (\<lambda>i. c_fops (chr_devs s i) = None) [0..<NR_CHRDEV]"

definition find_chr_dev :: "u32 \<Rightarrow> 'a vfs_scheme \<Rightarrow> nat option" where
  "find_chr_dev major s = find (\<lambda>i. c_dev (chr_devs s i) = major) [0..<NR_CHRDEV]"

definition get_chrfops :: "u32 \<Rightarrow> 'a vfs_scheme \<Rightarrow> fops option" where
  "get_chrfops major s =
     (if unat major \<ge> NR_CHRDEV then None
      else case find_chr_dev major s of None \<Rightarrow> None | Some i \<Rightarrow> c_fops (chr_devs s i))"

definition get_cdev_private_data :: "u32 \<Rightarrow> 'a vfs_scheme \<Rightarrow> addr" where
  "get_cdev_private_data major s =
     (if sint major \<ge> int NR_CHRDEV then NULL
      else case find_chr_dev major s of None \<Rightarrow> NULL | Some i \<Rightarrow> private_data (chr_devs s i))"

definition set_cdev_private_data :: "u32 \<Rightarrow> addr \<Rightarrow> 'a vfs_scheme \<Rightarrow> int \<times> 'a vfs_scheme" where
  "set_cdev_private_data major dat s =
     (if sint major \<ge> int NR_CHRDEV then (- EINVAL, s)
      else case find_chr_dev major s of
        None \<Rightarrow> (- ENODEV, s)
      | Some i \<Rightarrow> (0, upd_chr i (\<lambda>c. c\<lparr>private_data := dat\<rparr>) s))"

definition register_chrdev :: "u32 \<Rightarrow> fops option \<Rightarrow> 'a vfs_scheme \<Rightarrow> int \<times> 'a vfs_scheme" where
  "register_chrdev major fo s =
     (if unat major \<ge> NR_CHRDEV then (- EINVAL, s)
      else case alloc_chr_dev_struct s of
        None \<Rightarrow> (- ENOMEM, s)
      | Some i \<Rightarrow> (0, upd_chr i (\<lambda>c. c\<lparr>c_dev := major, c_fops := fo\<rparr>) s))"

definition unregister_chrdev :: "u32 \<Rightarrow> 'a vfs_scheme \<Rightarrow> 'a vfs_scheme" where
  "unregister_chrdev major s =
     s\<lparr>chr_devs := (\<lambda>i. if i < NR_CHRDEV \<and> c_dev (chr_devs s i) = major then zero_chr else chr_devs s i)\<rparr>"

end
