(* ===== verification/Ramfs.thy ===== *)
theory Ramfs
  imports Blkdev
begin

text \<open>
  The two file systems the kernel registers: the RAM file system (\<^verbatim>\<open>src/fs/ramfs.c\<close>)
  and the read-only ROM file system (\<^verbatim>\<open>src/fs/romfs.c\<close>), with the inode cache the latter
  uses (\<^verbatim>\<open>src/fs/inode.c\<close>). A name is the list of its bytes, without a terminator; the
  name of a RAM node is the array of 16 bytes. A function that returns through a pointer returns a
  pair. A walk along the nodes that does not end, a call through an empty slot and an access beyond an
  object are \<open>None\<close>. No file system installs super block operations, so the call of
  \<^verbatim>\<open>read_inode\<close> in \<^verbatim>\<open>get_new_inode\<close> is never made.
\<close>

section \<open>Inode cache\<close>

definition iget_ref :: "addr \<Rightarrow> 'a vfs_scheme \<Rightarrow> 'a vfs_scheme" where
  "iget_ref ino s = upd_inode ino (\<lambda>i. i\<lparr>i_count := i_count i + 1\<rparr>) s"

definition find_inode :: "nat \<Rightarrow> u32 \<Rightarrow> 'a vfs_scheme \<Rightarrow> addr" where
  "find_inode sb ino s =
     (case find (\<lambda>a. i_ino (inode_at s a) = ino \<and> i_sb (inode_at s a) = Some sb) (s_inodes (super_blocks s sb)) of
        None \<Rightarrow> NULL
      | Some a \<Rightarrow> a)"

definition get_new_inode :: "nat \<Rightarrow> u32 \<Rightarrow> 'a vfs_scheme \<Rightarrow> addr \<times> 'a vfs_scheme" where
  "get_new_inode sb ino s =
     (let (a, s1) = net_kmalloc s
      in if a = NULL then (NULL, s1)
         else let old = find_inode sb ino s1
         in if old = NULL
            then (a, (upd_sb sb (\<lambda>b. b\<lparr>s_inodes := a # s_inodes b\<rparr>) s1)
                       \<lparr>inode_at := (inode_at s1)(a := zero_inode\<lparr>i_sb := Some sb, i_dev := s_dev (super_blocks s1 sb),
                          i_ino := ino, i_count := 1\<rparr>)\<rparr>)
            else (old, iget_ref old s1))"

definition iget :: "nat \<Rightarrow> u32 \<Rightarrow> 'a vfs_scheme \<Rightarrow> addr \<times> 'a vfs_scheme" where
  "iget sb ino s =
     (let a = find_inode sb ino s
      in if a \<noteq> NULL then (a, iget_ref a s) else get_new_inode sb ino s)"

section \<open>The RAM file system: data\<close>

definition RAMFS_NAME_LEN :: nat where "RAMFS_NAME_LEN = 16"
definition RAMFS_DEFAULT_FILE_LEN :: u32 where "RAMFS_DEFAULT_FILE_LEN = 4096"
definition FILE_SYSTEM_TYPE_RAMFS :: u32 where "FILE_SYSTEM_TYPE_RAMFS = 1"
definition FILE_SYSTEM_TYPE_ROMFS :: u32 where "FILE_SYSTEM_TYPE_ROMFS = 3"

text \<open>The length of a transfer, cut at the size of the file, and the number of blocks it spans.\<close>

definition clip_len :: "u32 \<Rightarrow> u32 \<Rightarrow> u32 \<Rightarrow> u32" where
  "clip_len pos len sz = (if pos + len > sz then sz - pos else len)"

definition nr_blocks :: "u32 \<Rightarrow> u32 \<Rightarrow> u32" where
  "nr_blocks pos len =
     (let n = word_of_int (sint len sdiv 512 + (if sint len smod 512 \<noteq> 0 then 1 else 0))
      in if n * SECTOR - pos mod SECTOR < len then n + 1 else n)"

text \<open>The bytes that a read stores in the caller's buffer are part of its result. When
  \<^verbatim>\<open>buff\<close> is null, \<^verbatim>\<open>memcpy\<close> copies nothing from a null address, and
  an address just above it is not one of the buffer. A negative count reaches beyond every buffer.\<close>

definition ramfs_read ::
  "addr \<Rightarrow> addr \<Rightarrow> u32 \<Rightarrow> 'a vfs_scheme \<Rightarrow> (int \<times> byte list \<times> 'a vfs_scheme) option" where
  "ramfs_read ino f len0 s =
     (if len0 = 0 then Some (0, [], s)
      else if ino = NULL then Some (- EINVAL, [], s)
      else
        let pos = f_pos (file_at s f);
            len = clip_len pos len0 (r_size (rnode_at s (i_what (inode_at s ino))));
            off = pos mod SECTOR;
            (buff, s1) = net_kmalloc s
        in do {
          (ret, b, s2) \<leftarrow> block_read ino (pos div SECTOR) buff (\<lambda>_. 0) (nr_blocks pos len) s1;
          if ret < 0 then Some (ret, [], s2)
          else if sint len < 0 \<or> buff = NULL \<and> off \<noteq> 0 \<and> len \<noteq> 0 then None
          else Some (sint len, if buff = NULL then [] else map (\<lambda>i. b (unat off + i)) [0..<unat len],
                     upd_file f (\<lambda>e. e\<lparr>f_pos := f_pos e + len\<rparr>) s2)
        })"

definition ramfs_write ::
  "addr \<Rightarrow> addr \<Rightarrow> byte list \<Rightarrow> u32 \<Rightarrow> 'a vfs_scheme \<Rightarrow> (int \<times> 'a vfs_scheme) option" where
  "ramfs_write ino f dat len0 s =
     (if len0 = 0 then Some (0, s)
      else if ino = NULL then Some (- EINVAL, s)
      else
        let pos = f_pos (file_at s f);
            len = clip_len pos len0 (r_size (rnode_at s (i_what (inode_at s ino))));
            off = pos mod SECTOR;
            (buff, s1) = net_kmalloc s
        in do {
          (ret, b, s2) \<leftarrow> block_read ino (pos div SECTOR) buff (\<lambda>_. 0) 1 s1;
          if ret < 0 then Some (ret, s2)
          else if sint len < 0 \<or> buff = NULL \<and> off \<noteq> 0 \<and> len \<noteq> 0 then None
          else do {
            (ret2, s3) \<leftarrow> block_write ino (pos div SECTOR) buff
                             (if buff = NULL then b else overlay (unat off) (unat len) (\<lambda>i. dat ! i) b) (nr_blocks pos len) s2;
            if ret2 < 0 then Some (ret2, s3)
            else Some (sint len, upd_file f (\<lambda>e. e\<lparr>f_pos := f_pos e + len\<rparr>) s3)
          }
        })"

section \<open>The RAM file system: nodes\<close>

text \<open>\<^verbatim>\<open>strncmp(child->name, name, namelen) == 0\<close>; running off the array is
  \<open>None\<close>.\<close>

fun name_matches :: "byte list \<Rightarrow> byte list \<Rightarrow> bool option" where
  "name_matches xs [] = Some True"
| "name_matches [] (y # ys) = None"
| "name_matches (x # xs) (y # ys) =
     (if x \<noteq> 0 \<and> y \<noteq> 0 \<and> x = y then name_matches xs ys else Some (x = y))"

partial_function (option) travel_child :: "addr \<Rightarrow> byte list \<Rightarrow> 'a vfs_scheme \<Rightarrow> addr option" where
  "travel_child child name s =
     (if child = NULL then Some NULL
      else case name_matches (r_name (rnode_at s child)) name of
        None \<Rightarrow> None
      | Some m \<Rightarrow> if m then Some child else travel_child (r_next (rnode_at s child)) name s)"

definition ramfs_travel_child :: "addr \<Rightarrow> byte list \<Rightarrow> 'a vfs_scheme \<Rightarrow> addr option" where
  "ramfs_travel_child parent name s =
     (if parent = NULL then Some NULL else travel_child (r_child (rnode_at s parent)) name s)"

definition ramfs_lookup :: "addr \<Rightarrow> byte list \<Rightarrow> 'a vfs_scheme \<Rightarrow> (int \<times> addr) option" where
  "ramfs_lookup dir name s = do {
     child \<leftarrow> ramfs_travel_child (i_what (inode_at s dir)) name s;
     if child = NULL then Some (- 1, NULL) else Some (0, r_inode (rnode_at s child))
   }"

partial_function (option) last_node :: "addr \<Rightarrow> 'a vfs_scheme \<Rightarrow> addr option" where
  "last_node tmp s =
     (if r_next (rnode_at s tmp) = NULL then Some tmp else last_node (r_next (rnode_at s tmp)) s)"

definition ramfs_add_node :: "addr \<Rightarrow> addr \<Rightarrow> 'a vfs_scheme \<Rightarrow> (int \<times> 'a vfs_scheme) option" where
  "ramfs_add_node parent child s =
     (if r_child (rnode_at s parent) = NULL then Some (0, upd_rnode parent (\<lambda>r. r\<lparr>r_child := child\<rparr>) s)
      else do {
        tmp \<leftarrow> last_node (r_child (rnode_at s parent)) s;
        let s1 = upd_rnode tmp (\<lambda>r. r\<lparr>r_next := child\<rparr>) s;
        Some (0, upd_rnode child (\<lambda>r. r\<lparr>r_prev := tmp, r_next := NULL\<rparr>) s1)
      })"

text \<open>Copying the name into the cleared array of the node.\<close>

definition put_name :: "byte list \<Rightarrow> byte list option" where
  "put_name name = (if length name \<le> RAMFS_NAME_LEN then Some (name @ replicate (RAMFS_NAME_LEN - length name) 0) else None)"

definition ramfs_create ::
  "addr \<Rightarrow> byte list \<Rightarrow> u32 \<Rightarrow> 'a vfs_scheme \<Rightarrow> (int \<times> addr \<times> 'a vfs_scheme) option" where
  "ramfs_create dir name mode s =
     (let parent = i_what (inode_at s dir)
      in if parent = NULL then Some (- 1, NULL, s)
      else do {
        old \<leftarrow> ramfs_travel_child parent name s;
        if old \<noteq> NULL then Some (- 1, NULL, s)
        else let (child, s1) = net_kmalloc s
        in if child = NULL then Some (- 1, NULL, s1)
        else let (ino, s2) = net_kmalloc s1
        in if ino = NULL then Some (- 1, NULL, s2\<lparr>rnode_at := (rnode_at s2)(child := zero_rnode)\<rparr>)
        else do {
          nm \<leftarrow> put_name name;
          let (start, s3) = net_kmalloc s2;
          let s4 = s3\<lparr>rnode_at := (rnode_at s3)(child := zero_rnode\<lparr>r_name := nm, r_inode := ino, start_addr := start,
                        r_size := RAMFS_DEFAULT_FILE_LEN\<rparr>),
                      inode_at := (inode_at s3)(ino := zero_inode\<lparr>i_what := child, i_dev := i_dev (inode_at s3 dir),
                        i_op := Some Ramfs_iops\<rparr>),
                      ram := (if start = NULL then ram s3
                              else to_mem start (unat RAMFS_DEFAULT_FILE_LEN) (\<lambda>_. 0) (ram s3))\<rparr>;
          (r, s5) \<leftarrow> ramfs_add_node parent child s4;
          Some (r, ino, s5)
        }
      })"

definition S_IFMT :: u32 where "S_IFMT = 0xF000"
definition S_IFSOCK :: u32 where "S_IFSOCK = 0xC000"
definition S_IFBLK :: u32 where "S_IFBLK = 0x6000"
definition S_IFDIR :: u32 where "S_IFDIR = 0x4000"
definition S_IFCHR :: u32 where "S_IFCHR = 0x2000"

definition ramfs_mkdir ::
  "addr \<Rightarrow> byte list \<Rightarrow> u32 \<Rightarrow> 'a vfs_scheme \<Rightarrow> (int \<times> 'a vfs_scheme) option" where
  "ramfs_mkdir dir name mode s =
     (let parent = i_what (inode_at s dir)
      in if parent = NULL then Some (- 1, s)
      else do {
        old \<leftarrow> ramfs_travel_child parent name s;
        if old \<noteq> NULL then Some (- 1, s)
        else let (child, s1) = net_kmalloc s
        in if child = NULL then Some (- 1, s1)
        else let (ino, s2) = net_kmalloc s1
        in if ino = NULL then Some (- 1, s2\<lparr>rnode_at := (rnode_at s2)(child := zero_rnode)\<rparr>)
        else do {
          nm \<leftarrow> put_name name;
          let (start, s3) = net_kmalloc s2;
          let s4 = s3\<lparr>rnode_at := (rnode_at s3)(child := zero_rnode\<lparr>r_name := nm, r_inode := ino, start_addr := start,
                        r_size := RAMFS_DEFAULT_FILE_LEN\<rparr>),
                      inode_at := (inode_at s3)(ino := zero_inode\<lparr>i_what := child, i_dev := i_dev (inode_at s3 dir),
                        i_op := Some Ramfs_iops, i_mode := (mode AND NOT S_IFMT) OR S_IFDIR\<rparr>),
                      ram := (if start = NULL then ram s3
                              else to_mem start (unat RAMFS_DEFAULT_FILE_LEN) (\<lambda>_. 0) (ram s3))\<rparr>;
          ramfs_add_node parent child s4
        }
      })"

definition ramfs_mknod ::
  "addr \<Rightarrow> byte list \<Rightarrow> u32 \<Rightarrow> u32 \<Rightarrow> 'a vfs_scheme \<Rightarrow> (int \<times> 'a vfs_scheme) option" where
  "ramfs_mknod dir name mode dev_num s =
     (if dir = NULL then Some (- ENOENT, s)
      else let parent = i_what (inode_at s dir)
      in if parent = NULL then Some (- ENOENT, s)
      else do {
        old \<leftarrow> ramfs_travel_child parent name s;
        if old \<noteq> NULL then Some (- EBUSY, s)
        else let (child, s1) = net_kmalloc s
        in if child = NULL then Some (- ENOSPC, s1)
        else do {
          nm \<leftarrow> put_name name;
          let (ino, s2) = net_kmalloc (s1\<lparr>rnode_at := (rnode_at s1)(child := zero_rnode\<lparr>r_name := nm\<rparr>)\<rparr>);
          if ino = NULL then Some (- ENOSPC, s2)
          else ramfs_add_node parent child
            (s2\<lparr>rnode_at := (rnode_at s2)(child := zero_rnode\<lparr>r_name := nm, r_inode := ino\<rparr>),
                inode_at := (inode_at s2)(ino := zero_inode\<lparr>i_mode := mode, i_dev := dev_num, i_what := child,
                  i_op := (if mode AND S_IFMT = S_IFCHR then Some Chrdev_iops
                           else if mode AND S_IFMT = S_IFBLK then Some Blkdev_iops else None)\<rparr>)\<rparr>)
        }
      })"

definition ramfs_read_super :: "nat \<Rightarrow> 'a vfs_scheme \<Rightarrow> bool \<times> 'a vfs_scheme" where
  "ramfs_read_super sb s =
     (let (ino, s1) = net_kmalloc s
      in if ino = NULL then (False, s1)
      else let (rn, s2) = net_kmalloc s1
      in if rn = NULL then (False, s2)
      else (True, upd_sb sb (\<lambda>b. b\<lparr>s_mounted := ino, s_type := FILE_SYSTEM_TYPE_RAMFS\<rparr>)
             (s2\<lparr>inode_at := (inode_at s2)(ino := zero_inode\<lparr>i_dev := s_dev (super_blocks s2 sb), i_op := Some Ramfs_iops,
                   i_what := rn\<rparr>),
                 rnode_at := (rnode_at s2)(rn := zero_rnode\<lparr>r_inode := ino\<rparr>)\<rparr>)))"

section \<open>The ROM file system\<close>

text \<open>The result of \<^verbatim>\<open>(count <= ret) ? count : ret\<close>, in which \<^verbatim>\<open>ret\<close>
  is converted to an unsigned value, and the bytes copied, if any.\<close>

definition romfs_copyfrom ::
  "addr \<Rightarrow> u32 \<Rightarrow> u32 \<Rightarrow> 'a vfs_scheme \<Rightarrow> (int \<times> byte list \<times> 'a vfs_scheme) option" where
  "romfs_copyfrom ino offset count s =
     (let bc0 = count div SECTOR + (if count mod SECTOR \<noteq> 0 then 1 else 0);
          bc = (if bc0 * SECTOR - offset mod SECTOR < count then bc0 + 1 else bc0)
      in do {
        (ret, b, s1) \<leftarrow> block_read ino (offset div SECTOR) 1 (static_rw_buf s) bc s;
        let n = (if count \<le> word_of_int ret then count else word_of_int ret);
        if ret \<ge> 0 \<and> unat (bc * SECTOR) > 1048576 then None
        else Some (sint n, if ret > 0 then map (\<lambda>i. b (unat (offset mod SECTOR) + i)) [0..<unat n] else [],
              s1\<lparr>static_rw_buf := b\<rparr>)
      })"

text \<open>A header: the words \<^verbatim>\<open>next\<close>, \<^verbatim>\<open>spec\<close>,
  \<^verbatim>\<open>size\<close> and \<^verbatim>\<open>checksum\<close> and the name of 16 bytes.\<close>

definition rh_word :: "byte list \<Rightarrow> nat \<Rightarrow> u32" where
  "rh_word h k = ntohl (ld32 (\<lambda>i. h ! i) (4 * k))"

definition romfs_header :: "byte list \<Rightarrow> byte list \<Rightarrow> byte list" where
  "romfs_header new old = new @ drop (length new) old"

partial_function (option) romfs_search ::
  "addr \<Rightarrow> byte list \<Rightarrow> byte list \<Rightarrow> u32 \<Rightarrow> 'a vfs_scheme \<Rightarrow> (int \<times> u32 \<times> byte list \<times> 'a vfs_scheme) option" where
  "romfs_search dir name h next s =
     (case romfs_copyfrom dir next 32 s of
        None \<Rightarrow> None
      | Some (ret, bs, s1) \<Rightarrow>
          if ret < 0 then Some (ret, next, h, s1)
          else
            let h1 = romfs_header bs h
            in case name_matches (drop 16 h1) name of
                 None \<Rightarrow> None
               | Some m \<Rightarrow>
                   if m then Some (0, next, h1, s1)
                   else let next' = rh_word h1 0 AND NOT 0xF
                        in if next' = 0x0a then Some (0, next', h1, s1)
                           else romfs_search dir name h1 next' s1)"

definition romfs_lookup ::
  "addr \<Rightarrow> byte list \<Rightarrow> 'a vfs_scheme \<Rightarrow> (int \<times> addr \<times> 'a vfs_scheme) option" where
  "romfs_lookup dir name s =
     (let (buf, s1) = net_kmalloc s
      in if buf = NULL then Some (- ENOMEM, NULL, s1)
      else do {
        (ret, next, h, s2) \<leftarrow> romfs_search dir name (replicate 32 0) (i_ino (inode_at s1 dir) + 0x20) s1;
        if ret < 0 then Some (ret, NULL, s2)
        else if next = 0x0a then Some (- ENOENT, NULL, s2)
        else do {
          sb \<leftarrow> i_sb (inode_at s2 dir);
          let (ino, s3) = iget sb next s2;
          if ino = NULL then Some (- ENOMEM, NULL, s3)
          else Some (0, ino, upd_inode ino (\<lambda>i. i\<lparr>i_size := rh_word h 2, i_what := buf, i_ino := next,
                                                i_op := Some Romfs_iops\<rparr>) s3)
        }
      })"

definition romfs_read ::
  "addr \<Rightarrow> addr \<Rightarrow> u32 \<Rightarrow> 'a vfs_scheme \<Rightarrow> (int \<times> byte list \<times> 'a vfs_scheme) option" where
  "romfs_read ino f len s =
     (let pos = f_pos (file_at s f);
          sz = i_size (inode_at s ino);
          read_size = (if pos + len > sz then sz - pos else len)
      in if pos \<ge> sz then Some (0, [], s)
      else do {
        (ret, bs, s1) \<leftarrow> romfs_copyfrom ino (i_ino (inode_at s ino) + 0x20 + pos) read_size s;
        if ret < 0 then Some (ret, [], s1)
        else Some (sint read_size, bs, upd_file f (\<lambda>e. e\<lparr>f_pos := f_pos e + read_size\<rparr>) s1)
      })"

text \<open>The super block read from the device is kept but never looked at.\<close>

definition romfs_read_super :: "nat \<Rightarrow> 'a vfs_scheme \<Rightarrow> (bool \<times> 'a vfs_scheme) option" where
  "romfs_read_super sb s =
     (let (ino, s1) = net_kmalloc s
      in if ino = NULL then Some (False, s1)
      else let (ri, s2) = net_kmalloc s1
      in if ri = NULL then Some (False, s2)
      else let (rsb, s3) = net_kmalloc s2
      in if rsb = NULL then Some (False, s3)
      else let s4 = s3\<lparr>inode_at := (inode_at s3)(ino := zero_inode\<lparr>i_dev := s_dev (super_blocks s3 sb)\<rparr>)\<rparr>;
               (buff, s5) = net_kmalloc s4
      in if buff = NULL then Some (False, s5)
      else do {
        (ret, bs, s6) \<leftarrow> romfs_copyfrom ino 0 16 s5;
        if ret < 0 then Some (False, s6)
        else Some (True, upd_sb sb (\<lambda>b. b\<lparr>s_type := FILE_SYSTEM_TYPE_ROMFS, s_mounted := ino\<rparr>)
               (upd_inode ino (\<lambda>i. i\<lparr>i_op := Some Romfs_iops, i_what := ri, i_sb := Some sb, i_ino := 0x20\<rparr>) s6))
      })"

end
