(* ===== verification/Vfs.thy ===== *)
theory Vfs
  imports Ramfs
begin

text \<open>
  The virtual file system (\<^verbatim>\<open>src/fs/vfs.c\<close>): path walking, mounting, the file table
  and the system calls on descriptors. The operations that call through a table of file operations take
  the tables of code beside the file system (drivers, sockets, ofs) as the parameter \<open>ext\<close>. The
  seventeenth descriptor of a process is the field \<^verbatim>\<open>pwd\<close> that follows the array
  \<^verbatim>\<open>filp\<close>, as it is in memory. Paths are lists of bytes without a terminator.
\<close>

section \<open>Operation tables\<close>

record 's fops_table =
  d_open :: "(addr \<Rightarrow> addr \<Rightarrow> 's \<Rightarrow> (int \<times> 's) option) option"
  d_close :: "(addr \<Rightarrow> addr \<Rightarrow> 's \<Rightarrow> 's option) option"
  d_read :: "(addr \<Rightarrow> addr \<Rightarrow> u32 \<Rightarrow> 's \<Rightarrow> (wait_outcome \<times> byte list \<times> 's) option) option"
  d_write :: "(addr \<Rightarrow> addr \<Rightarrow> byte list \<Rightarrow> u32 \<Rightarrow> 's \<Rightarrow> (int \<times> 's) option) option"
  d_ioctl :: "(addr \<Rightarrow> addr \<Rightarrow> u32 \<Rightarrow> u32 \<Rightarrow> 's \<Rightarrow> (int \<times> 's) option) option"

definition returning :: "(int \<times> byte list \<times> 's) option \<Rightarrow> (wait_outcome \<times> byte list \<times> 's) option" where
  "returning r = map_option (\<lambda>(n, bs, s). (Returns n, bs, s)) r"

definition ramfs_file_operations :: "('a vfs_scheme) fops_table" where
  "ramfs_file_operations = \<lparr>d_open = Some (\<lambda>_ _ s. Some (0, s)), d_close = Some (\<lambda>_ _ s. Some s),
     d_read = Some (\<lambda>ino f n s. returning (ramfs_read ino f n s)), d_write = Some ramfs_write, d_ioctl = None\<rparr>"

definition romfs_file_operations :: "('a vfs_scheme) fops_table" where
  "romfs_file_operations = \<lparr>d_open = Some (\<lambda>_ _ s. Some (0, s)), d_close = Some (\<lambda>_ _ s. Some s),
     d_read = Some (\<lambda>ino f n s. returning (romfs_read ino f n s)), d_write = None, d_ioctl = None\<rparr>"

text \<open>A device whose table is itself one of the two default tables opens itself without end.\<close>

fun dev_fops :: "(nat \<Rightarrow> ('a vfs_scheme) fops_table) \<Rightarrow> fops \<Rightarrow> ('a vfs_scheme) fops_table" where
  "dev_fops ext Ramfs_fops = ramfs_file_operations"
| "dev_fops ext Romfs_fops = romfs_file_operations"
| "dev_fops ext (Ext_fops n) = ext n"
| "dev_fops ext Def_chr_fops = \<lparr>d_open = Some (\<lambda>_ _ _. None), d_close = None, d_read = None, d_write = None, d_ioctl = None\<rparr>"
| "dev_fops ext Def_blk_fops = \<lparr>d_open = Some (\<lambda>_ _ _. None), d_close = None, d_read = None, d_write = None, d_ioctl = None\<rparr>"

definition dev_open ::
  "(nat \<Rightarrow> ('a vfs_scheme) fops_table) \<Rightarrow> fops option \<Rightarrow> addr \<Rightarrow> addr \<Rightarrow> 'a vfs_scheme \<Rightarrow> (int \<times> 'a vfs_scheme) option" where
  "dev_open ext fo ino f s =
     (let s1 = upd_file f (\<lambda>e. e\<lparr>f_op := fo\<rparr>) s
      in case fo of
           None \<Rightarrow> None
         | Some t \<Rightarrow> (case d_open (dev_fops ext t) of None \<Rightarrow> Some (0, s1) | Some op \<Rightarrow> op ino f s1))"

definition chrdev_open ::
  "(nat \<Rightarrow> ('a vfs_scheme) fops_table) \<Rightarrow> addr \<Rightarrow> addr \<Rightarrow> 'a vfs_scheme \<Rightarrow> (int \<times> 'a vfs_scheme) option" where
  "chrdev_open ext ino f s =
     (case find_chr_dev (i_dev (inode_at s ino)) s of
        None \<Rightarrow> Some (- ENODEV, s)
      | Some d \<Rightarrow> dev_open ext (c_fops (chr_devs s d)) ino f s)"

definition blkdev_open ::
  "(nat \<Rightarrow> ('a vfs_scheme) fops_table) \<Rightarrow> addr \<Rightarrow> addr \<Rightarrow> 'a vfs_scheme \<Rightarrow> (int \<times> 'a vfs_scheme) option" where
  "blkdev_open ext ino f s =
     (case find_blk_dev (i_dev (inode_at s ino)) s of
        None \<Rightarrow> Some (- ENODEV, s)
      | Some d \<Rightarrow> dev_open ext (b_fops (blk_devs s d)) ino f s)"

fun fops_of :: "(nat \<Rightarrow> ('a vfs_scheme) fops_table) \<Rightarrow> fops \<Rightarrow> ('a vfs_scheme) fops_table" where
  "fops_of ext Def_chr_fops = \<lparr>d_open = Some (chrdev_open ext), d_close = None, d_read = None, d_write = None, d_ioctl = None\<rparr>"
| "fops_of ext Def_blk_fops = \<lparr>d_open = Some (blkdev_open ext), d_close = None, d_read = None, d_write = None, d_ioctl = None\<rparr>"
| "fops_of ext fo = dev_fops ext fo"

fun default_file_ops :: "iops \<Rightarrow> fops" where
  "default_file_ops Ramfs_iops = Ramfs_fops"
| "default_file_ops Romfs_iops = Romfs_fops"
| "default_file_ops Chrdev_iops = Def_chr_fops"
| "default_file_ops Blkdev_iops = Def_blk_fops"

definition has_lookup :: "inode \<Rightarrow> bool" where
  "has_lookup i = (i_op i = Some Ramfs_iops \<or> i_op i = Some Romfs_iops)"

section \<open>Path walking\<close>

abbreviation cur :: "'a sched_scheme \<Rightarrow> task" where
  "cur s \<equiv> task_at s (current s)"

definition is_filp :: "addr \<Rightarrow> 'a vfs_scheme \<Rightarrow> nat option" where
  "is_filp a s = find (\<lambda>i. FILP s i = a) [0..<NR_FILEP]"

text \<open>\<^verbatim>\<open>atomic_inc(&inode->i_count)\<close>. The counter is 40 bytes into an inode, which is
  the size of a file: through a pointer to an entry of the file table it is the mode of the next entry.\<close>

definition inc_count :: "addr \<Rightarrow> 'a vfs_scheme \<Rightarrow> 'a vfs_scheme option" where
  "inc_count a s =
     (if a = NULL then None
      else case is_filp a s of
        None \<Rightarrow> Some (upd_inode a (\<lambda>i. i\<lparr>i_count := i_count i + 1\<rparr>) s)
      | Some k \<Rightarrow> if k + 1 < NR_FILEP then Some (upd_file (FILP s (k + 1)) (\<lambda>e. e\<lparr>f_mode := f_mode e + 1\<rparr>) s) else None)"

text \<open>The directory that \<^verbatim>\<open>..\<close> selects, or the error returned.\<close>

definition dotdot :: "addr \<Rightarrow> 'a vfs_scheme \<Rightarrow> (int + addr \<times> 'a vfs_scheme) option" where
  "dotdot dir s =
     (case i_sb (inode_at s dir) of
        None \<Rightarrow> Some (Inr (dir, s))
      | Some sb \<Rightarrow>
          let d1 = s_mounted (super_blocks s sb)
          in if d1 = NULL then None
             else case i_sb (inode_at s d1) of
               None \<Rightarrow> None
             | Some sb2 \<Rightarrow>
                 let d2 = s_covered (super_blocks s sb2)
                 in if d2 = NULL then Some (Inl (- ENOENT))
                    else map_option (\<lambda>s1. Inr (d2, s1)) (inc_count d2 s))"

definition lookup_in :: "addr \<Rightarrow> byte list \<Rightarrow> 'a vfs_scheme \<Rightarrow> (int \<times> addr \<times> 'a vfs_scheme) option" where
  "lookup_in dir name s =
     (if \<not> has_lookup (inode_at s dir) then Some (- ENOTDIR, NULL, s)
      else if name = [] then Some (0, dir, s)
      else if i_op (inode_at s dir) = Some Ramfs_iops
        then map_option (\<lambda>(r, a). (r, a, s)) (ramfs_lookup dir name s)
      else romfs_lookup dir name s)"

definition lookup :: "addr \<Rightarrow> byte list \<Rightarrow> 'a vfs_scheme \<Rightarrow> (int \<times> addr \<times> 'a vfs_scheme) option" where
  "lookup dir name s =
     (if dir = NULL then Some (- ENOTDIR, NULL, s)
      else if is_filp dir s \<noteq> None then None
      else if name = [46, 46] then
        (if dir = t_root (cur s) then Some (0, dir, s)
         else case dotdot dir s of
           None \<Rightarrow> None
         | Some (Inl e) \<Rightarrow> Some (e, NULL, s)
         | Some (Inr (d, s1)) \<Rightarrow> lookup_in d name s1)
      else lookup_in dir name s)"

function dir_walk ::
  "addr \<Rightarrow> byte list \<Rightarrow> 'a vfs_scheme \<Rightarrow> (int \<times> (addr \<times> byte list) \<times> 'a vfs_scheme) option" where
  "dir_walk base pth s =
     (let thisname = takeWhile (\<lambda>c. c \<noteq> 47) pth;
          rest = dropWhile (\<lambda>c. c \<noteq> 47) pth
      in if rest = [] then
           (if base = NULL \<or> is_filp base s \<noteq> None then None
            else if \<not> has_lookup (inode_at s base) then Some (- ENOTDIR, (NULL, []), s)
            else Some (0, (base, thisname), s))
         else case lookup base thisname s of
             None \<Rightarrow> None
           | Some (ret, ino, s1) \<Rightarrow>
               if ret \<noteq> 0 then Some (ret, (NULL, []), s1)
               else if ino = NULL then None
               else let b = (if i_mount (inode_at s1 ino) \<noteq> NULL then i_mount (inode_at s1 ino) else ino)
                    in case inc_count b s1 of
                         None \<Rightarrow> None
                       | Some s2 \<Rightarrow> dir_walk b (tl rest) s2)"
  by pat_completeness auto
termination
proof (relation "measure (\<lambda>(b, p, s). length p)", goal_cases)
  case (2 base pth s)
  then have "length (dropWhile (\<lambda>c. c \<noteq> 47) pth) \<le> length pth" "dropWhile (\<lambda>c. c \<noteq> 47) pth \<noteq> []"
    by (auto simp: length_dropWhile_le)
  then show ?case using 2 by (cases "dropWhile (\<lambda>c. c \<noteq> 47) pth") auto
qed simp

declare dir_walk.simps [simp del]

definition dir_namei ::
  "byte list \<Rightarrow> addr \<Rightarrow> 'a vfs_scheme \<Rightarrow> (int \<times> (addr \<times> byte list) \<times> 'a vfs_scheme) option" where
  "dir_namei pathname base0 s =
     do {
       (base, s1) \<leftarrow> (if base0 = NULL then map_option (Pair (t_pwd (cur s))) (inc_count (t_pwd (cur s)) s)
                      else Some (base0, s));
       (if pathname \<noteq> [] \<and> hd pathname = 47
        then do { s2 \<leftarrow> inc_count (t_root (cur s1)) s1; dir_walk (t_root (cur s1)) (tl pathname) s2 }
        else dir_walk base pathname s1)
     }"

definition namei :: "byte list \<Rightarrow> 'a vfs_scheme \<Rightarrow> (int \<times> addr \<times> 'a vfs_scheme) option" where
  "namei pathname s =
     do {
       (ret, (base, name), s1) \<leftarrow> dir_namei pathname NULL s;
       if ret \<noteq> 0 then Some (ret, NULL, s1)
       else do {
         s2 \<leftarrow> inc_count base s1;
         (ret2, ino, s3) \<leftarrow> lookup base name s2;
         if ret2 \<noteq> 0 then Some (ret2, NULL, s3)
         else do { s4 \<leftarrow> inc_count ino s3; Some (0, ino, s4) }
       }
     }"

definition O_CREAT :: u32 where "O_CREAT = 0x40"

definition open_namei ::
  "byte list \<Rightarrow> u32 \<Rightarrow> u32 \<Rightarrow> 'a vfs_scheme \<Rightarrow> (int \<times> addr \<times> 'a vfs_scheme) option" where
  "open_namei pathname flag mode s =
     do {
       (ret, (dir, name), s1) \<leftarrow> dir_namei pathname NULL s;
       if ret \<noteq> 0 then Some (ret, NULL, s1)
       else if name = [] then Some (0, dir, s1)
       else do {
         s2 \<leftarrow> inc_count dir s1;
         (r, ino, s3) \<leftarrow> lookup dir name s2;
         if r = 0 then Some (0, ino, s3)
         else if flag AND O_CREAT \<noteq> 0 then do {
           s4 \<leftarrow> inc_count dir s3;
           (if i_op (inode_at s4 dir) = Some Ramfs_iops then ramfs_create dir name mode s4 else None)
         }
         else Some (r, NULL, s3)
       }
     }"

section \<open>Mounting\<close>

datatype fs_type = Ramfs_type | Romfs_type

definition cbytes :: "string \<Rightarrow> byte list" where
  "cbytes s = map of_char s"

definition get_fs_type :: "byte list \<Rightarrow> fs_type option" where
  "get_fs_type name = (if name = cbytes ''ramfs'' then Some Ramfs_type
                       else if name = cbytes ''romfs'' then Some Romfs_type else None)"

definition read_super :: "u32 \<Rightarrow> byte list \<Rightarrow> u32 \<Rightarrow> 'a vfs_scheme \<Rightarrow> (nat option \<times> 'a vfs_scheme) option" where
  "read_super dev name flags s =
     (case find_super dev s of
        Some sb \<Rightarrow> Some (Some sb, s)
      | None \<Rightarrow> (case get_fs_type name of
          None \<Rightarrow> Some (None, s)
        | Some ty \<Rightarrow> (case alloc_super s of
            None \<Rightarrow> Some (None, s)
          | Some sb \<Rightarrow>
              do {
                let s1 = upd_sb sb (\<lambda>b. b\<lparr>s_dev := dev, s_flags := flags, s_inodes := []\<rparr>) s;
                (ok, s2) \<leftarrow> (case ty of Ramfs_type \<Rightarrow> Some (ramfs_read_super sb s1) | Romfs_type \<Rightarrow> romfs_read_super sb s1);
                if \<not> ok then Some (None, upd_sb sb (\<lambda>b. b\<lparr>s_dev := 0\<rparr>) s2)
                else Some (Some sb, upd_sb sb (\<lambda>b. b\<lparr>s_covered := NULL\<rparr>) s2)
              })))"

definition do_mount :: "u32 \<Rightarrow> byte list \<Rightarrow> byte list \<Rightarrow> u32 \<Rightarrow> 'a vfs_scheme \<Rightarrow> (int \<times> 'a vfs_scheme) option" where
  "do_mount dev dir type flags s =
     do {
       (ret, dir_i, s1) \<leftarrow> namei dir s;
       if ret \<noteq> 0 then Some (ret, s1)
       else if i_count (inode_at s1 dir_i) \<noteq> 1 \<or> i_mount (inode_at s1 dir_i) \<noteq> NULL then Some (- EBUSY, s1)
       else if i_mode (inode_at s1 dir_i) AND S_IFMT \<noteq> S_IFDIR then Some (- EPERM, s1)
       else do {
         (sb, s2) \<leftarrow> read_super dev type flags s1;
         case sb of
           None \<Rightarrow> Some (- EBUSY, s2)
         | Some b \<Rightarrow>
             if s_covered (super_blocks s2 b) \<noteq> NULL then Some (- EBUSY, s2)
             else Some (0, upd_inode dir_i (\<lambda>i. i\<lparr>i_mount := s_mounted (super_blocks s2 b)\<rparr>)
                             (upd_sb b (\<lambda>x. x\<lparr>s_covered := dir_i\<rparr>) s2))
       }
     }"

definition mount_root :: "'a vfs_scheme \<Rightarrow> 'a vfs_scheme option" where
  "mount_root s0 =
     do {
       let s = s0\<lparr>ROOT_DEV := 1\<rparr>;
       (sb, s1) \<leftarrow> read_super (ROOT_DEV s) (cbytes ''ramfs'') 0 s;
       b \<leftarrow> sb;
       let ino = s_mounted (super_blocks s1 b);
       Some ((upd_inode ino (\<lambda>i. i\<lparr>i_count := i_count i + 3\<rparr>)
              (upd_sb b (\<lambda>x. x\<lparr>s_covered := ino, s_flags := 0\<rparr>) s1))
             \<lparr>task_at := (task_at s1)(current s1 := (cur s1)\<lparr>t_root := ino, t_pwd := ino\<rparr>)\<rparr>)
     }"

text \<open>Both types need a device, so the device is always taken from the inode.\<close>

definition sys_mount ::
  "(nat \<Rightarrow> ('a vfs_scheme) fops_table) \<Rightarrow> byte list \<Rightarrow> byte list \<Rightarrow> byte list \<Rightarrow> u32 \<Rightarrow> 'a vfs_scheme \<Rightarrow> (int \<times> 'a vfs_scheme) option" where
  "sys_mount ext dev_name dir_name type flags s =
     (if get_fs_type type = None then Some (- ENODEV, s)
      else do {
        (ret, ino, s1) \<leftarrow> namei dev_name s;
        if ret \<noteq> 0 then Some (ret, s1)
        else if i_mode (inode_at s1 ino) AND S_IFMT \<noteq> S_IFBLK then Some (- ENOTBLK, s1)
        else do {
          let dev = i_rdev (inode_at s1 ino);
          let fo = get_blkfops (drop_bit 8 dev) s1;
          (r1, s2) \<leftarrow> (case fo of
             None \<Rightarrow> Some (0, s1)
           | Some t \<Rightarrow> (case d_open (fops_of ext t) of None \<Rightarrow> Some (0, s1) | Some op \<Rightarrow> op ino NULL s1));
          if r1 \<noteq> 0 then Some (r1, s2)
          else do {
            (r2, s3) \<leftarrow> do_mount dev dir_name type flags s2;
            case fo of
              None \<Rightarrow> Some (r2, s3)
            | Some t \<Rightarrow> (case d_close (fops_of ext t) of
                None \<Rightarrow> Some (r2, s3)
              | Some cl \<Rightarrow> if r2 \<noteq> 0 then map_option (Pair r2) (cl ino NULL s3) else Some (r2, s3))
          }
        }
      })"

section \<open>The file table and the system calls\<close>

definition get_empty_filp :: "'a vfs_scheme \<Rightarrow> addr" where
  "get_empty_filp s = (case find (\<lambda>i. f_op (file_at s (FILP s i)) = None) [0..<NR_FILEP] of None \<Rightarrow> NULL | Some i \<Rightarrow> FILP s i)"

definition set_filp :: "nat \<Rightarrow> addr \<Rightarrow> 'a vfs_scheme \<Rightarrow> 'a vfs_scheme" where
  "set_filp fd f s =
     s\<lparr>task_at := (task_at s)(current s :=
        (if fd < NR_OPEN then (cur s)\<lparr>t_filp := (t_filp (cur s))(fd := f)\<rparr> else (cur s)\<lparr>t_pwd := f\<rparr>))\<rparr>"

definition free_fd :: "'a vfs_scheme \<Rightarrow> nat" where
  "free_fd s = (case find (\<lambda>i. t_filp (cur s) i = NULL) [0..<NR_OPEN] of None \<Rightarrow> NR_OPEN | Some i \<Rightarrow> i)"

definition sys_open ::
  "(nat \<Rightarrow> ('a vfs_scheme) fops_table) \<Rightarrow> byte list \<Rightarrow> u32 \<Rightarrow> u32 \<Rightarrow> 'a vfs_scheme \<Rightarrow> (int \<times> 'a vfs_scheme) option" where
  "sys_open ext name flag mode s =
     (let fd = free_fd s
      in if fd > NR_OPEN then Some (- EMFILE, s)
      else let f = get_empty_filp s
      in if f = NULL then Some (- EMFILE, s)
      else do {
        let s1 = upd_file f (\<lambda>e. e\<lparr>f_flags := ucast flag, f_mode := mode, f_count := f_count e + 1\<rparr>) (set_filp fd f s);
        (ret, ino, s2) \<leftarrow> open_namei name flag mode s1;
        if ret \<noteq> 0 \<or> ino = NULL
        then Some (ret, upd_file f (\<lambda>e. e\<lparr>f_count := f_count e - 1\<rparr>) (set_filp fd NULL s2))
        else do {
          let fo = map_option default_file_ops (i_op (inode_at s2 ino));
          let s3 = upd_file f (\<lambda>e. e\<lparr>f_inode := ino, f_pos := 0, f_op := fo\<rparr>) s2;
          (r, s4) \<leftarrow> (case fo of
             None \<Rightarrow> Some (0, s3)
           | Some t \<Rightarrow> (case d_open (fops_of ext t) of None \<Rightarrow> Some (0, s3) | Some op \<Rightarrow> op ino f s3));
          if r \<noteq> 0 then Some (r, set_filp fd NULL (upd_file f (\<lambda>e. e\<lparr>f_count := f_count e - 1\<rparr>) s4))
          else Some (int fd, s4)
        }
      })"

definition sys_close ::
  "(nat \<Rightarrow> ('a vfs_scheme) fops_table) \<Rightarrow> u32 \<Rightarrow> 'a vfs_scheme \<Rightarrow> (int \<times> 'a vfs_scheme) option" where
  "sys_close ext fd s =
     (if unat fd \<ge> NR_OPEN then Some (- EBADF, s)
      else let f = t_filp (cur s) (unat fd)
      in if f = NULL then Some (- EBADF, s)
      else let s1 = set_filp (unat fd) NULL s
      in if f_count (file_at s1 f) = 0 then Some (0, s1)
      else do {
        let ino = f_inode (file_at s1 f);
        let s2 = upd_file f (\<lambda>e. e\<lparr>f_count := f_count e - 1\<rparr>) s1;
        s3 \<leftarrow> (case f_op (file_at s2 f) of
           None \<Rightarrow> Some s2
         | Some t \<Rightarrow> (case d_close (fops_of ext t) of None \<Rightarrow> Some s2 | Some cl \<Rightarrow> cl ino f s2));
        Some (0, upd_file f (\<lambda>e. e\<lparr>f_inode := NULL\<rparr>) s3)
      })"

definition sys_read ::
  "(nat \<Rightarrow> ('a vfs_scheme) fops_table) \<Rightarrow> u32 \<Rightarrow> u32 \<Rightarrow> 'a vfs_scheme \<Rightarrow> (wait_outcome \<times> byte list \<times> 'a vfs_scheme) option" where
  "sys_read ext fd count s =
     (let f = t_filp (cur s) (unat fd)
      in if unat fd \<ge> NR_OPEN \<or> f = NULL \<or> f_inode (file_at s f) = NULL then Some (Returns (- EBADF), [], s)
      else do {
        t \<leftarrow> f_op (file_at s f);
        rd \<leftarrow> d_read (fops_of ext t);
        rd (f_inode (file_at s f)) f count s
      })"

definition sys_write ::
  "(nat \<Rightarrow> ('a vfs_scheme) fops_table) \<Rightarrow> u32 \<Rightarrow> byte list \<Rightarrow> u32 \<Rightarrow> 'a vfs_scheme \<Rightarrow> (int \<times> 'a vfs_scheme) option" where
  "sys_write ext fd buf count s =
     (let f = t_filp (cur s) (unat fd)
      in if unat fd \<ge> NR_OPEN \<or> f = NULL \<or> f_inode (file_at s f) = NULL then Some (- EBADF, s)
      else do {
        t \<leftarrow> f_op (file_at s f);
        wr \<leftarrow> d_write (fops_of ext t);
        wr (f_inode (file_at s f)) f buf count s
      })"

text \<open>Descriptor 16 is the working directory taken for a file.\<close>

definition sys_ioctl ::
  "(nat \<Rightarrow> ('a vfs_scheme) fops_table) \<Rightarrow> u32 \<Rightarrow> u32 \<Rightarrow> u32 \<Rightarrow> 'a vfs_scheme \<Rightarrow> (int \<times> 'a vfs_scheme) option" where
  "sys_ioctl ext fd cmd arg s =
     (let f = (if unat fd = NR_OPEN then t_pwd (cur s) else t_filp (cur s) (unat fd))
      in if unat fd > NR_OPEN \<or> f = NULL then Some (- EBADF, s)
      else if unat fd = NR_OPEN \<and> is_filp f s = None then None
      else case f_op (file_at s f) of
             None \<Rightarrow> Some (- EINVAL, s)
           | Some t \<Rightarrow> (case d_ioctl (fops_of ext t) of
               None \<Rightarrow> Some (- EINVAL, s)
             | Some io \<Rightarrow> io (f_inode (file_at s f)) f cmd arg s))"

definition sys_mkdir :: "byte list \<Rightarrow> u32 \<Rightarrow> 'a vfs_scheme \<Rightarrow> (int \<times> 'a vfs_scheme) option" where
  "sys_mkdir pathname mode s =
     do {
       (error, (dir, name), s1) \<leftarrow> dir_namei pathname NULL s;
       if error \<noteq> 0 then Some (error, s1)
       else if name = [] then Some (- ENOENT, s1)
       else if i_op (inode_at s1 dir) \<noteq> Some Ramfs_iops then Some (- EPERM, s1)
       else ramfs_mkdir dir name mode s1
     }"

definition sys_mknod :: "byte list \<Rightarrow> u32 \<Rightarrow> u32 \<Rightarrow> 'a vfs_scheme \<Rightarrow> (int \<times> 'a vfs_scheme) option" where
  "sys_mknod filename mode dev s =
     (if mode AND S_IFMT = S_IFDIR then Some (- EPERM, s)
      else do {
        (ret, (dir, name), s1) \<leftarrow> dir_namei filename NULL s;
        if ret \<noteq> 0 then Some (ret, s1)
        else if name = [] then Some (- EROFS, s1)
        else if i_op (inode_at s1 dir) \<noteq> Some Ramfs_iops then Some (- EPERM, s1)
        else ramfs_mknod dir name mode dev s1
      })"

definition vfs_init :: "'a vfs_scheme \<Rightarrow> (int \<times> 'a vfs_scheme) option" where
  "vfs_init s =
     (let (r1, s1) = ramdisk_init s
      in if r1 < 0 then None
      else let (r2, s2) = nand_init s1
      in if r2 < 0 then None
      else do {
        s3 \<leftarrow> mount_root s2;
        (_, s4) \<leftarrow> sys_mkdir (cbytes ''/nand'') 666 s3;
        (_, s5) \<leftarrow> sys_mkdir (cbytes ''/nand/abc'') 666 s4;
        (_, s6) \<leftarrow> do_mount 3 (cbytes ''/nand/abc'') (cbytes ''ofs'') 0 s5;
        Some (0, s6)
      })"

end
