(* ===== verification/Spec2Isabelle.thy ===== *)
theory Spec2Isabelle
  imports Lib_List Lib_Mem Printk Bootmem Slab_Inv Completion Vma_Brk Inet_Inv Vfs
begin

text \<open>
  Verification development of the yap kernel.
\<close>

end
